(* ===== verification/Prelude.thy ===== *)
theory Prelude
  imports Main "HOL-Library.Word"
begin

section \<open>Prelude\<close>

text \<open>
  What every component of the development shares: the values a Python program
  raises (\<open>py_error\<close>), the result type \<open>py_error + 'a\<close> with its sequencing
  \<open>bindR\<close> and the error-aware loop \<open>foldM\<close>, slices of sequences, and the
  generic lemmas about them.  The collections \<open>slice_simps\<close> and
  \<open>result_simps\<close> carry the component proofs.
\<close>

named_theorems slice_simps \<open>slices, indexing and appending of sequences\<close>
named_theorems result_simps \<open>sequencing of results that may be errors\<close>

type_synonym byte = "8 word"

text \<open>Python's \<open>str\<close>: a sequence of Unicode code points.\<close>

type_synonym pstr = "nat list"

text \<open>A string literal.\<close>

definition u :: "string \<Rightarrow> pstr" where
  "u s = map of_char s"

lemma u_eq [simp]: "u s = u t \<longleftrightarrow> s = t"
proof -
  have "inj (of_char :: char \<Rightarrow> nat)" by (simp add: inj_on_def)
  then show ?thesis by (simp add: u_def inj_map_eq_map)
qed

lemma length_u [simp]: "length (u s) = length s"
  by (simp add: u_def)

lemma u_Nil_iff [simp]: "u s = [] \<longleftrightarrow> s = []" "[] = u s \<longleftrightarrow> s = []"
  by (auto simp: u_def)

subsection \<open>What a Python program raises\<close>

text \<open>
  One constructor per exception class the modelled scripts raise or let escape,
  with the message where the script writes it.
\<close>

datatype py_error =
    ValueError pstr          \<comment> \<open>\<open>ValueError\<close>, also raised by \<open>bytearray.append\<close>\<close>
  | StructError              \<comment> \<open>\<open>struct.error\<close>: a value or a buffer that does not fit its format\<close>
  | IndexError               \<comment> \<open>an index past a sequence\<close>
  | AttributeError           \<comment> \<open>a method of \<open>None\<close>: a regular expression that did not match\<close>
  | KeyError                 \<comment> \<open>a missing dictionary key\<close>
  | ZeroDivisionError
  | NameError                \<comment> \<open>a name with no value\<close>
  | TypeError                \<comment> \<open>an operation on \<open>None\<close>\<close>
  | UnicodeError             \<comment> \<open>a character the codec does not have\<close>
  | Invalid string           \<comment> \<open>\<open>lz4_image.Invalid\<close>\<close>
  | TraceError pstr          \<comment> \<open>\<open>TraceError\<close> of the two trace validators\<close>
  | TraceWord pstr           \<comment> \<open>\<open>TraceError(f"malformed slot word {token!r}")\<close>, with its token\<close>
  | SystemExit int           \<comment> \<open>\<open>raise SystemExit(n)\<close>\<close>

subsection \<open>Results\<close>

definition bindR :: "'e + 'a \<Rightarrow> ('a \<Rightarrow> 'e + 'b) \<Rightarrow> 'e + 'b" where
  "bindR r f = (case r of Inl e \<Rightarrow> Inl e | Inr x \<Rightarrow> f x)"

lemma bindR_simps [simp, result_simps]:
  "bindR (Inl e) f = Inl e"
  "bindR (Inr x) f = f x"
  by (simp_all add: bindR_def)

lemma bindR_Inr [result_simps]:
  "bindR r f = Inr y \<longleftrightarrow> (\<exists>x. r = Inr x \<and> f x = Inr y)"
  by (cases r) auto

lemma bindR_Inl [result_simps]:
  "bindR r f = Inl e \<longleftrightarrow> r = Inl e \<or> (\<exists>x. r = Inr x \<and> f x = Inl e)"
  by (cases r) auto

lemma bindR_InrE [elim!]:
  assumes "bindR r f = Inr y"
  obtains x where "r = Inr x" and "f x = Inr y"
  using assms by (auto simp: bindR_Inr)

lemma bindR_assoc: "bindR (bindR r f) g = bindR r (\<lambda>x. bindR (f x) g)"
  by (cases r) auto

lemma bindR_cong [fundef_cong]:
  assumes "r = r'" and "\<And>x. r' = Inr x \<Longrightarrow> f x = f' x"
  shows "bindR r f = bindR r' f'"
  using assms by (cases r') auto

text \<open>A \<open>for\<close> loop whose body may raise.\<close>

fun foldM :: "('s \<Rightarrow> 'a \<Rightarrow> 'e + 's) \<Rightarrow> 's \<Rightarrow> 'a list \<Rightarrow> 'e + 's" where
  "foldM f s [] = Inr s"
| "foldM f s (x # xs) = bindR (f s x) (\<lambda>s'. foldM f s' xs)"

lemma foldM_append:
  "foldM f s (xs @ ys) = bindR (foldM f s xs) (\<lambda>s'. foldM f s' ys)"
  by (induction xs arbitrary: s) (auto simp: bindR_assoc)

text \<open>Sequencing where a step may also not return, the value \<open>None\<close>.\<close>

definition bindO :: "('e + 'a) option \<Rightarrow> ('a \<Rightarrow> ('e + 'b) option) \<Rightarrow> ('e + 'b) option" where
  "bindO r k = (case r of None \<Rightarrow> None | Some (Inl e) \<Rightarrow> Some (Inl e) | Some (Inr x) \<Rightarrow> k x)"

lemma bindO_simps [simp]: "bindO None k = None" "bindO (Some (Inl e)) k = Some (Inl e)" "bindO (Some (Inr x)) k = k x"
  by (simp_all add: bindO_def)

lemma bindO_Inr: "bindO r k = Some (Inr y) \<longleftrightarrow> (\<exists>x. r = Some (Inr x) \<and> k x = Some (Inr y))"
  by (auto simp: bindO_def split: option.splits sum.splits)

text \<open>A list comprehension whose element may raise.\<close>

fun mapM :: "('a \<Rightarrow> 'e + 'b) \<Rightarrow> 'a list \<Rightarrow> 'e + 'b list" where
  "mapM f [] = Inr []"
| "mapM f (x # xs) = bindR (f x) (\<lambda>y. bindR (mapM f xs) (\<lambda>ys. Inr (y # ys)))"

lemma length_mapM: "mapM f xs = Inr ys \<Longrightarrow> length ys = length xs"
  by (induction xs arbitrary: ys) auto

lemma mapM_Inr: "(\<And>x. x \<in> set xs \<Longrightarrow> f x = Inr (g x)) \<Longrightarrow> mapM f xs = Inr (map g xs)"
  by (induction xs) auto

lemma mapM_Inr_iff: "mapM f xs = Inr ys \<longleftrightarrow> list_all2 (\<lambda>x y. f x = Inr y) xs ys"
  by (induction xs arbitrary: ys) (auto simp: list_all2_Cons1 bindR_Inr)

lemma mapM_Inl: "mapM f xs = Inl e \<Longrightarrow> \<exists>x\<in>set xs. f x = Inl e"
  by (induction xs) (auto simp: bindR_Inl)

text \<open>
  The interface of such a loop: a property of the state every step keeps is
  kept by the whole loop, whatever the elements.
\<close>

locale step_invariant =
  fixes step :: "'s \<Rightarrow> 'a \<Rightarrow> 'e + 's"
    and inv :: "'s \<Rightarrow> bool"
  assumes step_inv: "inv s \<Longrightarrow> step s x = Inr s' \<Longrightarrow> inv s'"
begin

lemma foldM_inv: "inv s \<Longrightarrow> foldM step s xs = Inr s' \<Longrightarrow> inv s'"
  by (induction xs arbitrary: s) (auto dest: step_inv)

end

subsection \<open>Slices\<close>

text \<open>Python's \<open>xs[i:j]\<close> for \<open>0 \<le> i\<close> and \<open>0 \<le> j\<close>: clamped, never an error.\<close>

definition pslice :: "'a list \<Rightarrow> nat \<Rightarrow> nat \<Rightarrow> 'a list" where
  "pslice xs i j = take (j - i) (drop i xs)"

lemma length_pslice [simp, slice_simps]: "length (pslice xs i j) = min (j - i) (length xs - i)"
  by (simp add: pslice_def)

lemma nth_pslice [simp, slice_simps]:
  "k < j - i \<Longrightarrow> k < length xs - i \<Longrightarrow> pslice xs i j ! k = xs ! (i + k)"
  by (simp add: pslice_def)

lemma pslice_empty [simp, slice_simps]: "pslice xs i i = []"
  by (simp add: pslice_def)

lemma pslice_all [simp, slice_simps]: "length xs \<le> j \<Longrightarrow> pslice xs 0 j = xs"
  by (simp add: pslice_def)

lemma pslice_append:
  assumes "i \<le> j" and "j \<le> k"
  shows "pslice xs i j @ pslice xs j k = pslice xs i k"
proof -
  have "take (k - i) (drop i xs) = take (j - i) (drop i xs) @ take (k - j) (drop (j - i) (drop i xs))"
    using assms by (metis add.commute le_add_diff_inverse2 diff_add_assoc take_add diff_diff_left
        le_add_diff_inverse)
  then show ?thesis using assms by (simp add: pslice_def)
qed

lemma take_append_pslice: "i \<le> j \<Longrightarrow> take i xs @ pslice xs i j = take j xs"
  using pslice_append [of 0 i j xs] by (simp add: pslice_def)

lemma pslice_mid [simp, slice_simps]:
  "length pre = i \<Longrightarrow> pslice (pre @ mid @ post) i (i + length mid) = mid"
  by (auto simp: pslice_def)

lemma pslice_within:
  assumes "length pre = i" and "n \<le> length mid"
  shows "pslice (pre @ mid) i (i + n) = take n mid"
  using assms by (auto simp: pslice_def)

end
