(* ===== verification/Bytes.thy ===== *)
theory Bytes
  imports Prelude
begin

unbundle bit_operations_syntax

section \<open>Bytes and fixed-width integers\<close>

text \<open>
  Python's \<open>bytes\<close> and \<open>bytearray\<close> as lists of 8-bit words, and the integer
  formats of the \<open>struct\<close> module the scripts use: \<open>struct.pack\<close> refuses a value
  outside its format's range, \<open>struct.unpack\<close> and \<open>unpack_from\<close> refuse a buffer
  that is too short.  The locale \<open>int_format\<close> is what a fixed-width format
  promises; it is interpreted on the little-endian formats \<open><H\<close>, \<open><I\<close>, \<open><Q\<close>
  (the LZ4 container) and the big-endian \<open>>I\<close>, \<open>>Q\<close> (the device tree).
\<close>

subsection \<open>\<open>bytearray.append\<close>\<close>

definition bytearray_append :: "byte list \<Rightarrow> int \<Rightarrow> py_error + byte list" where
  "bytearray_append out v =
     (if 0 \<le> v \<and> v < 256 then Inr (out @ [word_of_int v])
      else Inl (ValueError (u ''byte must be in range(0, 256)'')))"

lemma bytearray_append_nat:
  "n < 256 \<Longrightarrow> bytearray_append out (int n) = Inr (out @ [of_nat n])"
  by (simp add: bytearray_append_def)

lemma unat_byte: "n < 256 \<Longrightarrow> unat (of_nat n :: byte) = n"
  by (simp add: unat_of_nat)

lemma bit_nat_below: "(m::nat) < 2 ^ n \<Longrightarrow> bit m k \<Longrightarrow> k < n"
  by (metis bit_take_bit_iff take_bit_nat_eq_self)

lemma or_nat_less: "(a::nat) < 2 ^ n \<Longrightarrow> b < 2 ^ n \<Longrightarrow> a OR b < 2 ^ n"
  by (metis take_bit_nat_eq_self take_bit_or take_bit_nat_less_exp)

lemma and_15_nat: "(n::nat) AND 15 = n mod 16"
proof -
  have "n AND 15 = take_bit 4 n"
    by (simp add: take_bit_eq_mask mask_eq_exp_minus_1)
  then show ?thesis by (simp add: take_bit_eq_mod)
qed

subsection \<open>Positional encodings\<close>

fun le_bytes :: "nat \<Rightarrow> nat \<Rightarrow> byte list" where
  "le_bytes 0 n = []"
| "le_bytes (Suc w) n = of_nat (n mod 256) # le_bytes w (n div 256)"

fun le_val :: "byte list \<Rightarrow> nat" where
  "le_val [] = 0"
| "le_val (b # bs) = unat b + 256 * le_val bs"

definition be_bytes :: "nat \<Rightarrow> nat \<Rightarrow> byte list" where
  "be_bytes w n = rev (le_bytes w n)"

definition be_val :: "byte list \<Rightarrow> nat" where
  "be_val bs = le_val (rev bs)"

lemma unat_byte_mod [simp]: "unat (of_nat (n mod 256) :: byte) = n mod 256"
  by (simp add: unat_of_nat)

lemma byte_less [simp]: "unat (b :: byte) < 256"
  using unsigned_less [of b] by simp

lemma length_le_bytes [simp]: "length (le_bytes w n) = w"
  by (induction w arbitrary: n) auto

lemma le_val_le_bytes [simp]: "n < 256 ^ w \<Longrightarrow> le_val (le_bytes w n) = n"
proof (induction w arbitrary: n)
  case (Suc w)
  then have "n div 256 < 256 ^ w"
    by (simp add: less_mult_imp_div_less)
  with Suc.IH show ?case by simp
qed simp

lemma le_val_bound: "le_val bs < 256 ^ length bs"
proof (induction bs)
  case (Cons b bs)
  have "unat b + 256 * le_val bs < 256 * Suc (le_val bs)"
    using byte_less [of b] by (simp del: byte_less)
  also have "\<dots> \<le> 256 * 256 ^ length bs"
    using Cons by (simp only: Suc_leI mult_le_mono2)
  finally show ?case by simp
qed simp

lemma le_bytes_le_val: "le_bytes (length bs) (le_val bs) = bs"
proof (induction bs)
  case (Cons b bs)
  have b: "unat b < 256" by simp
  then have "(unat b + 256 * le_val bs) mod 256 = unat b"
    and "(unat b + 256 * le_val bs) div 256 = le_val bs"
    by simp_all
  with Cons show ?case by simp
qed simp

subsection \<open>What a fixed-width format promises\<close>

locale int_format =
  fixes enc :: "nat \<Rightarrow> byte list"
    and dec :: "byte list \<Rightarrow> nat"
    and width :: nat
  assumes length_enc [simp]: "length (enc n) = width"
    and dec_enc [simp]: "n < 256 ^ width \<Longrightarrow> dec (enc n) = n"
    and enc_dec: "length bs = width \<Longrightarrow> enc (dec bs) = bs"
    and dec_bound: "length bs = width \<Longrightarrow> dec bs < 256 ^ width"
begin

lemma dec_at [simp]:
  assumes "n < 256 ^ width" and "length pre = i"
  shows "dec (pslice (pre @ enc n @ post) i (i + width)) = n"
  using assms pslice_mid [of pre i "enc n" post] by simp

lemma enc_inj: "enc m = enc n \<Longrightarrow> m < 256 ^ width \<Longrightarrow> n < 256 ^ width \<Longrightarrow> m = n"
  by (metis dec_enc)

end

interpretation le: int_format "le_bytes w" le_val w for w
  by unfold_locales (auto simp: le_bytes_le_val le_val_bound)

interpretation be: int_format "be_bytes w" be_val w for w
proof
  show "length bs = w \<Longrightarrow> be_bytes w (be_val bs) = bs" for bs
    using le_bytes_le_val [of "rev bs"] by (simp add: be_bytes_def be_val_def)
  show "length bs = w \<Longrightarrow> be_val bs < 256 ^ w" for bs
    using le_val_bound [of "rev bs"] by (simp add: be_val_def)
qed (simp_all add: be_bytes_def be_val_def)

subsection \<open>\<open>struct.pack\<close> and \<open>struct.unpack_from\<close>\<close>

text \<open>One integer of \<open>w\<close> bytes: \<open>struct.pack\<close> raises outside \<open>0 .. 256 ^ w - 1\<close>.\<close>

definition pack_le :: "nat \<Rightarrow> int \<Rightarrow> py_error + byte list" where
  "pack_le w v = (if 0 \<le> v \<and> v < 256 ^ w then Inr (le_bytes w (nat v)) else Inl StructError)"

definition pack_be :: "nat \<Rightarrow> int \<Rightarrow> py_error + byte list" where
  "pack_be w v = (if 0 \<le> v \<and> v < 256 ^ w then Inr (be_bytes w (nat v)) else Inl StructError)"

text \<open>One integer of \<open>w\<close> bytes at offset \<open>at\<close>: raises when the buffer ends before it.\<close>

definition unpack_le :: "nat \<Rightarrow> byte list \<Rightarrow> nat \<Rightarrow> py_error + nat" where
  "unpack_le w buf at =
     (if at + w \<le> length buf then Inr (le_val (pslice buf at (at + w))) else Inl StructError)"

definition unpack_be :: "nat \<Rightarrow> byte list \<Rightarrow> nat \<Rightarrow> py_error + nat" where
  "unpack_be w buf at =
     (if at + w \<le> length buf then Inr (be_val (pslice buf at (at + w))) else Inl StructError)"

lemma pow256_int: "nat (256 ^ w) = 256 ^ w"
  by (simp add: nat_power_eq)

lemma pack_le_ok [simp]: "n < 256 ^ w \<Longrightarrow> pack_le w (int n) = Inr (le_bytes w n)"
proof -
  assume "n < 256 ^ w"
  then have "int n < 256 ^ w" by (metis of_nat_less_iff of_nat_numeral of_nat_power)
  then show ?thesis by (simp add: pack_le_def)
qed

lemma pack_be_ok [simp]: "n < 256 ^ w \<Longrightarrow> pack_be w (int n) = Inr (be_bytes w n)"
proof -
  assume "n < 256 ^ w"
  then have "int n < 256 ^ w" by (metis of_nat_less_iff of_nat_numeral of_nat_power)
  then show ?thesis by (simp add: pack_be_def)
qed

lemma pack_le_Inr: "pack_le w (int n) = Inr bs \<longleftrightarrow> n < 256 ^ w \<and> bs = le_bytes w n"
proof -
  have "int n < 256 ^ w \<longleftrightarrow> n < 256 ^ w"
    by (metis of_nat_less_iff of_nat_numeral of_nat_power)
  then show ?thesis by (auto simp: pack_le_def)
qed

lemma pack_be_Inr: "pack_be w (int n) = Inr bs \<longleftrightarrow> n < 256 ^ w \<and> bs = be_bytes w n"
proof -
  have "int n < 256 ^ w \<longleftrightarrow> n < 256 ^ w"
    by (metis of_nat_less_iff of_nat_numeral of_nat_power)
  then show ?thesis by (auto simp: pack_be_def)
qed

lemma unpack_le_at [simp]:
  "n < 256 ^ w \<Longrightarrow> length pre = i \<Longrightarrow> unpack_le w (pre @ le_bytes w n @ post) i = Inr n"
  by (simp add: unpack_le_def)

lemma unpack_be_at [simp]:
  "n < 256 ^ w \<Longrightarrow> length pre = i \<Longrightarrow> unpack_be w (pre @ be_bytes w n @ post) i = Inr n"
  by (simp add: unpack_be_def)

lemma unpack_le_bound: "unpack_le w buf at = Inr n \<Longrightarrow> n < 256 ^ w"
  by (auto simp: unpack_le_def intro!: le.dec_bound split: if_splits)

lemma unpack_be_bound: "unpack_be w buf at = Inr n \<Longrightarrow> n < 256 ^ w"
  by (auto simp: unpack_be_def intro!: be.dec_bound split: if_splits)

end
