(* ===== verification/Lz4.thy ===== *)
theory Lz4
  imports Bytes
begin

unbundle bit_operations_syntax

section \<open>The LZ4 block codec (scripts/lz4\_image.py)\<close>

text \<open>
  \<open>compress\<close> is the greedy encoder the provisioning image is built with and
  \<open>decompress\<close> the reference decoder that refuses what the kernel's decoder
  refuses.  Data and output buffers are byte lists; positions are natural
  numbers; the encoder's dictionary \<open>last\<close> (here \<open>table\<close>) is a map from four-byte keys to
  positions.  Between the two stands an abstract account of the format, a list
  of \<open>lz_seq\<close> (literals, offset, match length) with the text it expands to: the
  encoder is proved to write the bytes of sequences that expand to its input,
  and the decoder to expand every such byte string.
\<close>

subsection \<open>Constants\<close>

definition MIN_MATCH :: nat where "MIN_MATCH = 4"
definition LAST_LITERALS :: nat where "LAST_LITERALS = 5"
definition MATCH_FIND_LIMIT :: nat where "MATCH_FIND_LIMIT = 12"
definition MAX_OFFSET :: nat where "MAX_OFFSET = 65535"

lemmas lz4_consts = MIN_MATCH_def LAST_LITERALS_def MATCH_FIND_LIMIT_def MAX_OFFSET_def

subsection \<open>The encoder\<close>

fun length_bytes :: "nat \<Rightarrow> byte list" where
  "length_bytes n = (if 255 \<le> n then 255 # length_bytes (n - 255) else [of_nat n])"

declare length_bytes.simps [simp del]

text \<open>
  \<open>_sequence\<close> extends \<open>out\<close>.  A match shorter than \<open>MIN_MATCH\<close> (but not 0) would make the
  token negative, which \<open>bytearray.append\<close> refuses; an offset over 16 bits is
  refused by \<open>struct.pack\<close>.
\<close>

definition lz4_sequence :: "byte list \<Rightarrow> byte list \<Rightarrow> int \<Rightarrow> nat \<Rightarrow> py_error + byte list" where
  "lz4_sequence out literals offset match_length =
     (let lit_nibble = min (int (length literals)) 15;
          match_nibble = (if match_length = 0 then 0
                          else min (int match_length - int MIN_MATCH) 15)
      in bindR (bytearray_append out (push_bit 4 lit_nibble OR match_nibble)) (\<lambda>out1.
         let out2 = out1 @ (if lit_nibble = 15 then length_bytes (length literals - 15) else [])
                         @ literals
         in if match_length = 0 then Inr out2
            else bindR (pack_le 2 offset) (\<lambda>off.
              Inr (out2 @ off @ (if match_nibble = 15
                                 then length_bytes (match_length - MIN_MATCH - 15) else [])))))"

text \<open>The inner loop of \<open>compress\<close>: how far the match at \<open>ref\<close> reaches.\<close>

function match_extend :: "byte list \<Rightarrow> nat \<Rightarrow> nat \<Rightarrow> nat \<Rightarrow> nat \<Rightarrow> nat" where
  "match_extend data match_limit ip ref len =
     (if ip + len < match_limit \<and> data ! (ip + len) = data ! (ref + len)
      then match_extend data match_limit ip ref (len + 1) else len)"
  by pat_completeness auto
termination
  by (relation "measure (\<lambda>(data, match_limit, ip, ref, len). match_limit - (ip + len))") auto

declare match_extend.simps [simp del]

lemma match_extend_ge: "len \<le> match_extend data match_limit ip ref len"
proof (induction data match_limit ip ref len rule: match_extend.induct)
  case (1 data match_limit ip ref len)
  then show ?case
    by (subst match_extend.simps) (auto dest: Suc_leD)
qed

text \<open>\<open>range(start, stop, step)\<close> for a positive step.\<close>

definition py_range :: "nat \<Rightarrow> nat \<Rightarrow> nat \<Rightarrow> nat list" where
  "py_range start stop step = map (\<lambda>k. start + k * step) [0..<(stop - start + step - 1) div step]"

text \<open>The positions a match covered, indexed into the dictionary.\<close>

definition index_positions ::
  "byte list \<Rightarrow> (byte list \<rightharpoonup> nat) \<Rightarrow> nat list \<Rightarrow> (byte list \<rightharpoonup> nat)" where
  "index_positions data table ps = fold (\<lambda>p m. m(pslice data p (p + 4) \<mapsto> p)) ps table"

function compress_loop ::
  "byte list \<Rightarrow> nat \<Rightarrow> nat \<Rightarrow> (byte list \<rightharpoonup> nat) \<Rightarrow> nat \<Rightarrow> nat \<Rightarrow> byte list
     \<Rightarrow> py_error + (nat \<times> byte list)" where
  "compress_loop data find_limit match_limit table ip anchor out =
     (if ip < find_limit then
        let key = pslice data ip (ip + 4); ref = table key; table1 = table(key \<mapsto> ip)
        in (case ref of
             None \<Rightarrow> compress_loop data find_limit match_limit table1 (ip + 1) anchor out
           | Some r \<Rightarrow>
               if int ip - int r \<le> int MAX_OFFSET then
                 let len = match_extend data match_limit ip r MIN_MATCH
                 in bindR (lz4_sequence out (pslice data anchor ip) (int ip - int r) len) (\<lambda>out1.
                      compress_loop data find_limit match_limit
                        (index_positions data table1
                          (py_range (ip + 1) (min (ip + len) find_limit) (if len < 64 then 1 else 7)))
                        (ip + len) (ip + len) out1)
               else compress_loop data find_limit match_limit table1 (ip + 1) anchor out)
      else Inr (anchor, out))"
  by pat_completeness auto
termination
proof (relation "measure (\<lambda>(data, find_limit, match_limit, table, ip, anchor, out). find_limit - ip)",
    goal_cases)
  case (3 data find_limit match_limit table ip anchor out key ref table1 r len out1)
  then show ?case
    using match_extend_ge [of MIN_MATCH data match_limit ip r] by (simp add: MIN_MATCH_def)
qed auto

declare compress_loop.simps [simp del]

definition compress :: "byte list \<Rightarrow> py_error + byte list" where
  "compress data =
     (let n = length data
      in bindR (if MATCH_FIND_LIMIT < n
                then compress_loop data (n - MATCH_FIND_LIMIT) (n - LAST_LITERALS) Map.empty 0 0 []
                else Inr (0, [])) (\<lambda>(anchor, out).
         lz4_sequence out (drop anchor data) 0 0))"

subsection \<open>The decoder\<close>

function read_length_loop :: "byte list \<Rightarrow> nat \<Rightarrow> nat \<Rightarrow> py_error + nat \<times> nat" where
  "read_length_loop src ip acc =
     (if length src \<le> ip then Inl (Invalid ''length runs past the input'')
      else let value = unat (src ! ip)
           in if value \<noteq> 255 then Inr (acc + value, ip + 1)
              else read_length_loop src (ip + 1) (acc + value))"
  by pat_completeness auto
termination
  by (relation "measure (\<lambda>(src, ip, acc). length src - ip)") auto

declare read_length_loop.simps [simp del]

definition read_length :: "byte list \<Rightarrow> nat \<Rightarrow> py_error + nat \<times> nat" where
  "read_length src ip = read_length_loop src ip 0"

lemma read_length_loop_progress:
  "read_length_loop src ip acc = Inr (t, ip') \<Longrightarrow> ip < ip' \<and> ip' \<le> length src"
proof (induction src ip acc rule: read_length_loop.induct)
  case (1 src ip acc)
  show ?case
  proof (cases "length src \<le> ip \<or> unat (src ! ip) \<noteq> 255")
    case True
    with "1.prems" show ?thesis
      by (auto simp: read_length_loop.simps [of src ip acc] Let_def split: if_splits)
  next
    case False
    with "1.prems" have "read_length_loop src (ip + 1) (acc + unat (src ! ip)) = Inr (t, ip')"
      by (simp add: read_length_loop.simps [of src ip acc] Let_def)
    with "1.IH" False have "ip + 1 < ip' \<and> ip' \<le> length src" by auto
    then show ?thesis by simp
  qed
qed

lemma read_length_progress:
  "read_length src ip = Inr (t, ip') \<Longrightarrow> ip < ip' \<and> ip' \<le> length src"
  by (simp add: read_length_def read_length_loop_progress)

text \<open>\<open>for k in range(length): out.append(out[start + k])\<close>, which may read what it wrote.\<close>

fun copy_match :: "byte list \<Rightarrow> nat \<Rightarrow> nat \<Rightarrow> nat \<Rightarrow> byte list" where
  "copy_match out start k 0 = out"
| "copy_match out start k (Suc m) = copy_match (out @ [out ! (start + k)]) start (k + 1) m"

text \<open>A length field: the nibble, extended by following bytes when it is 15.\<close>

definition nibble_length :: "byte list \<Rightarrow> nat \<Rightarrow> nat \<Rightarrow> py_error + nat \<times> nat" where
  "nibble_length src nibble ip =
     (if nibble = 15 then bindR (read_length src ip) (\<lambda>(more, ip'). Inr (nibble + more, ip'))
      else Inr (nibble, ip))"

lemma nibble_length_progress:
  "nibble_length src nibble ip = Inr (n, ip') \<Longrightarrow> ip \<le> length src \<Longrightarrow> ip \<le> ip' \<and> ip' \<le> length src"
  by (auto simp: nibble_length_def dest!: read_length_progress split: if_splits)

function decompress_loop :: "byte list \<Rightarrow> nat \<Rightarrow> nat \<Rightarrow> byte list \<Rightarrow> py_error + byte list" where
  "decompress_loop src capacity ip out =
     (if ip < length src then
        let token = unat (src ! ip)
        in bindR (nibble_length src (drop_bit 4 token) (ip + 1)) (\<lambda>(literals, ip1).
           if length src - ip1 < literals \<or> capacity < length out + literals
           then Inl (Invalid ''literals past an end'')
           else
             let out1 = out @ pslice src ip1 (ip1 + literals); ip2 = ip1 + literals
             in if ip2 = length src then Inr out1
                else if length src < ip2 + 2 then Inl (Invalid ''offset past the input'')
                else
                  let offset = unat (src ! ip2) OR push_bit 8 (unat (src ! (ip2 + 1)));
                      ip3 = ip2 + 2
                  in if offset = 0 \<or> length out1 < offset
                     then Inl (Invalid ''offset outside the output'')
                     else bindR (nibble_length src (token AND 15) ip3) (\<lambda>(n, ip4).
                       let len = n + MIN_MATCH
                       in if capacity < length out1 + len
                          then Inl (Invalid ''match past the output'')
                          else decompress_loop src capacity ip4
                                 (copy_match out1 (length out1 - offset) 0 len)))
      else Inl (Invalid ''no final literals''))"
  by pat_completeness auto
termination
proof (relation "measure (\<lambda>(src, capacity, ip, out). length src - ip)", goal_cases)
  case (2 src capacity ip out token lp literals ip1 out1 ip2 offset ip3 mp n ip4 len)
  have "ip + 1 \<le> ip1 \<and> ip1 \<le> length src"
    using 2 by (auto dest!: nibble_length_progress)
  moreover have "ip3 \<le> ip4 \<and> ip4 \<le> length src"
    using 2 by (auto dest!: nibble_length_progress)
  ultimately show ?case using 2 by auto
qed auto

declare decompress_loop.simps [simp del]

definition decompress :: "byte list \<Rightarrow> nat \<Rightarrow> py_error + byte list" where
  "decompress src capacity = (if src = [] then Inr [] else decompress_loop src capacity 0 [])"

subsection \<open>The format: sequences and what they expand to\<close>

text \<open>
  A block is a list of sequences, each literals followed by a match, and final
  literals.  \<open>expand\<close> is the text such a list stands for, after \<open>out\<close>;
  \<open>valid_seqs\<close> says every match reaches back inside the text so far.
\<close>

datatype lz_seq = LzSeq (lits: "byte list") (off: nat) (mlen: nat)

definition ext_bytes :: "nat \<Rightarrow> byte list" where
  "ext_bytes n = (if 15 \<le> n then length_bytes (n - 15) else [])"

definition token_byte :: "nat \<Rightarrow> nat \<Rightarrow> byte" where
  "token_byte l m = of_nat (16 * min l 15 + min m 15)"

fun seq_bytes :: "lz_seq \<Rightarrow> byte list" where
  "seq_bytes (LzSeq ls o' m) =
     token_byte (length ls) (m - MIN_MATCH) # ext_bytes (length ls) @ ls @ le_bytes 2 o'
       @ ext_bytes (m - MIN_MATCH)"

text \<open>The last token's match nibble \<open>m\<close> is never read; the encoder writes 0 there.\<close>

definition final_bytes :: "nat \<Rightarrow> byte list \<Rightarrow> byte list" where
  "final_bytes m ls = token_byte (length ls) m # ext_bytes (length ls) @ ls"

fun expand1 :: "byte list \<Rightarrow> lz_seq \<Rightarrow> byte list" where
  "expand1 out (LzSeq ls o' m) = copy_match (out @ ls) (length (out @ ls) - o') 0 m"

fun expand :: "byte list \<Rightarrow> lz_seq list \<Rightarrow> byte list" where
  "expand out [] = out"
| "expand out (s # ss) = expand (expand1 out s) ss"

fun valid_seq :: "byte list \<Rightarrow> lz_seq \<Rightarrow> bool" where
  "valid_seq out (LzSeq ls o' m) \<longleftrightarrow>
     0 < o' \<and> o' \<le> length out + length ls \<and> o' \<le> MAX_OFFSET \<and> MIN_MATCH \<le> m"

fun valid_seqs :: "byte list \<Rightarrow> lz_seq list \<Rightarrow> bool" where
  "valid_seqs out [] = True"
| "valid_seqs out (s # ss) \<longleftrightarrow> valid_seq out s \<and> valid_seqs (expand1 out s) ss"

lemma length_copy_match [simp]: "length (copy_match out start k m) = length out + m"
  by (induction out start k m rule: copy_match.induct) auto

lemma length_expand1 [simp]: "length (expand1 out (LzSeq ls o' m)) = length out + length ls + m"
  by simp

lemma length_expand: "length (expand out ss) = length out + (\<Sum>s\<leftarrow>ss. length (lits s) + mlen s)"
proof (induction ss arbitrary: out)
  case (Cons s ss)
  then show ?case by (cases s) simp
qed simp

subsection \<open>Tokens\<close>

lemma token_byte_unat: "unat (token_byte l m) = 16 * min l 15 + min m 15"
proof -
  have "16 * min l 15 + min m 15 < 256" by simp
  then show ?thesis unfolding token_byte_def by (rule unat_byte)
qed

lemma token_high [simp]: "drop_bit 4 (unat (token_byte l m)) = min l 15"
  by (simp add: token_byte_unat drop_bit_eq_div)

lemma token_low [simp]: "unat (token_byte l m) AND 15 = min m 15"
  by (simp add: token_byte_unat and_15_nat)

lemma nibbles_or:
  assumes "0 \<le> l" and "l \<le> 15" and "0 \<le> m" and "m \<le> (15::int)"
  shows "push_bit 4 l OR m = 16 * l + m"
proof -
  have "push_bit 4 l AND m = 0"
  proof (rule bit_eqI)
    fix n
    have "bit m n \<Longrightarrow> n < 4"
    proof -
      assume b: "bit m n"
      have "m = take_bit 4 m" using assms by (simp add: take_bit_eq_mod)
      with b show "n < 4" by (metis bit_take_bit_iff)
    qed
    then show "bit (push_bit 4 l AND m) n \<longleftrightarrow> bit 0 n"
      by (auto simp: bit_and_iff bit_push_bit_iff)
  qed
  then show ?thesis by (simp add: disjunctive_add_eq_or [symmetric] push_bit_eq_mult)
qed

subsection \<open>The encoder writes sequences\<close>

lemma append_token:
  assumes "m = 0 \<longrightarrow> m' = 0" and "m \<noteq> 0 \<longrightarrow> int m - int MIN_MATCH = int m'"
  shows "bytearray_append out (push_bit 4 (min (int l) 15) OR
           (if m = 0 then 0 else min (int m - int MIN_MATCH) 15))
       = Inr (out @ [token_byte l m'])"
proof -
  have "push_bit 4 (min (int l) 15) OR (if m = 0 then 0 else min (int m - int MIN_MATCH) 15)
      = push_bit 4 (min (int l) 15) OR min (int m') 15"
    using assms by auto
  also have "\<dots> = 16 * min (int l) 15 + min (int m') 15"
    by (rule nibbles_or) auto
  also have "\<dots> = int (16 * min l 15 + min m' 15)"
    by (simp add: of_nat_min)
  finally have tok: "push_bit 4 (min (int l) 15) OR
      (if m = 0 then 0 else min (int m - int MIN_MATCH) 15) = int (16 * min l 15 + min m' 15)" .
  show ?thesis
    unfolding tok token_byte_def by (rule bytearray_append_nat) auto
qed

lemma lz4_sequence_match:
  assumes "MIN_MATCH \<le> m" and "o' \<le> MAX_OFFSET"
  shows "lz4_sequence out ls (int o') m = Inr (out @ seq_bytes (LzSeq ls o' m))"
proof -
  have tok: "bytearray_append out (push_bit 4 (min (int (length ls)) 15) OR
      (if m = 0 then 0 else min (int m - int MIN_MATCH) 15))
      = Inr (out @ [token_byte (length ls) (m - MIN_MATCH)])"
    by (rule append_token) (use assms(1) in \<open>auto simp: MIN_MATCH_def\<close>)
  have "pack_le 2 (int o') = Inr (le_bytes 2 o')"
    using assms(2) by (intro pack_le_ok) (simp add: MAX_OFFSET_def)
  then show ?thesis
    using assms(1) unfolding lz4_sequence_def Let_def tok bindR_simps
    by (auto simp: ext_bytes_def MIN_MATCH_def)
qed

lemma lz4_sequence_final: "lz4_sequence out ls off0 0 = Inr (out @ final_bytes 0 ls)"
proof -
  have tok: "bytearray_append out (push_bit 4 (min (int (length ls)) 15) OR
      (if (0::nat) = 0 then 0 else min (int 0 - int MIN_MATCH) 15))
      = Inr (out @ [token_byte (length ls) 0])"
    by (rule append_token) auto
  show ?thesis
    unfolding lz4_sequence_def Let_def tok bindR_simps
    by (auto simp: ext_bytes_def final_bytes_def)
qed

subsection \<open>The decoder expands sequences\<close>

lemma length_bytes_read:
  "read_length_loop (pre @ length_bytes n @ post) (length pre) acc
     = Inr (acc + n, length pre + length (length_bytes n))"
proof (induction n arbitrary: pre acc rule: length_bytes.induct)
  case (1 n)
  show ?case
  proof (cases "255 \<le> n")
    case True
    with "1.IH" [of "pre @ [255]" "acc + 255"] show ?thesis
      by (subst read_length_loop.simps) (simp add: length_bytes.simps [of n] nth_append)
  next
    case False
    then have "unat (of_nat n :: byte) = n" by (simp add: unat_byte)
    with False show ?thesis
      by (subst read_length_loop.simps) (simp add: length_bytes.simps [of n] nth_append)
  qed
qed

lemma nibble_length_ext:
  "nibble_length (pre @ ext_bytes n @ post) (min n 15) (length pre)
     = Inr (n, length pre + length (ext_bytes n))"
proof (cases "15 \<le> n")
  case True
  then show ?thesis
    by (simp add: nibble_length_def ext_bytes_def read_length_def length_bytes_read)
next
  case False
  then show ?thesis by (simp add: nibble_length_def ext_bytes_def)
qed

lemma nibble_length_ext_at:
  assumes "src = pre @ ext_bytes n @ post" and "i = length pre"
  shows "nibble_length src (min n 15) i = Inr (n, i + length (ext_bytes n))"
  using assms nibble_length_ext by simp

lemma le2_read:
  assumes "n < 65536"
  shows "unat (le_bytes 2 n ! 0) OR push_bit 8 (unat (le_bytes 2 n ! 1)) = n"
proof -
  have hi: "n div 256 mod 256 = n div 256" using assms by simp
  have "n mod 256 OR push_bit 8 (n div 256) = take_bit 8 n OR push_bit 8 (drop_bit 8 n)"
    by (simp add: take_bit_eq_mod drop_bit_eq_div)
  also have "\<dots> = n"
  proof (rule bit_eqI)
    fix k
    show "bit (take_bit 8 n OR push_bit 8 (drop_bit 8 n)) k \<longleftrightarrow> bit n k"
      by (cases "k < 8") (auto simp: bit_simps)
  qed
  finally show ?thesis
    using hi unat_byte [of "n div 256"] assms by (simp add: numeral_2_eq_2)
qed

lemma decompress_seq:
  assumes src: "src = pre @ seq_bytes s @ post" and ip: "ip = length pre"
    and ok: "valid_seq out s" and cap: "length (expand1 out s) \<le> capacity"
  shows "decompress_loop src capacity ip out
           = decompress_loop src capacity (ip + length (seq_bytes s)) (expand1 out s)"
proof -
  obtain ls o' m where s: "s = LzSeq ls o' m" by (cases s)
  let ?t = "token_byte (length ls) (m - MIN_MATCH)"
  let ?el = "ext_bytes (length ls)" and ?em = "ext_bytes (m - MIN_MATCH)"
  let ?ip1 = "ip + 1 + length ?el"
  let ?ip2 = "?ip1 + length ls"
  have src': "src = pre @ [?t] @ ?el @ ls @ le_bytes 2 o' @ ?em @ post"
    using src s by simp
  have t: "src ! ip = ?t" "ip < length src" using src' ip by (simp_all add: nth_append)
  have n1: "nibble_length src (min (length ls) 15) (ip + 1) = Inr (length ls, ?ip1)"
    by (rule nibble_length_ext_at [of src "pre @ [?t]" _ "ls @ le_bytes 2 o' @ ?em @ post"])
      (use src' ip in auto)
  have n2: "nibble_length src (min (m - MIN_MATCH) 15) (?ip2 + 2)
      = Inr (m - MIN_MATCH, ?ip2 + 2 + length ?em)"
    by (rule nibble_length_ext_at [of src "pre @ [?t] @ ?el @ ls @ le_bytes 2 o'" _ post])
      (use src' ip in auto)
  have sl: "pslice src ?ip1 (?ip1 + length ls) = ls"
    using src' ip pslice_mid [of "pre @ [?t] @ ?el" ?ip1 ls "le_bytes 2 o' @ ?em @ post"] by simp
  have o1: "src ! ?ip2 = le_bytes 2 o' ! 0" and o2: "src ! (?ip2 + 1) = le_bytes 2 o' ! 1"
    using src' ip by (simp_all add: nth_append)
  have off': "unat (src ! ?ip2) OR push_bit 8 (unat (src ! (?ip2 + 1))) = o'"
    unfolding o1 o2 using ok s by (intro le2_read) (simp add: MAX_OFFSET_def)
  have len: "?ip2 + 2 \<le> length src" "length ls \<le> length src - ?ip1"
    using src' ip by simp_all
  have m: "m - MIN_MATCH + MIN_MATCH = m" using ok s by simp
  have seqlen: "ip + length (seq_bytes s) = ?ip2 + 2 + length ?em" using s by simp
  show ?thesis
    using t n1 n2 sl off' len m ok cap s
    by (subst decompress_loop.simps) (simp add: Let_def seqlen add.assoc)
qed

lemma decompress_final:
  assumes src: "src = pre @ final_bytes m ls" and ip: "ip = length pre"
    and cap: "length out + length ls \<le> capacity"
  shows "decompress_loop src capacity ip out = Inr (out @ ls)"
proof -
  let ?t = "token_byte (length ls) m" and ?el = "ext_bytes (length ls)"
  let ?ip1 = "ip + 1 + length ?el"
  have src': "src = pre @ [?t] @ ?el @ ls" using src by (simp add: final_bytes_def)
  have t: "src ! ip = ?t" "ip < length src" using src' ip by (simp_all add: nth_append)
  have n1: "nibble_length src (min (length ls) 15) (ip + 1) = Inr (length ls, ?ip1)"
    by (rule nibble_length_ext_at [of src "pre @ [?t]" _ ls]) (use src' ip in auto)
  have sl: "pslice src ?ip1 (?ip1 + length ls) = ls"
    using src' ip pslice_mid [of "pre @ [?t] @ ?el" ?ip1 ls "[]"] by simp
  have len: "?ip1 + length ls = length src" using src' ip by simp
  then have "\<not> length src - ?ip1 < length ls" by simp
  then show ?thesis
    using t n1 sl len cap by (subst decompress_loop.simps) (simp add: Let_def)
qed

lemma decompress_seqs:
  assumes "valid_seqs out ss" and "length (expand out ss) + length ls \<le> capacity"
  shows "decompress_loop (pre @ concat (map seq_bytes ss) @ final_bytes m ls) capacity (length pre) out
           = Inr (expand out ss @ ls)"
  using assms
proof (induction ss arbitrary: pre out)
  case Nil
  then show ?case by (simp add: decompress_final)
next
  case (Cons s ss)
  let ?src = "pre @ seq_bytes s @ concat (map seq_bytes ss) @ final_bytes m ls"
  have "length (expand1 out s) \<le> capacity"
    using Cons.prems(2) by (simp add: length_expand)
  then have "decompress_loop ?src capacity (length pre) out
      = decompress_loop ?src capacity (length pre + length (seq_bytes s)) (expand1 out s)"
    using Cons.prems(1) by (intro decompress_seq) auto
  also have "\<dots> = Inr (expand (expand1 out s) ss @ ls)"
    using Cons.IH [of "expand1 out s" "pre @ seq_bytes s"] Cons.prems by simp
  finally show ?case by simp
qed

subsection \<open>The encoder's sequences expand to its input\<close>

text \<open>What the dictionary holds before position \<open>ip\<close> is looked up.\<close>

definition table_ok :: "byte list \<Rightarrow> nat \<Rightarrow> (byte list \<rightharpoonup> nat) \<Rightarrow> bool" where
  "table_ok data ip table \<longleftrightarrow>
     (\<forall>k p. table k = Some p \<longrightarrow> p < ip \<and> p + 4 \<le> length data \<and> pslice data p (p + 4) = k)"

lemma table_ok_upd:
  "table_ok data ip table \<Longrightarrow> p < ip' \<Longrightarrow> ip \<le> ip' \<Longrightarrow> p + 4 \<le> length data
     \<Longrightarrow> table_ok data ip' (table(pslice data p (p + 4) \<mapsto> p))"
  unfolding table_ok_def by (auto, fastforce)

lemma table_ok_index:
  assumes "table_ok data ip table" and "ip \<le> ip'" and "\<forall>p\<in>set ps. p < ip' \<and> p + 4 \<le> length data"
  shows "table_ok data ip' (index_positions data table ps)"
proof -
  have "table_ok data ip' table" using assms(1,2) unfolding table_ok_def by fastforce
  then show ?thesis
    using assms(3) unfolding index_positions_def
    by (induction ps arbitrary: table) (auto intro!: table_ok_upd)
qed

lemma py_range_bounds: "p \<in> set (py_range start stop step) \<Longrightarrow> 0 < step \<Longrightarrow> start \<le> p \<and> p < stop"
proof -
  assume "p \<in> set (py_range start stop step)" and step: "0 < step"
  then obtain k where p: "p = start + k * step" and k: "k < (stop - start + step - 1) div step"
    by (auto simp: py_range_def)
  from k step have "Suc k * step \<le> stop - start + step - 1"
    by (metis Suc_leI less_eq_div_iff_mult_less_eq)
  with p step show ?thesis by auto
qed

definition matches :: "byte list \<Rightarrow> nat \<Rightarrow> nat \<Rightarrow> nat \<Rightarrow> bool" where
  "matches data ip r len \<longleftrightarrow> ip + len \<le> length data \<and> (\<forall>j<len. data ! (ip + j) = data ! (r + j))"

lemma match_extend_matches:
  assumes "matches data ip r len" and "match_limit \<le> length data"
  shows "matches data ip r (match_extend data match_limit ip r len)"
  using assms
proof (induction data match_limit ip r len rule: match_extend.induct)
  case (1 data match_limit ip r len)
  show ?case
  proof (cases "ip + len < match_limit \<and> data ! (ip + len) = data ! (r + len)")
    case True
    with "1.prems" have "matches data ip r (len + 1)"
      by (auto simp: matches_def less_Suc_eq)
    with "1.IH" True "1.prems"(2) show ?thesis by (subst match_extend.simps) simp
  next
    case False
    with "1.prems" show ?thesis by (subst match_extend.simps) auto
  qed
qed

lemma matches_key:
  assumes "pslice data r (r + 4) = pslice data ip (ip + 4)" and "r + 4 \<le> length data"
    and "ip + 4 \<le> length data"
  shows "matches data ip r MIN_MATCH"
proof -
  have "data ! (ip + j) = data ! (r + j)" if "j < 4" for j
    using arg_cong [OF assms(1), of "\<lambda>xs. xs ! j"] assms(2,3) that by simp
  with assms(3) show ?thesis by (simp add: matches_def MIN_MATCH_def)
qed

lemma copy_match_take:
  assumes "matches data ip r len" and "r < ip" and "k + m \<le> len"
  shows "copy_match (take (ip + k) data) r k m = take (ip + k + m) data"
  using assms(3)
proof (induction m arbitrary: k)
  case (Suc m)
  then have k: "k < len" by simp
  with assms(1) have b: "ip + k < length data" and eq: "data ! (ip + k) = data ! (r + k)"
    by (auto simp: matches_def)
  have "take (ip + k) data @ [take (ip + k) data ! (r + k)] = take (ip + (k + 1)) data"
    using assms(2) b eq by (simp add: take_Suc_conv_app_nth)
  with Suc.IH [of "k + 1"] Suc.prems show ?case by simp
qed simp

text \<open>One match found: the sequence it writes is valid and expands to the data covered.\<close>

lemma expand1_match:
  assumes "matches data ip r len" and "r < ip" and "anchor \<le> ip" and "ip \<le> length data"
  shows "expand1 (take anchor data) (LzSeq (pslice data anchor ip) (ip - r) len) = take (ip + len) data"
proof -
  have "take anchor data @ pslice data anchor ip = take ip data"
    using assms(3) by (rule take_append_pslice)
  then show ?thesis
    using copy_match_take [OF assms(1,2), of 0 len] assms by simp
qed

lemma compress_loop_seqs:
  assumes "table_ok data ip table" and "anchor \<le> ip" and "ip \<le> length data"
    and "find_limit + MATCH_FIND_LIMIT \<le> length data" and "match_limit \<le> length data"
  shows "\<exists>ss anchor'. compress_loop data find_limit match_limit table ip anchor out
             = Inr (anchor', out @ concat (map seq_bytes ss))
           \<and> valid_seqs (take anchor data) ss
           \<and> expand (take anchor data) ss = take anchor' data \<and> anchor' \<le> length data"
  using assms
proof (induction data find_limit match_limit table ip anchor out rule: compress_loop.induct)
  case (1 data find_limit match_limit table ip anchor out)
  let ?key = "pslice data ip (ip + 4)"
  let ?table1 = "table(?key \<mapsto> ip)"
  show ?case
  proof (cases "ip < find_limit")
    case False
    then show ?thesis
      using "1.prems" by (intro exI [of _ "[]"]) (simp add: compress_loop.simps)
  next
    case True
    have ip4: "ip + 4 \<le> length data" using True "1.prems"(4) by (simp add: MATCH_FIND_LIMIT_def)
    have ok1: "table_ok data (ip + 1) ?table1"
      using "1.prems"(1) ip4 by (intro table_ok_upd) auto
    show ?thesis
    proof (cases "table ?key")
      case None
      with True have eq: "compress_loop data find_limit match_limit table ip anchor out
          = compress_loop data find_limit match_limit ?table1 (ip + 1) anchor out"
        by (subst compress_loop.simps) (simp add: Let_def)
      show ?thesis
        unfolding eq using "1.IH"(1) [OF True refl refl refl None] ok1 "1.prems" ip4
        by (simp add: fun_upd_def)
    next
      case (Some r)
      with "1.prems"(1) have r: "r < ip" "r + 4 \<le> length data" "pslice data r (r + 4) = ?key"
        by (auto simp: table_ok_def)
      show ?thesis
      proof (cases "int ip - int r \<le> int MAX_OFFSET")
        case False
        with True Some have eq: "compress_loop data find_limit match_limit table ip anchor out
            = compress_loop data find_limit match_limit ?table1 (ip + 1) anchor out"
          by (subst compress_loop.simps) (simp add: Let_def)
        show ?thesis
          unfolding eq using "1.IH"(3) [OF True refl refl refl Some False] ok1 "1.prems" ip4
          by (simp add: fun_upd_def)
      next
        case near: True
        let ?len = "match_extend data match_limit ip r MIN_MATCH"
        let ?s = "LzSeq (pslice data anchor ip) (ip - r) ?len"
        let ?table2 = "index_positions data ?table1
          (py_range (ip + 1) (min (ip + ?len) find_limit) (if ?len < 64 then 1 else 7))"
        have m: "matches data ip r ?len"
          using match_extend_matches [OF matches_key [OF r(3) r(2) ip4] "1.prems"(5)] .
        have len4: "MIN_MATCH \<le> ?len" by (rule match_extend_ge)
        have seq: "lz4_sequence out (pslice data anchor ip) (int ip - int r) ?len
            = Inr (out @ seq_bytes ?s)"
          using lz4_sequence_match [OF len4, of "ip - r"] near r(1) by (simp add: of_nat_diff)
        have eq: "compress_loop data find_limit match_limit table ip anchor out
            = compress_loop data find_limit match_limit ?table2 (ip + ?len) (ip + ?len)
                (out @ seq_bytes ?s)"
          using True Some near seq by (subst compress_loop.simps) (simp add: Let_def)
        have iplen: "ip + ?len \<le> length data" using m by (simp add: matches_def)
        have ok2: "table_ok data (ip + ?len) ?table2"
          using ok1 len4 "1.prems"(4)
          by (intro table_ok_index) (auto simp: lz4_consts dest!: py_range_bounds split: if_splits)
        obtain ss anchor' where IH:
          "compress_loop data find_limit match_limit ?table2 (ip + ?len) (ip + ?len)
             (out @ seq_bytes ?s) = Inr (anchor', (out @ seq_bytes ?s) @ concat (map seq_bytes ss))"
          "valid_seqs (take (ip + ?len) data) ss"
          "expand (take (ip + ?len) data) ss = take anchor' data" "anchor' \<le> length data"
          using "1.IH"(2) [OF True refl refl refl Some near refl seq] ok2 iplen "1.prems" by auto
        have ex: "expand1 (take anchor data) ?s = take (ip + ?len) data"
          using m r(1) "1.prems"(2,3) by (rule expand1_match)
        have "valid_seq (take anchor data) ?s"
          using r(1) near len4 "1.prems"(2,3) by (auto simp: of_nat_diff)
        with IH ex show ?thesis
          unfolding eq by (intro exI [of _ "?s # ss"] exI [of _ anchor']) simp
      qed
    qed
  qed
qed

lemma compress_seqs:
  "\<exists>ss ls. compress data = Inr (concat (map seq_bytes ss) @ final_bytes 0 ls)
         \<and> valid_seqs [] ss \<and> expand [] ss @ ls = data"
proof (cases "MATCH_FIND_LIMIT < length data")
  case True
  then obtain ss anchor' where
    "compress_loop data (length data - MATCH_FIND_LIMIT) (length data - LAST_LITERALS) Map.empty 0 0 []
       = Inr (anchor', concat (map seq_bytes ss))"
    "valid_seqs [] ss" "expand [] ss = take anchor' data"
    using compress_loop_seqs [of data 0 Map.empty 0 "length data - MATCH_FIND_LIMIT"
        "length data - LAST_LITERALS" "[]"] by (auto simp: table_ok_def)
  with True show ?thesis
    by (intro exI [of _ ss] exI [of _ "drop anchor' data"])
      (simp add: compress_def Let_def lz4_sequence_final)
next
  case False
  then show ?thesis
    by (intro exI [of _ "[]"] exI [of _ data]) (simp add: compress_def lz4_sequence_final)
qed

subsection \<open>The decoder accepts exactly the format\<close>

lemma byte_of_unat: "unat b = n \<Longrightarrow> b = (of_nat n :: byte)"
  by auto

lemma read_length_loop_inv:
  "read_length_loop src ip acc = Inr (t, ip') \<Longrightarrow>
     acc \<le> t \<and> pslice src ip ip' = length_bytes (t - acc)"
proof (induction src ip acc rule: read_length_loop.induct)
  case (1 src ip acc)
  let ?v = "unat (src ! ip)"
  from "1.prems" have ip: "ip < length src"
    by (auto simp: read_length_loop.simps [of src ip acc] split: if_splits)
  then have sl: "pslice src ip (Suc ip) = [src ! ip]"
    by (simp add: pslice_def take_Suc_conv_app_nth Cons_nth_drop_Suc [symmetric])
  show ?case
  proof (cases "?v = 255")
    case True
    then have rec: "read_length_loop src (ip + 1) (acc + ?v) = Inr (t, ip')"
      using "1.prems" ip by (simp add: read_length_loop.simps [of src ip acc] Let_def)
    have IH: "acc + ?v \<le> t \<and> pslice src (ip + 1) ip' = length_bytes (t - (acc + ?v))"
      using "1.IH" [OF _ refl _ rec] True ip by simp
    have "Suc ip \<le> ip'" using read_length_loop_progress [OF rec] by simp
    then have "pslice src ip ip' = (src ! ip) # pslice src (ip + 1) ip'"
      using pslice_append [of ip "Suc ip" ip' src] sl by simp
    moreover have "src ! ip = 255" using byte_of_unat [OF True] by simp
    moreover have "acc + 255 \<le> t" using IH True by simp
    then have "255 \<le> t - acc" by linarith
    ultimately show ?thesis
      using IH True by (simp add: length_bytes.simps [of "t - acc"])
  next
    case False
    then have "t = acc + ?v" and "ip' = Suc ip"
      using "1.prems" ip by (simp_all add: read_length_loop.simps [of src ip acc] Let_def)
    moreover have "?v < 255" using False byte_less [of "src ! ip"] by linarith
    ultimately show ?thesis
      using sl by (simp add: length_bytes.simps [of ?v])
  qed
qed

lemma nibble_length_inv:
  assumes "nibble_length src nb ip = Inr (n, ip')" and "nb \<le> 15" and "ip \<le> length src"
  shows "nb = min n 15 \<and> pslice src ip ip' = ext_bytes n"
proof (cases "nb = 15")
  case True
  with assms(1) obtain more where "read_length_loop src ip 0 = Inr (more, ip')" "n = 15 + more"
    by (auto simp: nibble_length_def read_length_def)
  with True show ?thesis by (auto simp: ext_bytes_def dest!: read_length_loop_inv)
next
  case False
  with assms show ?thesis by (auto simp: nibble_length_def ext_bytes_def)
qed

lemma token_byte_split: "token_byte (drop_bit 4 (unat t)) (unat t AND 15) = t"
proof -
  have "unat t div 16 < 16" by (rule less_mult_imp_div_less) simp
  moreover have "unat t mod 16 < 16" by simp
  ultimately have "16 * min (unat t div 16) 15 + min (unat t mod 16) 15 = unat t"
    by (simp add: min_absorb1)
  then show ?thesis
    unfolding and_15_nat token_byte_def drop_bit_eq_div by simp
qed

lemma nibble_length_drop:
  assumes "nibble_length src nb ip = Inr (n, ip')" and "nb \<le> 15" and "ip \<le> length src"
  shows "nb = min n 15 \<and> drop ip src = ext_bytes n @ drop ip' src \<and> ip \<le> ip' \<and> ip' \<le> length src"
proof -
  note inv = nibble_length_inv [OF assms] and prog = nibble_length_progress [OF assms(1,3)]
  have "drop ip src = pslice src ip ip' @ drop ip' src"
    using prog by (metis append_take_drop_id drop_drop le_add_diff_inverse2 pslice_def)
  with inv prog show ?thesis by simp
qed

lemma drop_Cons_nth: "i < length xs \<Longrightarrow> drop i xs = xs ! i # drop (i + 1) xs"
  by (simp add: Cons_nth_drop_Suc)

lemma nibble_bounds: "drop_bit 4 (unat (t :: byte)) \<le> 15" "unat t AND 15 \<le> 15"
proof -
  have "unat t div 16 < 16" by (rule less_mult_imp_div_less) simp
  then show "drop_bit 4 (unat t) \<le> 15" by (simp add: drop_bit_eq_div)
  have "unat t mod 16 < 16" by simp
  then show "unat t AND 15 \<le> 15" unfolding and_15_nat by linarith
qed

lemma le2_of_bytes: "le_bytes 2 (unat a OR push_bit 8 (unat b)) = [a, b :: byte]"
proof -
  have "push_bit 8 (unat b) AND unat a = 0"
  proof (rule bit_eqI)
    fix n
    have "bit (unat a) n \<Longrightarrow> n < 8"
      by (rule bit_nat_below [of "unat a"]) auto
    then show "bit (push_bit 8 (unat b) AND unat a) n \<longleftrightarrow> bit 0 n"
      by (auto simp: bit_simps)
  qed
  then have "unat a OR push_bit 8 (unat b) = unat a + 256 * unat b"
    by (simp add: disjunctive_add_eq_or [symmetric] push_bit_eq_mult or.commute and.commute)
  then show ?thesis
    using le_bytes_le_val [of "[a, b]"] by (simp add: numeral_2_eq_2)
qed

text \<open>One successful round of the decoder, its guards spelt out.\<close>

lemma decompress_loop_literals:
  assumes "decompress_loop src capacity ip out = Inr res"
  obtains l ip1 where "ip < length src"
    and "nibble_length src (drop_bit 4 (unat (src ! ip))) (ip + 1) = Inr (l, ip1)"
    and "l \<le> length src - ip1" and "length out + l \<le> capacity"
    and "ip1 + l = length src \<longrightarrow> res = out @ pslice src ip1 (ip1 + l)"
proof -
  note unf = decompress_loop.simps [of src capacity ip out]
  have ip: "ip < length src" using assms unf by (auto split: if_splits)
  show thesis
  proof (cases "nibble_length src (drop_bit 4 (unat (src ! ip))) (ip + 1)")
    case (Inl e)
    with assms ip unf show thesis by (simp add: Let_def)
  next
    case (Inr r)
    obtain l ip1 where r: "r = (l, ip1)" by (cases r)
    have fits: "\<not> (length src - ip1 < l \<or> capacity < length out + l)"
      using assms ip unf Inr r by (auto simp: Let_def)
    have "ip1 + l = length src \<longrightarrow> res = out @ pslice src ip1 (ip1 + l)"
      using ip Inr r fits assms unf by (auto simp: Let_def)
    with that [of l ip1] ip Inr r fits show thesis by simp
  qed
qed

lemma decompress_loop_match:
  assumes "decompress_loop src capacity ip out = Inr res" and "ip < length src"
    and "nibble_length src (drop_bit 4 (unat (src ! ip))) (ip + 1) = Inr (l, ip1)"
    and "l \<le> length src - ip1" and "length out + l \<le> capacity" and "ip1 + l \<noteq> length src"
    and out1: "out1 = out @ pslice src ip1 (ip1 + l)"
    and o': "o' = unat (src ! (ip1 + l)) OR push_bit 8 (unat (src ! (ip1 + l + 1)))"
  obtains n ip4 where "ip1 + l + 2 \<le> length src" and "o' \<noteq> 0" and "o' \<le> length out1"
    and "nibble_length src (unat (src ! ip) AND 15) (ip1 + l + 2) = Inr (n, ip4)"
    and "decompress_loop src capacity ip4
           (copy_match out1 (length out1 - o') 0 (n + MIN_MATCH)) = Inr res"
proof -
  note unf = decompress_loop.simps [of src capacity ip out]
  have fits: "\<not> (length src - ip1 < l \<or> capacity < length out + l)" using assms by auto
  have two: "\<not> length src < ip1 + l + 2"
    using assms fits unf by (auto simp: Let_def)
  have o1: "\<not> (o' = 0 \<or> length out1 < o')"
  proof
    assume "o' = 0 \<or> length out1 < o'"
    then have "decompress_loop src capacity ip out = Inl (Invalid ''offset outside the output'')"
      unfolding unf using assms(2-6) two fits out1 o' by (simp add: Let_def)
    with assms(1) show False by simp
  qed
  show thesis
  proof (cases "nibble_length src (unat (src ! ip) AND 15) (ip1 + l + 2)")
    case (Inl e)
    then have "decompress_loop src capacity ip out = Inl e"
      unfolding unf using assms(2-6) two fits o1 out1 o' by (simp add: Let_def)
    with assms(1) show thesis by simp
  next
    case (Inr r)
    obtain n ip4 where r: "r = (n, ip4)" by (cases r)
    have "decompress_loop src capacity ip out =
        (if capacity < length out1 + (n + MIN_MATCH) then Inl (Invalid ''match past the output'')
         else decompress_loop src capacity ip4
           (copy_match out1 (length out1 - o') 0 (n + MIN_MATCH)))"
      unfolding unf using assms(2-6) two fits o1 out1 o' Inr r by (simp add: Let_def)
    with assms(1) have "decompress_loop src capacity ip4
        (copy_match out1 (length out1 - o') 0 (n + MIN_MATCH)) = Inr res"
      by (simp split: if_splits)
    with that [of n ip4] two o1 Inr r show thesis by simp
  qed
qed
lemma decompress_loop_cases:
  assumes "decompress_loop src capacity ip out = Inr res"
  obtains (final) ls m where "drop ip src = final_bytes m ls" "m \<le> 15" "res = out @ ls"
      "length res \<le> capacity"
  | (seq) s ip' where "ip < ip'" "ip' \<le> length src" "drop ip src = seq_bytes s @ drop ip' src"
      "valid_seq out s" "decompress_loop src capacity ip' (expand1 out s) = Inr res"
proof -
  let ?t = "src ! ip"
  obtain l ip1 where ip: "ip < length src"
    and n1: "nibble_length src (drop_bit 4 (unat ?t)) (ip + 1) = Inr (l, ip1)"
    and fits: "l \<le> length src - ip1" "length out + l \<le> capacity"
    and fin: "ip1 + l = length src \<longrightarrow> res = out @ pslice src ip1 (ip1 + l)"
    using assms by (rule decompress_loop_literals)
  have d0: "drop ip src = ?t # drop (ip + 1) src" using ip by (rule drop_Cons_nth)
  have d1: "drop_bit 4 (unat ?t) = min l 15" "drop (ip + 1) src = ext_bytes l @ drop ip1 src"
      "ip1 \<le> length src" "ip + 1 \<le> ip1"
    using nibble_length_drop [OF n1 nibble_bounds(1)] ip by auto
  define ls where "ls = pslice src ip1 (ip1 + l)"
  have lsl: "length ls = l" using fits d1(3) by (simp add: ls_def)
  have d2: "drop ip1 src = ls @ drop (ip1 + l) src"
    using append_take_drop_id [of l "drop ip1 src"] by (simp add: ls_def pslice_def add.commute)
  have tok: "token_byte l (unat ?t AND 15) = ?t"
    using token_byte_split [of ?t] d1(1) by (simp add: token_byte_def)
  show thesis
  proof (cases "ip1 + l = length src")
    case True
    then have "res = out @ ls" using fin by (simp add: ls_def)
    moreover have "drop ip src = final_bytes (unat ?t AND 15) ls"
      using d0 d1 d2 tok lsl True by (simp add: final_bytes_def)
    ultimately show thesis
      using final fits lsl nibble_bounds(2) by simp
  next
    case False
    let ?ip2 = "ip1 + l"
    let ?o = "unat (src ! ?ip2) OR push_bit 8 (unat (src ! (?ip2 + 1)))"
    obtain n ip4 where two: "?ip2 + 2 \<le> length src" and o: "?o \<noteq> 0" "?o \<le> length (out @ ls)"
      and n2: "nibble_length src (unat ?t AND 15) (?ip2 + 2) = Inr (n, ip4)"
      and rest: "decompress_loop src capacity ip4
        (copy_match (out @ ls) (length (out @ ls) - ?o) 0 (n + MIN_MATCH)) = Inr res"
      using decompress_loop_match [OF assms ip n1 fits False refl refl] unfolding ls_def by metis
    have d4: "unat ?t AND 15 = min n 15" "drop (?ip2 + 2) src = ext_bytes n @ drop ip4 src"
        "ip4 \<le> length src" "?ip2 + 2 \<le> ip4"
      using nibble_length_drop [OF n2 nibble_bounds(2) two] by auto
    have d3: "drop ?ip2 src = le_bytes 2 ?o @ drop (?ip2 + 2) src"
      using two drop_Cons_nth [of ?ip2 src] drop_Cons_nth [of "?ip2 + 1" src]
      by (simp add: le2_of_bytes)
    let ?s = "LzSeq ls ?o (n + MIN_MATCH)"
    have "drop ip src = seq_bytes ?s @ drop ip4 src"
      using d0 d1 d2 d3 d4 tok lsl by (simp add: token_byte_def)
    moreover have "?o < 65536"
    proof -
      have "unat (src ! ?ip2) < 2 ^ 16" "push_bit 8 (unat (src ! (?ip2 + 1))) < 2 ^ 16"
        using byte_less [of "src ! ?ip2"] byte_less [of "src ! (?ip2 + 1)"]
        by (simp_all add: push_bit_eq_mult del: byte_less)
      then have "?o < 2 ^ 16" by (rule or_nat_less)
      then show ?thesis by simp
    qed
    then have "valid_seq out ?s" using o lsl by (simp add: MAX_OFFSET_def)
    ultimately show thesis
      using seq [of ip4 ?s] d4 d1 rest by simp
  qed
qed

lemma decompress_loop_inv:
  assumes "decompress_loop src capacity ip out = Inr res" and "ip \<le> length src"
  shows "\<exists>ss m ls. drop ip src = concat (map seq_bytes ss) @ final_bytes m ls \<and> m \<le> 15
           \<and> valid_seqs out ss \<and> res = expand out ss @ ls \<and> length res \<le> capacity"
  using assms
proof (induction "length src - ip" arbitrary: ip out rule: less_induct)
  case less
  from less.prems(1) show ?case
  proof (cases rule: decompress_loop_cases)
    case (final ls m)
    then show ?thesis by (intro exI [of _ "[]"] exI [of _ m] exI [of _ ls]) simp
  next
    case (seq s ip')
    then obtain ss m ls where "drop ip' src = concat (map seq_bytes ss) @ final_bytes m ls"
      "m \<le> 15" "valid_seqs (expand1 out s) ss" "res = expand (expand1 out s) ss @ ls"
      "length res \<le> capacity"
      using less.hyps [of ip' "expand1 out s"] by (metis diff_less_mono2 order_less_le_trans)
    with seq show ?thesis by (intro exI [of _ "s # ss"] exI [of _ m] exI [of _ ls]) simp
  qed
qed

text \<open>The abstract contract of the decoder: what a block denotes, if it is one.\<close>

definition lz4_block :: "byte list \<Rightarrow> byte list \<Rightarrow> bool" where
  "lz4_block src text \<longleftrightarrow>
     (\<exists>ss m ls. src = concat (map seq_bytes ss) @ final_bytes m ls \<and> m \<le> 15
        \<and> valid_seqs [] ss \<and> text = expand [] ss @ ls)"

lemma lz4_block_nonempty: "lz4_block src text \<Longrightarrow> src \<noteq> []"
  by (auto simp: lz4_block_def final_bytes_def)

lemma decompress_iff_block:
  assumes "src \<noteq> []"
  shows "decompress src capacity = Inr out \<longleftrightarrow> lz4_block src out \<and> length out \<le> capacity"
proof
  assume "decompress src capacity = Inr out"
  with assms have "decompress_loop src capacity 0 [] = Inr out" by (simp add: decompress_def)
  from decompress_loop_inv [OF this] show "lz4_block src out \<and> length out \<le> capacity"
    by (auto simp: lz4_block_def)
next
  assume "lz4_block src out \<and> length out \<le> capacity"
  then obtain ss m ls where src: "src = concat (map seq_bytes ss) @ final_bytes m ls"
    and "valid_seqs [] ss" "out = expand [] ss @ ls" "length out \<le> capacity"
    by (auto simp: lz4_block_def)
  then show "decompress src capacity = Inr out"
    using decompress_seqs [of "[]" ss ls capacity "[]" m] assms unfolding decompress_def
    by (simp del: append_is_Nil_conv)
qed

lemma block_text_unique:
  assumes "lz4_block src t1" and "lz4_block src t2"
  shows "t1 = t2"
proof -
  have "decompress src (max (length t1) (length t2)) = Inr t1"
    and "decompress src (max (length t1) (length t2)) = Inr t2"
    using assms decompress_iff_block lz4_block_nonempty by (blast intro: max.cobounded1 max.cobounded2)+
  then show ?thesis by simp
qed

lemma compress_roundtrip:
  "\<exists>coded. compress data = Inr coded \<and> decompress coded (length data) = Inr data"
proof -
  obtain ss ls where c: "compress data = Inr (concat (map seq_bytes ss) @ final_bytes 0 ls)"
    and "valid_seqs [] ss" "expand [] ss @ ls = data"
    using compress_seqs by blast
  then have "lz4_block (concat (map seq_bytes ss) @ final_bytes 0 ls) data"
    by (auto simp: lz4_block_def)
  with c show ?thesis using decompress_iff_block lz4_block_nonempty by blast
qed

text \<open>
  (C1) \<open>compress\<close> raises nothing, and \<open>decompress\<close> with the data's own length as
  capacity gives the data back.
\<close>

theorem compress_decompress:
  "\<exists>coded. compress data = Inr coded \<and> decompress coded (length data) = Inr data"
  by (rule compress_roundtrip)

lemma length_length_bytes: "length (length_bytes n) = n div 255 + 1"
proof (induction n rule: length_bytes.induct)
  case (1 n)
  then show ?case
    by (cases "255 \<le> n") (auto simp: length_bytes.simps [of n] le_div_geq)
qed

lemma seq_bytes_cost:
  "valid_seq out s \<Longrightarrow> length (seq_bytes s) \<le> length (lits s) + length (lits s) div 255 + mlen s"
proof (cases s)
  case (LzSeq ls o' m)
  assume "valid_seq out s"
  then have m: "4 \<le> m" using LzSeq by (simp add: MIN_MATCH_def)
  have "length (ext_bytes (length ls)) \<le> length ls div 255 + 1"
    by (auto simp: ext_bytes_def length_length_bytes intro: div_le_mono)
  moreover have "length (ext_bytes (m - 4)) + 4 \<le> m"
    using m by (auto simp: ext_bytes_def length_length_bytes) 
  moreover have "length (seq_bytes s) = 3 + length (ext_bytes (length ls)) + length ls
      + length (ext_bytes (m - 4))"
    using LzSeq by (simp add: MIN_MATCH_def)
  ultimately show ?thesis unfolding LzSeq by simp
qed

lemma div_add_le: "(a::nat) div c + b div c \<le> (a + b) div c"
  by (subst div_add1_eq) simp

lemma seqs_cost:
  "valid_seqs out ss \<Longrightarrow> length (concat (map seq_bytes ss))
     \<le> (\<Sum>s\<leftarrow>ss. length (lits s) + mlen s) + (\<Sum>s\<leftarrow>ss. length (lits s) + mlen s) div 255"
proof (induction ss arbitrary: out)
  case (Cons s ss)
  let ?a = "length (lits s) + mlen s" and ?b = "\<Sum>s\<leftarrow>ss. length (lits s) + mlen s"
  have "length (seq_bytes s) \<le> length (lits s) + length (lits s) div 255 + mlen s"
    using Cons.prems seq_bytes_cost by auto
  also have "\<dots> \<le> ?a + ?a div 255" by (simp add: div_le_mono)
  finally have "length (seq_bytes s) \<le> ?a + ?a div 255" .
  moreover have "length (concat (map seq_bytes ss)) \<le> ?b + ?b div 255"
    using Cons.IH [of "expand1 out s"] Cons.prems by simp
  ultimately show ?case using div_add_le [of ?a 255 ?b] by simp
qed simp

lemma final_cost: "length (final_bytes m ls) \<le> length ls + length ls div 255 + 2"
  by (auto simp: final_bytes_def ext_bytes_def length_length_bytes intro: div_le_mono)

lemma compress_length:
  "compress data = Inr coded \<Longrightarrow> length coded \<le> length data + length data div 255 + 2"
proof -
  assume c: "compress data = Inr coded"
  obtain ss ls where coded: "coded = concat (map seq_bytes ss) @ final_bytes 0 ls"
    and v: "valid_seqs [] ss" and d: "expand [] ss @ ls = data"
    using compress_seqs [of data] c by auto
  let ?t = "\<Sum>s\<leftarrow>ss. length (lits s) + mlen s"
  have n: "length data = ?t + length ls"
    using arg_cong [OF d, of length] by (simp add: length_expand)
  show ?thesis
    using seqs_cost [OF v] final_cost [of 0 ls] div_add_le [of ?t 255 "length ls"]
    unfolding coded n by simp
qed

text \<open>
  (C6) The coded block is never longer than the data by more than one byte in 255
  and two: no input grows past that.
\<close>

theorem compress_bound:
  "\<exists>coded. compress data = Inr coded \<and> length coded \<le> length data + length data div 255 + 2"
  using compress_seqs [of data] compress_length by blast

text \<open>
  (C2) The decoder's language, exactly: a text comes out if and only if the input
  is empty and so is the text, or the input is a block of the format (every
  match reaching inside the text before it) that denotes that text and the text
  fits the capacity.  So the output never exceeds the capacity, and no
  malformed block is accepted.
\<close>

theorem decompress_language:
  "decompress src capacity = Inr out \<longleftrightarrow>
     (src = [] \<and> out = []) \<or> (lz4_block src out \<and> length out \<le> capacity)"
  using decompress_iff_block [of src capacity out] lz4_block_nonempty [of src out]
  by (cases "src = []") (auto simp: decompress_def)

end
