(* ===== verification/Lz4_Image.thy ===== *)
theory Lz4_Image
  imports Lz4
begin

unbundle bit_operations_syntax

section \<open>The TKZ1 container (scripts/lz4\_image.py)\<close>

text \<open>
  \<open>pack\<close> cuts an image into chunks of 64 blocks of 1024 bytes, drops the zero
  blocks (their bits in \<open>present\<close> stay clear) and codes the rest of each chunk as
  one LZ4 block; \<open>unpack\<close> reads the container back and accepts zero padding after
  the last chunk.  \<open>pack_images\<close> is the part of \<open>main\<close> that packs one or two
  images to one length and checks each result.
\<close>

definition MAGIC :: "byte list" where "MAGIC = [0x54, 0x4B, 0x5A, 0x31]"
definition BLOCK_SIZE :: nat where "BLOCK_SIZE = 1024"
definition CHUNK_BLOCKS :: nat where "CHUNK_BLOCKS = 64"

subsection \<open>Packing\<close>

text \<open>The inner loop of \<open>pack\<close>: one block of chunk \<open>c\<close>, on \<open>(present, kept)\<close>.\<close>

definition pack_block :: "byte list \<Rightarrow> nat \<Rightarrow> nat \<Rightarrow> nat \<times> byte list \<Rightarrow> nat \<times> byte list" where
  "pack_block img c b = (\<lambda>(present, kept).
     let start = c * (BLOCK_SIZE * CHUNK_BLOCKS) + b * BLOCK_SIZE;
         block = pslice img start (start + BLOCK_SIZE)
     in if block \<noteq> replicate BLOCK_SIZE 0 then (present OR push_bit b 1, kept @ block)
        else (present, kept))"

definition pack_chunk :: "byte list \<Rightarrow> byte list \<Rightarrow> nat \<Rightarrow> py_error + byte list" where
  "pack_chunk img out c =
     (let (present, kept) = fold (pack_block img c) [0..<CHUNK_BLOCKS] (0, [])
      in bindR (if kept \<noteq> [] then compress kept else Inr []) (\<lambda>coded.
         bindR (pack_le 8 (int present)) (\<lambda>p.
         bindR (pack_le 4 (int (length coded))) (\<lambda>l.
         Inr (out @ p @ l @ coded)))))"

definition pack :: "byte list \<Rightarrow> py_error + byte list" where
  "pack img =
     (let chunk_bytes = BLOCK_SIZE * CHUNK_BLOCKS
      in if length img mod chunk_bytes \<noteq> 0
         then Inl (ValueError (u ''image length is not a multiple of the chunk''))
         else
           let chunks = length img div chunk_bytes
           in bindR (pack_le 4 (int BLOCK_SIZE)) (\<lambda>bs.
              bindR (pack_le 4 (int CHUNK_BLOCKS)) (\<lambda>cb.
              bindR (pack_le 4 (int chunks)) (\<lambda>n.
              foldM (pack_chunk img) (MAGIC @ bs @ cb @ n) [0..<chunks]))))"

subsection \<open>Unpacking\<close>

text \<open>\<open>bin(present).count("1")\<close>\<close>

fun popcount :: "nat \<Rightarrow> nat" where
  "popcount n = (if n = 0 then 0 else n mod 2 + popcount (n div 2))"

declare popcount.simps [simp del]

text \<open>The inner loop of \<open>unpack\<close>: one block, on \<open>(k, img)\<close>.\<close>

definition place_block :: "nat \<Rightarrow> byte list \<Rightarrow> nat \<Rightarrow> nat \<times> byte list \<Rightarrow> nat \<times> byte list" where
  "place_block present kept b = (\<lambda>(k, img).
     if drop_bit b present AND 1 \<noteq> 0
     then (k + 1, img @ pslice kept (k * BLOCK_SIZE) ((k + 1) * BLOCK_SIZE))
     else (k, img @ replicate BLOCK_SIZE 0))"

definition unpack_chunk :: "byte list \<Rightarrow> nat \<times> byte list \<Rightarrow> nat \<Rightarrow> py_error + nat \<times> byte list" where
  "unpack_chunk container = (\<lambda>(at, img) _.
     bindR (unpack_le 8 container at) (\<lambda>present.
     bindR (unpack_le 4 container (at + 8)) (\<lambda>coded_len.
     let at1 = at + 12; coded = pslice container at1 (at1 + coded_len)
     in if length coded \<noteq> coded_len then Inl (Invalid ''chunk past the container'')
        else
          let count = popcount present
          in bindR (if count \<noteq> 0 then decompress coded (count * BLOCK_SIZE) else Inr []) (\<lambda>kept.
             if length kept \<noteq> count * BLOCK_SIZE
             then Inl (Invalid ''chunk decodes to the wrong length'')
             else Inr (at1 + coded_len,
                       snd (fold (place_block present kept) [0..<CHUNK_BLOCKS] (0, img)))))))"

definition unpack :: "byte list \<Rightarrow> py_error + byte list" where
  "unpack container =
     (if pslice container 0 4 \<noteq> MAGIC then Inl (Invalid ''no TKZ1 magic'')
      else bindR (unpack_le 4 container 4) (\<lambda>block_size.
           bindR (unpack_le 4 container 8) (\<lambda>chunk_blocks.
           bindR (unpack_le 4 container 12) (\<lambda>chunks.
           if (block_size, chunk_blocks) \<noteq> (BLOCK_SIZE, CHUNK_BLOCKS)
           then Inl (Invalid ''unexpected geometry'')
           else bindR (foldM (unpack_chunk container) (16, []) [0..<chunks]) (\<lambda>(at, img).
                if list_ex (\<lambda>b. b \<noteq> 0) (drop at container)
                then Inl (Invalid ''nonzero bytes after the last chunk'')
                else Inr img)))))"

subsection \<open>The commands \<open>pack\<close> and \<open>pack-pair\<close>\<close>

text \<open>
  \<open>main\<close>, from the images read to the containers it writes: \<open>Inr None\<close> is the
  \<open>FAIL ... does not decode back\<close> exit, \<open>Inr (Some outs)\<close> the files written.
\<close>

fun decode_back :: "(byte list \<times> byte list) list \<Rightarrow> py_error + bool" where
  "decode_back [] = Inr True"
| "decode_back ((img, out) # rest) =
     bindR (unpack out) (\<lambda>back. if back \<noteq> img then Inr False else decode_back rest)"

definition pack_images :: "byte list list \<Rightarrow> py_error + byte list list option" where
  "pack_images images =
     bindR (mapM pack images) (\<lambda>outs.
       let width = Max (set (map length outs));
           padded = map (\<lambda>out. out @ replicate (width - length out) 0) outs
       in bindR (decode_back (zip images padded)) (\<lambda>ok.
            Inr (if ok then Some padded else None)))"

text \<open>The test's input: three chunks, laid out by slice assignments.\<close>

definition assign_slice :: "byte list \<Rightarrow> nat \<Rightarrow> byte list \<Rightarrow> byte list" where
  "assign_slice img i bs = take i img @ bs @ drop (i + length bs) img"

fun lcg_bytes :: "nat \<Rightarrow> nat \<Rightarrow> byte list" where
  "lcg_bytes 0 state = []"
| "lcg_bytes (Suc n) state =
     (let state' = (state * 1103515245 + 12345) AND 0x7FFFFFFF
      in of_nat (drop_bit 16 state' AND 255) # lcg_bytes n state')"

definition fixture_text :: "byte list" where
  "fixture_text = concat (replicate 40 (map (\<lambda>c. of_nat (of_char c))
     ''Takibi provisions the stick from this image. ''))"

definition fixture_image :: "byte list \<times> byte list" where
  "fixture_image =
     (let chunk = BLOCK_SIZE * CHUNK_BLOCKS;
          img = replicate (chunk * 3) 0;
          img = assign_slice img BLOCK_SIZE fixture_text;
          img = assign_slice img (20 * BLOCK_SIZE) (lcg_bytes (8 * BLOCK_SIZE) 12345);
          img = assign_slice img (63 * BLOCK_SIZE + BLOCK_SIZE - 1) [0xA5];
          img = assign_slice img (chunk + 5 * BLOCK_SIZE) (replicate (4 * BLOCK_SIZE) 0x5A)
      in (img, fixture_text))"

subsection \<open>Chunks and their blocks\<close>

definition chunk_block :: "byte list \<Rightarrow> nat \<Rightarrow> nat \<Rightarrow> byte list" where
  "chunk_block img c b =
     (let start = c * (BLOCK_SIZE * CHUNK_BLOCKS) + b * BLOCK_SIZE
      in pslice img start (start + BLOCK_SIZE))"

abbreviation is_zero :: "byte list \<Rightarrow> bool" where
  "is_zero block \<equiv> block = replicate BLOCK_SIZE 0"

definition present_of :: "byte list \<Rightarrow> nat \<Rightarrow> nat \<Rightarrow> nat list" where
  "present_of img c n = filter (\<lambda>b. \<not> is_zero (chunk_block img c b)) [0..<n]"

definition kept_of :: "byte list \<Rightarrow> nat \<Rightarrow> nat \<Rightarrow> byte list" where
  "kept_of img c n = concat (map (chunk_block img c) (present_of img c n))"

lemma bit_or_push: "bit (m OR push_bit b (1::nat)) i \<longleftrightarrow> bit m i \<or> i = b"
  by (auto simp: bit_simps)

lemma pack_blocks:
  "\<exists>present. fold (pack_block img c) [0..<n] (0, []) = (present, kept_of img c n)
     \<and> (\<forall>b. bit present b \<longleftrightarrow> b < n \<and> \<not> is_zero (chunk_block img c b)) \<and> present < 2 ^ n"
proof (induction n)
  case 0
  show ?case by (simp add: kept_of_def present_of_def)
next
  case (Suc n)
  then obtain present where
    IH: "fold (pack_block img c) [0..<n] (0, []) = (present, kept_of img c n)"
      "\<forall>b. bit present b \<longleftrightarrow> b < n \<and> \<not> is_zero (chunk_block img c b)" "present < 2 ^ n"
    by blast
  have eq: "fold (pack_block img c) [0..<Suc n] (0, []) =
      (if is_zero (chunk_block img c n) then (present, kept_of img c n)
       else (present OR push_bit n 1, kept_of img c n @ chunk_block img c n))"
    using IH(1) by (simp add: pack_block_def chunk_block_def Let_def)
  show ?case
  proof (cases "is_zero (chunk_block img c n)")
    case True
    then show ?thesis
      using eq IH(2,3)
      by (intro exI [of _ present]) (auto simp: kept_of_def present_of_def less_Suc_eq)
  next
    case False
    define p where "p = present OR push_bit n 1"
    have "p < 2 ^ Suc n"
      unfolding p_def using IH(3) by (intro or_nat_less) (auto simp: push_bit_eq_mult)
    moreover have "\<forall>b. bit p b \<longleftrightarrow> b < Suc n \<and> \<not> is_zero (chunk_block img c b)"
      unfolding p_def bit_or_push using IH(2) False by (metis less_Suc_eq)
    ultimately show ?thesis
      using eq False unfolding p_def [symmetric]
      by (intro exI [of _ p]) (simp add: kept_of_def present_of_def)
  qed
qed

lemma popcount_bits: "m < 2 ^ n \<Longrightarrow> popcount m = length (filter (bit m) [0..<n])"
proof (induction n arbitrary: m)
  case 0
  then show ?case using popcount.simps [of 0] by simp
next
  case (Suc n)
  then have IH: "popcount (m div 2) = length (filter (bit (m div 2)) [0..<n])"
    by (simp add: less_mult_imp_div_less)
  have "filter (bit m) [0..<Suc n] = (if odd m then [0] else []) @ map Suc (filter (bit (m div 2)) [0..<n])"
    by (simp add: upt_conv_Cons map_Suc_upt [symmetric] filter_map o_def bit_Suc bit_0
        del: upt_Suc)
  then have "length (filter (bit m) [0..<Suc n]) = m mod 2 + popcount (m div 2)"
    by (simp add: IH mod_2_eq_odd)
  moreover have "popcount m = m mod 2 + popcount (m div 2)"
  proof (cases "m = 0")
    case True
    then show ?thesis using popcount.simps [of 0] by simp
  next
    case False
    then show ?thesis by (subst popcount.simps) simp
  qed
  ultimately show ?case by simp
qed

lemma concat_block:
  assumes "\<forall>x\<in>set xs. length x = w" and "k < length xs"
  shows "pslice (concat xs) (k * w) ((k + 1) * w) = xs ! k"
  using assms
proof (induction xs arbitrary: k)
  case (Cons x xs)
  show ?case
  proof (cases k)
    case 0
    with Cons.prems show ?thesis by (simp add: pslice_def)
  next
    case (Suc j)
    with Cons have "pslice (concat xs) (j * w) ((j + 1) * w) = xs ! j" by simp
    then show ?thesis using Cons.prems Suc by (simp add: pslice_def)
  qed
qed simp

lemma length_concat_same:
  "\<forall>x\<in>set xs. length x = w \<Longrightarrow> length (concat xs) = length xs * w"
  by (induction xs) auto

lemma filter_upt_split:
  assumes "P n" and "n < N"
  shows "filter P [0..<N] = filter P [0..<n] @ n # filter P [Suc n..<N]"
proof -
  have "[0..<N] = [0..<n] @ n # [Suc n..<N]"
    using assms(2) upt_add_eq_append [of 0 n "N - n"] by (simp add: upt_conv_Cons)
  then show ?thesis using assms(1) by simp
qed

lemma filter_upt_nth:
  assumes "P n" and "n < N"
  shows "filter P [0..<N] ! length (filter P [0..<n]) = n"
  using filter_upt_split [of P n N] assms by (simp add: nth_append)

lemma filter_upt_less:
  assumes "P n" and "n < N"
  shows "length (filter P [0..<n]) < length (filter P [0..<N])"
  using filter_upt_split [of P n N] assms by simp

lemma place_blocks:
  assumes bits: "\<forall>b. bit present b \<longleftrightarrow> b < N \<and> \<not> is_zero (chunk_block img c b)"
    and len: "\<forall>b<N. length (chunk_block img c b) = BLOCK_SIZE"
    and kept: "kept = kept_of img c N" and n: "n \<le> N"
  shows "fold (place_block present kept) [0..<n] (0, out) =
           (length (present_of img c n), out @ concat (map (chunk_block img c) [0..<n]))"
  using n
proof (induction n)
  case (Suc n)
  let ?k = "length (present_of img c n)"
  have nz: "(drop_bit n present AND 1 \<noteq> 0) \<longleftrightarrow> \<not> is_zero (chunk_block img c n)"
  proof -
    have "(drop_bit n present AND 1 \<noteq> 0) \<longleftrightarrow> bit present n"
      by (simp add: and_one_eq bit_iff_odd_drop_bit odd_iff_mod_2_eq_one)
    with bits Suc.prems show ?thesis by simp
  qed
  show ?case
  proof (cases "is_zero (chunk_block img c n)")
    case True
    with Suc nz show ?thesis
      by (simp add: place_block_def present_of_def)
  next
    case False
    have "pslice kept (?k * BLOCK_SIZE) ((?k + 1) * BLOCK_SIZE)
        = map (chunk_block img c) (present_of img c N) ! ?k"
      unfolding kept kept_of_def
      by (rule concat_block)
        (use False Suc.prems len filter_upt_less [of "\<lambda>b. \<not> is_zero (chunk_block img c b)" n N]
          in \<open>auto simp: present_of_def\<close>)
    also have "\<dots> = chunk_block img c n"
      using False Suc.prems filter_upt_nth [of "\<lambda>b. \<not> is_zero (chunk_block img c b)" n N]
        filter_upt_less [of "\<lambda>b. \<not> is_zero (chunk_block img c b)" n N]
      by (simp add: present_of_def)
    finally have "pslice kept (?k * BLOCK_SIZE) ((?k + 1) * BLOCK_SIZE) = chunk_block img c n" .
    with False Suc nz show ?thesis
      by (simp add: place_block_def present_of_def)
  qed
qed (simp add: present_of_def)

lemma concat_blocks:
  "concat (map (chunk_block img c) [0..<n])
     = pslice img (c * (BLOCK_SIZE * CHUNK_BLOCKS)) (c * (BLOCK_SIZE * CHUNK_BLOCKS) + n * BLOCK_SIZE)"
proof (induction n)
  case (Suc n)
  let ?a = "c * (BLOCK_SIZE * CHUNK_BLOCKS)"
  have "pslice img ?a (?a + n * BLOCK_SIZE)
      @ pslice img (?a + n * BLOCK_SIZE) (?a + n * BLOCK_SIZE + BLOCK_SIZE)
      = pslice img ?a (?a + n * BLOCK_SIZE + BLOCK_SIZE)"
    by (rule pslice_append) auto
  with Suc show ?case by (simp add: chunk_block_def Let_def ac_simps)
qed simp

lemma concat_chunks:
  "concat (map (\<lambda>c. concat (map (chunk_block img c) [0..<CHUNK_BLOCKS])) [0..<n])
     = pslice img 0 (n * (BLOCK_SIZE * CHUNK_BLOCKS))"
proof (induction n)
  case (Suc n)
  let ?w = "BLOCK_SIZE * CHUNK_BLOCKS"
  have "pslice img 0 (n * ?w) @ pslice img (n * ?w) (n * ?w + ?w) = pslice img 0 (n * ?w + ?w)"
    by (rule pslice_append) auto
  with Suc show ?case by (simp add: concat_blocks algebra_simps)
qed simp

lemma length_chunk_block:
  assumes "Suc c * (BLOCK_SIZE * CHUNK_BLOCKS) \<le> length img" and "b < CHUNK_BLOCKS"
  shows "length (chunk_block img c b) = BLOCK_SIZE"
proof -
  have "Suc b * BLOCK_SIZE \<le> CHUNK_BLOCKS * BLOCK_SIZE"
    using assms(2) by (intro mult_le_mono1) simp
  with assms(1) show ?thesis by (simp add: chunk_block_def Let_def mult.commute)
qed

text \<open>One chunk: the record \<open>pack\<close> appends is the one \<open>unpack\<close> reads back as the chunk.\<close>

lemma chunk_roundtrip:
  assumes c: "Suc c * (BLOCK_SIZE * CHUNK_BLOCKS) \<le> length img"
  obtains rec where "\<And>out. pack_chunk img out c = Inr (out @ rec)"
    and "\<And>pre post acc x. unpack_chunk (pre @ rec @ post) (length pre, acc) x
           = Inr (length pre + length rec, acc @ concat (map (chunk_block img c) [0..<CHUNK_BLOCKS]))"
proof -
  let ?kept = "kept_of img c CHUNK_BLOCKS"
  have len: "\<forall>b<CHUNK_BLOCKS. length (chunk_block img c b) = BLOCK_SIZE"
    using length_chunk_block [OF c] by simp
  obtain present where fold: "fold (pack_block img c) [0..<CHUNK_BLOCKS] (0, []) = (present, ?kept)"
    and bits: "\<forall>b. bit present b \<longleftrightarrow> b < CHUNK_BLOCKS \<and> \<not> is_zero (chunk_block img c b)"
    and p64: "present < 2 ^ CHUNK_BLOCKS"
    using pack_blocks by blast
  have count: "popcount present = length (present_of img c CHUNK_BLOCKS)"
    using popcount_bits [OF p64] bits
    by (simp add: present_of_def) (metis (mono_tags, lifting) atLeastLessThan_iff filter_cong set_upt)
  have klen: "length ?kept = popcount present * BLOCK_SIZE"
    unfolding kept_of_def count
    by (subst length_concat_same [of _ BLOCK_SIZE]) (use len in \<open>auto simp: present_of_def\<close>)
  have small: "length ?kept \<le> 65536"
  proof -
    have "length (present_of img c CHUNK_BLOCKS) \<le> CHUNK_BLOCKS"
      unfolding present_of_def by (metis diff_zero length_filter_le length_upt)
    then show ?thesis unfolding klen count by (simp add: BLOCK_SIZE_def CHUNK_BLOCKS_def)
  qed
  obtain coded where coded: "(if ?kept \<noteq> [] then compress ?kept else Inr []) = Inr coded"
    and bk: "(if popcount present \<noteq> 0 then decompress coded (popcount present * BLOCK_SIZE) else Inr [])
      = Inr ?kept" and clen: "length coded < 256 ^ 4"
  proof (cases "?kept = []")
    case True
    with klen have "popcount present = 0" by (simp add: BLOCK_SIZE_def)
    with True that [of "[]"] show thesis by simp
  next
    case False
    obtain coded where c1: "compress ?kept = Inr coded" "decompress coded (length ?kept) = Inr ?kept"
      using compress_roundtrip by blast
    moreover have "length coded < 256 ^ 4"
      using compress_length [OF c1(1)] small div_le_dividend [of "length ?kept" 255] by simp
    moreover have "popcount present \<noteq> 0" using False klen by (metis length_0_conv mult_0)
    ultimately show thesis using that [of coded] False klen by simp
  qed
  let ?rec = "le_bytes 8 present @ le_bytes 4 (length coded) @ coded"
  have p8: "present < 256 ^ 8" using p64 by (simp add: CHUNK_BLOCKS_def)
  show thesis
  proof (rule that [of ?rec])
    show "pack_chunk img out c = Inr (out @ ?rec)" for out
      using fold coded p8 clen by (simp add: pack_chunk_def)
    fix pre post acc x
    let ?cont = "pre @ ?rec @ post"
    have u1: "unpack_le 8 ?cont (length pre) = Inr present"
      using unpack_le_at [OF p8, of pre "length pre" "le_bytes 4 (length coded) @ coded @ post"] by simp
    have u2: "unpack_le 4 ?cont (length pre + 8) = Inr (length coded)"
      using unpack_le_at [OF clen, of "pre @ le_bytes 8 present" "length pre + 8" "coded @ post"] by simp
    have u3: "pslice ?cont (length pre + 12) (length pre + 12 + length coded) = coded"
      using pslice_mid [of "pre @ le_bytes 8 present @ le_bytes 4 (length coded)" "length pre + 12" coded post]
      by simp
    show "unpack_chunk ?cont (length pre, acc) x
        = Inr (length pre + length ?rec, acc @ concat (map (chunk_block img c) [0..<CHUNK_BLOCKS]))"
      using u1 u2 u3 bk klen place_blocks [OF bits len refl order_refl, of acc]
      by (auto simp: unpack_chunk_def Let_def split: if_splits)
  qed
qed

subsection \<open>The whole image\<close>

lemma chunks_roundtrip:
  assumes "n * (BLOCK_SIZE * CHUNK_BLOCKS) \<le> length img"
  obtains body where "\<And>out. foldM (pack_chunk img) out [0..<n] = Inr (out @ body)"
    and "\<And>pre post acc. foldM (unpack_chunk (pre @ body @ post)) (length pre, acc) [0..<n]
           = Inr (length pre + length body, acc @ pslice img 0 (n * (BLOCK_SIZE * CHUNK_BLOCKS)))"
  using assms
proof (induction n arbitrary: thesis)
  case 0
  then show ?case by simp
next
  case (Suc n)
  from Suc.prems(2) have "n * (BLOCK_SIZE * CHUNK_BLOCKS) \<le> length img" by simp
  then obtain body where
    p: "\<And>out. foldM (pack_chunk img) out [0..<n] = Inr (out @ body)"
    and u: "\<And>pre post acc. foldM (unpack_chunk (pre @ body @ post)) (length pre, acc) [0..<n]
      = Inr (length pre + length body, acc @ pslice img 0 (n * (BLOCK_SIZE * CHUNK_BLOCKS)))"
    using Suc.IH by blast
  obtain rec where
    p1: "\<And>out. pack_chunk img out n = Inr (out @ rec)"
    and u1: "\<And>pre post acc x. unpack_chunk (pre @ rec @ post) (length pre, acc) x
      = Inr (length pre + length rec, acc @ concat (map (chunk_block img n) [0..<CHUNK_BLOCKS]))"
    using chunk_roundtrip [OF Suc.prems(2)] by blast
  show ?case
  proof (rule Suc.prems(1) [of "body @ rec"])
    show "foldM (pack_chunk img) out [0..<Suc n] = Inr (out @ body @ rec)" for out
      using p p1 by (simp add: foldM_append)
    fix pre post acc
    have "unpack_chunk (pre @ (body @ rec) @ post) (length pre + length body, acc') n
        = Inr (length pre + length body + length rec,
               acc' @ concat (map (chunk_block img n) [0..<CHUNK_BLOCKS]))" for acc'
      using u1 [of "pre @ body" post] by simp
    then show "foldM (unpack_chunk (pre @ (body @ rec) @ post)) (length pre, acc) [0..<Suc n]
        = Inr (length pre + length (body @ rec),
               acc @ pslice img 0 (Suc n * (BLOCK_SIZE * CHUNK_BLOCKS)))"
      using u [of pre "rec @ post" acc] concat_chunks [of img "Suc n"] concat_chunks [of img n]
      by (simp add: foldM_append)
  qed
qed

lemma pack_unpack:
  assumes "length img mod (BLOCK_SIZE * CHUNK_BLOCKS) = 0"
    and "length img div (BLOCK_SIZE * CHUNK_BLOCKS) < 2 ^ 32"
  obtains out where "pack img = Inr out" and "\<And>pad. unpack (out @ replicate pad 0) = Inr img"
proof -
  let ?n = "length img div (BLOCK_SIZE * CHUNK_BLOCKS)"
  have n: "?n * (BLOCK_SIZE * CHUNK_BLOCKS) = length img" using assms(1) by auto
  have w: "BLOCK_SIZE < 256 ^ 4" "CHUNK_BLOCKS < 256 ^ 4" "?n < 256 ^ 4"
    using assms(2) by (simp_all add: BLOCK_SIZE_def CHUNK_BLOCKS_def)
  let ?h = "MAGIC @ le_bytes 4 BLOCK_SIZE @ le_bytes 4 CHUNK_BLOCKS @ le_bytes 4 ?n"
  obtain body where p: "\<And>out. foldM (pack_chunk img) out [0..<?n] = Inr (out @ body)"
    and u: "\<And>pre post acc. foldM (unpack_chunk (pre @ body @ post)) (length pre, acc) [0..<?n]
      = Inr (length pre + length body, acc @ pslice img 0 (?n * (BLOCK_SIZE * CHUNK_BLOCKS)))"
    using chunks_roundtrip [of ?n img] n by auto
  have h: "length ?h = 16" by (simp add: MAGIC_def)
  have "pack img = Inr (?h @ body)"
    using assms(1) w p by (simp add: pack_def Let_def)
  moreover have "unpack ((?h @ body) @ replicate pad 0) = Inr img" for pad
  proof -
    define cont where "cont = ?h @ body @ replicate pad 0"
    have "pslice cont 0 4 = MAGIC" by (simp add: cont_def pslice_def MAGIC_def)
    moreover have "unpack_le 4 cont 4 = Inr BLOCK_SIZE"
      using unpack_le_at [OF w(1), of MAGIC 4] by (simp add: cont_def MAGIC_def)
    moreover have "unpack_le 4 cont 8 = Inr CHUNK_BLOCKS"
      using unpack_le_at [OF w(2), of "MAGIC @ le_bytes 4 BLOCK_SIZE" 8]
      by (simp add: cont_def MAGIC_def)
    moreover have "unpack_le 4 cont 12 = Inr ?n"
      using unpack_le_at [OF w(3), of "MAGIC @ le_bytes 4 BLOCK_SIZE @ le_bytes 4 CHUNK_BLOCKS" 12]
      by (simp add: cont_def MAGIC_def)
    moreover have "foldM (unpack_chunk cont) (16, []) [0..<?n] = Inr (16 + length body, img)"
      using u [of ?h "replicate pad 0" "[]"] n h by (simp add: cont_def)
    moreover have "drop (16 + length body) cont = replicate pad 0"
      using drop_append [of "length (?h @ body)" "?h @ body" "replicate pad 0"] h
      by (simp add: cont_def)
    ultimately have "unpack cont = Inr img" by (simp add: unpack_def list_ex_iff)
    then show ?thesis by (simp add: cont_def)
  qed
  ultimately show thesis using that by blast
qed

text \<open>
  (C3) Every image whose length is a whole number of chunks (and whose chunk count
  fits the 32-bit header field) packs, and \<open>unpack\<close> gives it back, also from the
  container padded with any number of zero bytes.
\<close>

theorem pack_unpack_padded:
  assumes "length img mod (BLOCK_SIZE * CHUNK_BLOCKS) = 0"
    and "length img div (BLOCK_SIZE * CHUNK_BLOCKS) < 2 ^ 32"
  shows "\<exists>out. pack img = Inr out \<and> (\<forall>pad. unpack (out @ replicate pad 0) = Inr img)"
  using pack_unpack [OF assms] by metis

theorem pack_unpack_padded_witness:
  "\<exists>out. pack (replicate 131072 (7::byte)) = Inr out
     \<and> (\<forall>pad. unpack (out @ replicate pad 0) = Inr (replicate 131072 7))"
  by (rule pack_unpack_padded) (simp_all add: BLOCK_SIZE_def CHUNK_BLOCKS_def)

subsection \<open>What follows the last chunk\<close>

lemma pslice_append_within: "j \<le> length xs \<Longrightarrow> pslice (xs @ ys) i j = pslice xs i j"
  by (simp add: pslice_def)

lemma unpack_le_append: "unpack_le w c at = Inr n \<Longrightarrow> unpack_le w (c @ t) at = Inr n \<and> at + w \<le> length c"
  by (auto simp: unpack_le_def pslice_append_within split: if_splits)

lemma unpack_chunk_append:
  assumes "unpack_chunk c s x = Inr s'"
  shows "unpack_chunk (c @ t) s x = Inr s' \<and> fst s' \<le> length c"
proof -
  obtain at img where s: "s = (at, img)" by (cases s)
  from assms s obtain present n where
    u: "unpack_le 8 c at = Inr present" "unpack_le 4 c (at + 8) = Inr n"
    and len: "length (pslice c (at + 12) (at + 12 + n)) = n"
    by (auto simp: unpack_chunk_def Let_def split: if_splits)
  have u': "unpack_le 8 (c @ t) at = Inr present" "unpack_le 4 (c @ t) (at + 8) = Inr n"
      "at + 12 \<le> length c"
    using unpack_le_append [OF u(1), of t] unpack_le_append [OF u(2), of t] by simp_all
  with len have le: "at + 12 + n \<le> length c" by simp
  then have "pslice (c @ t) (at + 12) (at + 12 + n) = pslice c (at + 12) (at + 12 + n)"
    by (rule pslice_append_within)
  then show ?thesis
    using assms s u u' len le by (auto simp: unpack_chunk_def Let_def split: if_splits)
qed

lemma unpack_chunks_append:
  "foldM (unpack_chunk c) s xs = Inr s' \<Longrightarrow> fst s \<le> length c \<Longrightarrow>
     foldM (unpack_chunk (c @ t)) s xs = Inr s' \<and> fst s' \<le> length c"
proof (induction xs arbitrary: s)
  case (Cons x xs)
  then obtain s1 where s1: "unpack_chunk c s x = Inr s1" "foldM (unpack_chunk c) s1 xs = Inr s'"
    by auto
  from unpack_chunk_append [OF s1(1), of t] Cons.IH [OF s1(2)] show ?case by simp
qed simp

text \<open>
  (C5) A container that unpacks still unpacks to the same image with bytes added
  after it when they are all zero, and is refused when one of them is not.
\<close>

theorem unpack_trailing:
  assumes "unpack c = Inr img"
  shows "unpack (c @ t) =
    (if list_all (\<lambda>b. b = 0) t then Inr img else Inl (Invalid ''nonzero bytes after the last chunk''))"
proof -
  from assms obtain n at where magic: "pslice c 0 4 = MAGIC"
    and u: "unpack_le 4 c 4 = Inr BLOCK_SIZE" "unpack_le 4 c 8 = Inr CHUNK_BLOCKS"
      "unpack_le 4 c 12 = Inr n"
    and f: "foldM (unpack_chunk c) (16, []) [0..<n] = Inr (at, img)"
    and z: "\<not> list_ex (\<lambda>b. b \<noteq> 0) (drop at c)"
    by (auto simp: unpack_def split: if_splits)
  have u': "unpack_le 4 (c @ t) 4 = Inr BLOCK_SIZE" "unpack_le 4 (c @ t) 8 = Inr CHUNK_BLOCKS"
    "unpack_le 4 (c @ t) 12 = Inr n" "16 \<le> length c"
    using unpack_le_append [OF u(1), of t] unpack_le_append [OF u(2), of t]
      unpack_le_append [OF u(3), of t] by simp_all
  have f': "foldM (unpack_chunk (c @ t)) (16, []) [0..<n] = Inr (at, img)" "at \<le> length c"
    using unpack_chunks_append [OF f, of t] u'(4) by simp_all
  have "pslice (c @ t) 0 4 = MAGIC" using magic u'(4) by (simp add: pslice_append_within)
  with u' f' z show ?thesis
    by (auto simp: unpack_def list_ex_iff list_all_iff)
qed

theorem unpack_trailing_witness:
  "unpack (MAGIC @ le_bytes 4 1024 @ le_bytes 4 64 @ le_bytes 4 0 @ [1])
     = Inl (Invalid ''nonzero bytes after the last chunk'')"
proof -
  have "unpack (MAGIC @ le_bytes 4 1024 @ le_bytes 4 64 @ le_bytes 4 0) = Inr []"
    by code_simp
  from unpack_trailing [OF this, of "[1]"] show ?thesis by simp
qed

subsection \<open>The commands\<close>

definition packable :: "byte list \<Rightarrow> bool" where
  "packable img \<longleftrightarrow> length img mod (BLOCK_SIZE * CHUNK_BLOCKS) = 0
     \<and> length img div (BLOCK_SIZE * CHUNK_BLOCKS) < 2 ^ 32"

definition packs_to :: "byte list \<Rightarrow> byte list \<Rightarrow> bool" where
  "packs_to img out \<longleftrightarrow> pack img = Inr out \<and> (\<forall>pad. unpack (out @ replicate pad 0) = Inr img)"

lemma mapM_pack:
  "\<forall>img\<in>set imgs. packable img \<Longrightarrow> \<exists>outs. mapM pack imgs = Inr outs \<and> list_all2 packs_to imgs outs"
proof (induction imgs)
  case (Cons img imgs)
  then obtain outs where outs: "mapM pack imgs = Inr outs" "list_all2 packs_to imgs outs" by auto
  from Cons.prems obtain out where out: "packs_to img out"
    using pack_unpack [of img] unfolding packable_def packs_to_def by (metis list.set_intros(1))
  then have "pack img = Inr out" by (simp add: packs_to_def)
  with outs out show ?case by (intro exI [of _ "out # outs"]) simp
qed simp

lemma decode_back_ok:
  "list_all2 packs_to imgs outs \<Longrightarrow>
     decode_back (zip imgs (map (\<lambda>out. out @ replicate (w - length out) 0) outs)) = Inr True"
  by (induction rule: list_all2_induct) (auto simp: packs_to_def)

text \<open>
  (C4) \<open>pack\<close> and \<open>pack-pair\<close> on images of whole chunks: the self-check never takes its
  \<open>does not decode back\<close> exit, the containers written all have the same length,
  and each decodes to its image.
\<close>

theorem pack_images_ok:
  assumes "imgs \<noteq> []" and "\<forall>img\<in>set imgs. packable img"
  shows "\<exists>outs w. pack_images imgs = Inr (Some outs)
           \<and> list_all2 (\<lambda>img out. unpack out = Inr img \<and> length out = w) imgs outs"
proof -
  obtain outs where outs: "mapM pack imgs = Inr outs" and all: "list_all2 packs_to imgs outs"
    using mapM_pack [OF assms(2)] by blast
  let ?w = "Max (set (map length outs))"
  let ?padded = "map (\<lambda>out. out @ replicate (?w - length out) 0) outs"
  have "pack_images imgs = Inr (Some ?padded)"
    using outs decode_back_ok [OF all] by (simp add: pack_images_def Let_def)
  moreover have "list_all2 (\<lambda>img out. unpack out = Inr img \<and> length out = ?w) imgs ?padded"
  proof -
    have "length out \<le> ?w" if "out \<in> set outs" for out using that by simp
    with all show ?thesis
      by (auto simp: list_all2_conv_all_nth packs_to_def)
  qed
  ultimately show ?thesis by blast
qed

theorem pack_images_ok_witness:
  "\<exists>outs w. pack_images [replicate 65536 (1::byte), replicate 131072 0] = Inr (Some outs)
     \<and> list_all2 (\<lambda>img out. unpack out = Inr img \<and> length out = w)
         [replicate 65536 1, replicate 131072 0] outs"
  by (rule pack_images_ok) (simp_all add: packable_def BLOCK_SIZE_def CHUNK_BLOCKS_def)

text \<open>The fixture's image is one of them.\<close>

lemma length_lcg_bytes [simp]: "length (lcg_bytes n state) = n"
  by (induction n arbitrary: state) (simp_all add: Let_def)

lemma length_assign_slice [simp]:
  "i + length bs \<le> length img \<Longrightarrow> length (assign_slice img i bs) = length img"
  by (simp add: assign_slice_def)

lemma length_fixture_text [simp]: "length fixture_text = 1800"
  by (simp add: fixture_text_def length_concat sum_list_replicate)

lemma fixture_image_packable: "packable (fst fixture_image)"
  by (simp add: packable_def fixture_image_def Let_def BLOCK_SIZE_def CHUNK_BLOCKS_def)

end
