(* ===== verification/Text.thy ===== *)
theory Text
  imports Bytes
begin

section \<open>Text\<close>

text \<open>
  What the scripts use of Python's \<open>str\<close>, on lists of code points: the ASCII
  codec, decimal and hexadecimal formatting, \<open>int(s)\<close> and
  \<open>int(s, 0)\<close>, \<open>isdigit\<close>, \<open>split\<close>, \<open>join\<close>, \<open>startswith\<close>, \<open>strip\<close> and
  \<open>partition\<close>.  The character classes are those of the Unicode tables the
  interpreter carries: \<open>decimal_starts\<close> lists the zeros of the decimal digit
  runs (category Nd, what \<open>\d\<close> matches), \<open>digit_extras\<close> the further
  characters \<open>str.isdigit\<close> accepts and \<open>int\<close> does not.
\<close>

subsection \<open>The ASCII codec\<close>

definition encode_ascii :: "pstr \<Rightarrow> py_error + byte list" where
  "encode_ascii s = (if list_all (\<lambda>c. c < 128) s then Inr (map of_nat s) else Inl UnicodeError)"

definition decode_ascii :: "byte list \<Rightarrow> py_error + pstr" where
  "decode_ascii bs = (if list_all (\<lambda>b. unat b < 128) bs then Inr (map unat bs) else Inl UnicodeError)"

text \<open>\<open>decode("ascii", "replace")\<close>: U+FFFD for a byte that is not ASCII.\<close>

definition decode_ascii_replace :: "byte list \<Rightarrow> pstr" where
  "decode_ascii_replace bs = map (\<lambda>b. if unat b < 128 then unat b else 65533) bs"

lemma map_unat_of_nat:
  "list_all (\<lambda>c. c < 128) s \<Longrightarrow> map (\<lambda>c. unat (of_nat c :: byte)) s = s"
  by (induction s) (auto simp: unat_of_nat)

lemma encode_ascii_Inr:
  "encode_ascii s = Inr bs \<longleftrightarrow> list_all (\<lambda>c. c < 128) s \<and> bs = map of_nat s"
  by (auto simp: encode_ascii_def)

lemma decode_encode_ascii: "encode_ascii s = Inr bs \<Longrightarrow> decode_ascii bs = Inr s"
  by (auto simp: encode_ascii_Inr decode_ascii_def list_all_iff unat_of_nat comp_def
      intro!: map_idI)

lemma decode_replace_encode_ascii: "encode_ascii s = Inr bs \<Longrightarrow> decode_ascii_replace bs = s"
  by (auto simp: encode_ascii_Inr decode_ascii_replace_def list_all_iff unat_of_nat comp_def
      intro!: map_idI)

lemma encode_ascii_nonzero:
  assumes "encode_ascii s = Inr bs" and "0 \<notin> set s"
  shows "0 \<notin> set bs"
proof
  assume "0 \<in> set bs"
  with assms(1) obtain c where c: "c \<in> set s" "c < 128" "of_nat c = (0 :: byte)"
    by (auto simp: encode_ascii_Inr list_all_iff)
  have "unat (of_nat c :: byte) = c" using c(2) by (simp add: unat_of_nat)
  with c(3) have "c = 0" by simp
  with c(1) assms(2) show False by simp
qed

subsection \<open>Character classes\<close>

definition decimal_starts :: "nat list" where
  "decimal_starts = [48, 1632, 1776, 1984, 2406, 2534, 2662, 2790, 2918, 3046, 3174, 3302, 3430,
     3558, 3664, 3792, 3872, 4160, 4240, 6112, 6160, 6470, 6608, 6784, 6800, 6992, 7088, 7232,
     7248, 42528, 43216, 43264, 43472, 43504, 43600, 44016, 65296, 66720, 68912, 69734, 69872,
     69942, 70096, 70384, 70736, 70864, 71248, 71360, 71472, 71904, 72016, 72784, 73040, 73120,
     92768, 92864, 93008, 120782, 120792, 120802, 120812, 120822, 123200, 123632, 125264, 130032]"

definition digit_extras :: "(nat \<times> nat) list" where
  "digit_extras = [(178, 179), (185, 185), (4969, 4977), (6618, 6618), (8304, 8304),
     (8308, 8313), (8320, 8329), (9312, 9320), (9332, 9340), (9352, 9360), (9450, 9450),
     (9461, 9469), (9471, 9471), (10102, 10110), (10112, 10120), (10122, 10130),
     (68160, 68163), (69216, 69224), (69714, 69722), (127232, 127242)]"

definition decimal_value :: "nat \<Rightarrow> nat option" where
  "decimal_value c = map_option (\<lambda>s. c - s) (find (\<lambda>s. s \<le> c \<and> c < s + 10) decimal_starts)"

definition is_decimal :: "nat \<Rightarrow> bool" where
  "is_decimal c \<longleftrightarrow> decimal_value c \<noteq> None"

definition isdigit_char :: "nat \<Rightarrow> bool" where
  "isdigit_char c \<longleftrightarrow> is_decimal c \<or> list_ex (\<lambda>(a, b). a \<le> c \<and> c \<le> b) digit_extras"

definition isdigit :: "pstr \<Rightarrow> bool" where
  "isdigit s \<longleftrightarrow> s \<noteq> [] \<and> list_all isdigit_char s"

definition isspace_char :: "nat \<Rightarrow> bool" where
  "isspace_char c \<longleftrightarrow> (9 \<le> c \<and> c \<le> 13) \<or> (28 \<le> c \<and> c \<le> 32) \<or> c = 133 \<or> c = 160 \<or> c = 5760
     \<or> (8192 \<le> c \<and> c \<le> 8202) \<or> c = 8232 \<or> c = 8233 \<or> c = 8239 \<or> c = 8287 \<or> c = 12288"

text \<open>A word character; \<open>uw\<close> is the table beyond ASCII.\<close>

definition is_word :: "(nat \<Rightarrow> bool) \<Rightarrow> nat \<Rightarrow> bool" where
  "is_word uw c \<longleftrightarrow> (48 \<le> c \<and> c \<le> 57) \<or> (65 \<le> c \<and> c \<le> 90) \<or> (97 \<le> c \<and> c \<le> 122) \<or> c = 95
     \<or> (128 \<le> c \<and> uw c)"

lemma decimal_value_bound: "decimal_value c = Some d \<Longrightarrow> d < 10"
  by (auto simp: decimal_value_def find_Some_iff)

lemma decimal_value_ascii: "d < 10 \<Longrightarrow> decimal_value (48 + d) = Some d"
  by (simp add: decimal_value_def decimal_starts_def)

lemma decimal_not_space: "is_decimal c \<Longrightarrow> \<not> isspace_char c"
  by (auto simp: is_decimal_def decimal_value_def find_None_iff decimal_starts_def isspace_char_def)

lemma decimal_value_latin:
  "c < 1632 \<Longrightarrow> decimal_value c = (if 48 \<le> c \<and> c \<le> 57 then Some (c - 48) else None)"
  by (auto simp: decimal_value_def decimal_starts_def)

lemma is_decimal_latin: "c < 1632 \<Longrightarrow> is_decimal c \<longleftrightarrow> 48 \<le> c \<and> c \<le> 57"
  by (simp add: is_decimal_def decimal_value_latin)

lemma isdigit_char_latin: "c < 178 \<Longrightarrow> isdigit_char c \<longleftrightarrow> 48 \<le> c \<and> c \<le> 57"
  by (simp add: isdigit_char_def is_decimal_latin digit_extras_def)

subsection \<open>Formatting of integers\<close>

function str_nat :: "nat \<Rightarrow> pstr" where
  "str_nat n = (if n < 10 then [48 + n] else str_nat (n div 10) @ [48 + n mod 10])"
  by auto
termination by (relation "measure id") auto

definition str_int :: "int \<Rightarrow> pstr" where
  "str_int v = (if v < 0 then 45 # str_nat (nat (- v)) else str_nat (nat v))"

definition hex_digit :: "nat \<Rightarrow> nat" where
  "hex_digit d = (if d < 10 then 48 + d else 87 + d)"

function hex_nat :: "nat \<Rightarrow> pstr" where
  "hex_nat n = (if n < 16 then [hex_digit n] else hex_nat (n div 16) @ [hex_digit (n mod 16)])"
  by auto
termination by (relation "measure id") auto

text \<open>The format \<open>#x\<close>.\<close>

definition hex_prefixed :: "nat \<Rightarrow> pstr" where
  "hex_prefixed n = u ''0x'' @ hex_nat n"

declare str_nat.simps [simp del] hex_nat.simps [simp del]

lemma str_nat_small: "n < 10 \<Longrightarrow> str_nat n = [48 + n]"
  by (simp add: str_nat.simps)

lemma str_nat_nonempty [simp]: "str_nat n \<noteq> []"
  by (subst str_nat.simps) simp

lemma str_nat_chars: "c \<in> set (str_nat n) \<Longrightarrow> 48 \<le> c \<and> c \<le> 57"
proof (induction n rule: str_nat.induct)
  case (1 n)
  then show ?case by (subst (asm) (2) str_nat.simps) (auto split: if_splits)
qed

lemma hex_nat_chars: "c \<in> set (hex_nat n) \<Longrightarrow> 48 \<le> c \<and> c < 103"
proof (induction n rule: hex_nat.induct)
  case (1 n)
  have d: "d < 16 \<Longrightarrow> 48 \<le> hex_digit d \<and> hex_digit d < 103" for d
    by (simp add: hex_digit_def)
  show ?case
  proof (cases "n < 16")
    case True
    then have "hex_nat n = [hex_digit n]" by (simp add: hex_nat.simps)
    with 1(2) d [OF True] show ?thesis by simp
  next
    case False
    then have "hex_nat n = hex_nat (n div 16) @ [hex_digit (n mod 16)]"
      by (simp add: hex_nat.simps [of n])
    with 1 False d [of "n mod 16"] show ?thesis by auto
  qed
qed

subsection \<open>\<open>int(s)\<close> and \<open>int(s, 0)\<close>\<close>

text \<open>
  White space around the number is dropped (but not U+001C to U+001F), one sign
  is taken, and single underscores may stand between digits.  With base 0 the
  prefix names the base, and a number that starts with 0 and has no prefix must
  be zero.
\<close>

definition int_space :: "nat \<Rightarrow> bool" where
  "int_space c \<longleftrightarrow> (9 \<le> c \<and> c \<le> 13) \<or> c = 32 \<or> (127 \<le> c \<and> isspace_char c)"

definition digit_value :: "nat \<Rightarrow> nat option" where
  "digit_value c = (if 97 \<le> c \<and> c \<le> 122 then Some (c - 87)
     else if 65 \<le> c \<and> c \<le> 90 then Some (c - 55) else decimal_value c)"

fun int_digits :: "nat \<Rightarrow> bool \<Rightarrow> nat \<Rightarrow> pstr \<Rightarrow> nat option" where
  "int_digits base after_digit acc [] = (if after_digit then Some acc else None)"
| "int_digits base after_digit acc (c # cs) =
     (if c = 95 then (if after_digit then int_digits base False acc cs else None)
      else case digit_value c of
             None \<Rightarrow> None
           | Some d \<Rightarrow> if d < base then int_digits base True (acc * base + d) cs else None)"

definition int_trim :: "pstr \<Rightarrow> pstr" where
  "int_trim s = rev (dropWhile int_space (rev (dropWhile int_space s)))"

definition int_sign :: "pstr \<Rightarrow> int \<times> pstr" where
  "int_sign s = (case s of [] \<Rightarrow> (1, []) | c # cs \<Rightarrow>
     if c = 43 then (1, cs) else if c = 45 then (- 1, cs) else (1, s))"

definition int_result :: "int \<Rightarrow> nat option \<Rightarrow> py_error + int" where
  "int_result sg r = (case r of
     None \<Rightarrow> Inl (ValueError (u ''invalid literal for int()'')) | Some n \<Rightarrow> Inr (sg * int n))"

definition py_int :: "pstr \<Rightarrow> py_error + int" where
  "py_int s = (case int_sign (int_trim s) of (sg, ds) \<Rightarrow> int_result sg (int_digits 10 False 0 ds))"

definition int_prefix_base :: "nat \<Rightarrow> nat option" where
  "int_prefix_base c = (if c \<in> {88, 120} then Some 16 else if c \<in> {79, 111} then Some 8
     else if c \<in> {66, 98} then Some 2 else None)"

fun int_base0 :: "pstr \<Rightarrow> nat option" where
  "int_base0 (z # p # ds) =
     (if decimal_value z = Some 0 then
        (case int_prefix_base p of
           Some base \<Rightarrow> int_digits base False 0 (case ds of [] \<Rightarrow> [] | c # cs \<Rightarrow> if c = 95 then cs else ds)
         | None \<Rightarrow> (case int_digits 10 False 0 (z # p # ds) of
                      Some n \<Rightarrow> if n = 0 then Some 0 else None | None \<Rightarrow> None))
      else int_digits 10 False 0 (z # p # ds))"
| "int_base0 ds = int_digits 10 False 0 ds"

definition py_int0 :: "pstr \<Rightarrow> py_error + int" where
  "py_int0 s = (case int_sign (int_trim s) of (sg, ds) \<Rightarrow> int_result sg (int_base0 ds))"

subsection \<open>Splitting, joining and trimming\<close>

text \<open>\<open>s.split()\<close>, with the word read so far.\<close>

fun split_loop :: "pstr \<Rightarrow> pstr \<Rightarrow> pstr list" where
  "split_loop cur [] = (if cur = [] then [] else [cur])"
| "split_loop cur (c # cs) =
     (if isspace_char c then (if cur = [] then [] else [cur]) @ split_loop [] cs
      else split_loop (cur @ [c]) cs)"

definition split_ws :: "pstr \<Rightarrow> pstr list" where
  "split_ws s = split_loop [] s"

text \<open>\<open>s.split(sep)\<close> for a separator of one element; also \<open>bytes.split\<close>.\<close>

fun split_on :: "'a \<Rightarrow> 'a list \<Rightarrow> 'a list list" where
  "split_on sep [] = [[]]"
| "split_on sep (c # cs) =
     (if c = sep then [] # split_on sep cs
      else case split_on sep cs of [] \<Rightarrow> [[c]] | w # ws \<Rightarrow> (c # w) # ws)"

text \<open>\<open>s.partition(c)\<close> for one character: before it and after it.\<close>

definition partition_at :: "nat \<Rightarrow> pstr \<Rightarrow> pstr \<times> pstr" where
  "partition_at c s = (let w = takeWhile (\<lambda>d. d \<noteq> c) s in (w, drop (length w + 1) s))"

fun join :: "pstr \<Rightarrow> pstr list \<Rightarrow> pstr" where
  "join sep [] = []"
| "join sep [x] = x"
| "join sep (x # y # xs) = x @ sep @ join sep (y # xs)"

definition startswith :: "pstr \<Rightarrow> pstr \<Rightarrow> bool" where
  "startswith s p \<longleftrightarrow> take (length p) s = p"

fun contains :: "pstr \<Rightarrow> pstr \<Rightarrow> bool" where
  "contains p [] \<longleftrightarrow> p = []"
| "contains p (c # cs) \<longleftrightarrow> startswith (c # cs) p \<or> contains p cs"

definition rstrip :: "nat list \<Rightarrow> pstr \<Rightarrow> pstr" where
  "rstrip chars s = rev (dropWhile (\<lambda>c. c \<in> set chars) (rev s))"

definition strip :: "nat list \<Rightarrow> pstr \<Rightarrow> pstr" where
  "strip chars s = rstrip chars (dropWhile (\<lambda>c. c \<in> set chars) s)"

lemma split_on_nonempty [simp]: "split_on sep cs \<noteq> []"
  by (cases cs) (auto split: list.splits)

lemma split_loop_words:
  "w \<in> set (split_loop cur s) \<Longrightarrow> list_all (\<lambda>c. \<not> isspace_char c) cur
     \<Longrightarrow> w \<noteq> [] \<and> list_all (\<lambda>c. \<not> isspace_char c) w"
  by (induction cur s rule: split_loop.induct) (auto split: if_splits)

lemma split_ws_words:
  "w \<in> set (split_ws s) \<Longrightarrow> w \<noteq> [] \<and> list_all (\<lambda>c. \<not> isspace_char c) w"
  using split_loop_words [of w "[]" s] by (simp add: split_ws_def)

text \<open>What \<open>str\<close> prints, \<open>int\<close> reads back.\<close>

lemma int_digits_append:
  "list_all (\<lambda>c. 48 \<le> c \<and> c \<le> 57) cs \<Longrightarrow>
   int_digits 10 b acc (cs @ ds) = int_digits 10 (b \<or> cs \<noteq> []) (foldl (\<lambda>a c. a * 10 + (c - 48)) acc cs) ds"
proof (induction cs arbitrary: b acc)
  case (Cons c cs)
  then have "c - 48 < 10" "48 + (c - 48) = c" by auto
  then have "digit_value c = Some (c - 48)"
    using decimal_value_ascii [of "c - 48"] Cons.prems by (auto simp: digit_value_def)
  with Cons show ?case by auto
qed simp

lemma str_nat_value: "foldl (\<lambda>a c. a * 10 + (c - 48)) 0 (str_nat n) = n"
proof (induction n rule: str_nat.induct)
  case (1 n)
  show ?case
  proof (cases "n < 10")
    case True
    then show ?thesis by (simp add: str_nat_small)
  next
    case False
    then have "str_nat n = str_nat (n div 10) @ [48 + n mod 10]" by (simp add: str_nat.simps [of n])
    with 1 False show ?thesis by simp
  qed
qed

lemma str_nat_digits: "list_all (\<lambda>c. 48 \<le> c \<and> c \<le> 57) (str_nat n)"
  using str_nat_chars by (auto simp: list_all_iff)

lemma int_digits_str_nat [simp]: "int_digits 10 False 0 (str_nat n) = Some n"
  using int_digits_append [OF str_nat_digits, of False 0 n "[]"] by (simp add: str_nat_value)

lemma int_trim_id:
  assumes "s \<noteq> []" and "\<not> int_space (hd s)" and "\<not> int_space (List.last s)"
  shows "int_trim s = s"
proof -
  have "dropWhile int_space s = s" using assms by (cases s) auto
  moreover have "dropWhile int_space (rev s) = rev s"
    using assms by (cases "rev s") (auto simp: last_rev hd_rev [symmetric])
  ultimately show ?thesis by (simp add: int_trim_def)
qed

lemma str_nat_not_space: "c \<in> set (str_nat n) \<Longrightarrow> \<not> int_space c"
  using str_nat_chars [of c n] by (auto simp: int_space_def)

lemma py_int_str_int [simp]: "py_int (str_int v) = Inr v"
proof -
  have ns: "\<not> int_space (hd (str_nat n))" "\<not> int_space (List.last (str_nat n))" for n
    using str_nat_not_space [of "hd (str_nat n)" n] str_nat_not_space [of "List.last (str_nat n)" n]
    by simp_all
  have hd: "48 \<le> hd (str_nat n) \<and> hd (str_nat n) \<le> 57" for n
    by (rule str_nat_chars [of _ n]) simp
  have "int_sign (str_nat n) = (1, str_nat n)" for n
    using hd [of n] by (cases "str_nat n") (auto simp: int_sign_def)
  moreover have "int_trim (str_nat n) = str_nat n" for n
    by (rule int_trim_id) (simp_all add: ns)
  moreover have "int_trim (45 # str_nat n) = 45 # str_nat n" for n
    by (rule int_trim_id) (simp_all add: ns int_space_def [of 45])
  ultimately show ?thesis
    by (simp add: str_int_def py_int_def int_result_def int_sign_def [of "45 # _"])
qed

end
