(* ===== verification/Fdt_Builder.thy ===== *)
theory Fdt_Builder
  imports Text
begin

section \<open>The device-tree builder\<close>

text \<open>
  The class \<open>Builder\<close> of \<open>scripts/make_fdt_fixture.py\<close>: the structure block,
  the strings block and the table of string offsets as a record, one definition
  per method, and the sequence of method calls a script makes as a list of
  \<open>fdt_call\<close> run by \<open>run_call\<close>.  The invariant \<open>builder_wf\<close> says that the
  structure block is word aligned and that every offset of the table points at
  its string; \<open>run_calls_struct\<close> gives the structure block as a function of the
  calls and the final offset table, which is what the reader is proved against.
\<close>

subsection \<open>The class\<close>

definition FDT_BEGIN_NODE :: nat where "FDT_BEGIN_NODE = 1"
definition FDT_END_NODE :: nat where "FDT_END_NODE = 2"
definition FDT_PROP :: nat where "FDT_PROP = 3"
definition FDT_END :: nat where "FDT_END = 9"

lemmas fdt_tokens = FDT_BEGIN_NODE_def FDT_END_NODE_def FDT_PROP_def FDT_END_def

record builder =
  struct_b :: "byte list"
  strings_b :: "byte list"
  offsets_b :: "pstr \<rightharpoonup> nat"

definition new_builder :: builder where
  "new_builder = \<lparr>struct_b = [], strings_b = [], offsets_b = Map.empty\<rparr>"

definition b_string :: "builder \<Rightarrow> pstr \<Rightarrow> py_error + (builder \<times> nat)" where
  "b_string b name = (case offsets_b b name of
     Some off \<Rightarrow> Inr (b, off)
   | None \<Rightarrow> bindR (encode_ascii name) (\<lambda>e.
       Inr (b\<lparr>offsets_b := (offsets_b b)(name \<mapsto> length (strings_b b)),
              strings_b := strings_b b @ e @ [0]\<rparr>, length (strings_b b))))"

function align_loop :: "byte list \<Rightarrow> byte list" where
  "align_loop s = (if length s mod 4 \<noteq> 0 then align_loop (s @ [0]) else s)"
  by auto
termination
proof (relation "measure (\<lambda>s. (4 - length s mod 4) mod 4)")
  show "(s @ [0], s) \<in> measure (\<lambda>s. (4 - length s mod 4) mod 4)" if "length s mod 4 \<noteq> 0" for s :: "byte list"
  proof -
    have "length s mod 4 = 1 \<or> length s mod 4 = 2 \<or> length s mod 4 = 3" using that by linarith
    then show ?thesis by (auto simp: mod_Suc)
  qed
qed simp

definition b_align :: "builder \<Rightarrow> builder" where
  "b_align b = b\<lparr>struct_b := align_loop (struct_b b)\<rparr>"

definition b_begin :: "builder \<Rightarrow> pstr \<Rightarrow> py_error + builder" where
  "b_begin b name =
     bindR (pack_be 4 (int FDT_BEGIN_NODE)) (\<lambda>token.
     bindR (encode_ascii name) (\<lambda>e.
     Inr (b_align (b\<lparr>struct_b := (struct_b b @ token) @ e @ [0]\<rparr>))))"

definition b_end :: "builder \<Rightarrow> py_error + builder" where
  "b_end b = bindR (pack_be 4 (int FDT_END_NODE)) (\<lambda>token. Inr (b\<lparr>struct_b := struct_b b @ token\<rparr>))"

definition b_prop :: "builder \<Rightarrow> pstr \<Rightarrow> byte list \<Rightarrow> py_error + builder" where
  "b_prop b name value =
     bindR (b_string b name) (\<lambda>(b1, off).
     bindR (pack_be 4 (int FDT_PROP)) (\<lambda>token.
     bindR (pack_be 4 (int (length value))) (\<lambda>len.
     bindR (pack_be 4 (int off)) (\<lambda>nameoff.
     Inr (b_align (b1\<lparr>struct_b := (struct_b b1 @ token @ len @ nameoff) @ value\<rparr>))))))"

definition b_cells :: "int list \<Rightarrow> py_error + byte list" where
  "b_cells values = bindR (mapM (pack_be 4) values) (\<lambda>ws. Inr (concat ws))"

definition b_finish :: "builder \<Rightarrow> (int \<times> int) list \<Rightarrow> py_error + byte list" where
  "b_finish b reservations =
     bindR (pack_be 4 (int FDT_END)) (\<lambda>token.
     let struct = struct_b b @ token; header_size = 40 in
     bindR (mapM (\<lambda>(address, size). bindR (pack_be 8 address) (\<lambda>a.
              bindR (pack_be 8 size) (\<lambda>s. Inr (a @ s)))) reservations) (\<lambda>rs.
     bindR (pack_be 8 0) (\<lambda>z.
     let reserve = concat rs @ z @ z;
         off_rsv = header_size;
         off_struct = off_rsv + length reserve;
         off_strings = off_struct + length struct;
         fullsize = off_strings + length (strings_b b) in
     bindR (mapM (\<lambda>v. pack_be 4 (int v))
              [0xD00DFEED, fullsize, off_struct, off_strings, off_rsv,
               17, 16, 0, length (strings_b b), length struct]) (\<lambda>header.
     Inr (concat header @ reserve @ struct @ strings_b b)))))"

subsection \<open>A script's calls\<close>

text \<open>
  The value of a property is a bytes literal or the cells of a list of integers;
  \<open>run_call\<close> is one call statement of a script that holds a builder.
\<close>

datatype fdt_value = Raw "byte list" | Cells "int list"

datatype fdt_call = BeginNode pstr | Property pstr fdt_value | EndNode

fun run_value :: "fdt_value \<Rightarrow> py_error + byte list" where
  "run_value (Raw bs) = Inr bs"
| "run_value (Cells vs) = b_cells vs"

fun run_call :: "builder \<Rightarrow> fdt_call \<Rightarrow> py_error + builder" where
  "run_call b (BeginNode name) = b_begin b name"
| "run_call b (Property name v) = bindR (run_value v) (\<lambda>value. b_prop b name value)"
| "run_call b EndNode = b_end b"

subsection \<open>Alignment\<close>

definition padding :: "nat \<Rightarrow> byte list" where
  "padding n = replicate ((4 - n mod 4) mod 4) 0"

lemma length_padding: "(n + length (padding n)) mod 4 = 0"
proof -
  have "n mod 4 = 0 \<or> n mod 4 = 1 \<or> n mod 4 = 2 \<or> n mod 4 = 3" by linarith
  then show ?thesis by (auto simp: padding_def) presburger+
qed

lemma padding_mod: "padding (m mod 4) = padding m"
  by (simp add: padding_def)

lemma padding_add: "m mod 4 = 0 \<Longrightarrow> padding (m + n) = padding n"
  by (simp add: padding_def mod_add_cong [of m 4 0 n n, simplified])

declare align_loop.simps [simp del]

lemma align_loop_padding: "align_loop s = s @ padding (length s)"
proof (induction s rule: align_loop.induct)
  case (1 s)
  show ?case
  proof (cases "length s mod 4 = 0")
    case True
    then show ?thesis by (simp add: align_loop.simps [of s] padding_def)
  next
    case False
    then have m: "length s mod 4 = 1 \<or> length s mod 4 = 2 \<or> length s mod 4 = 3" by linarith
    then have "[0] @ padding (Suc (length s)) = padding (length s)"
      by (auto simp: padding_def mod_Suc numeral_2_eq_2 numeral_3_eq_3)
    with 1 False show ?thesis by (simp add: align_loop.simps [of s])
  qed
qed

lemma length_align_loop: "length (align_loop s) mod 4 = 0"
  using length_padding [of "length s"] by (simp add: align_loop_padding)

subsection \<open>The invariant\<close>

definition name_at :: "byte list \<Rightarrow> nat \<Rightarrow> pstr \<Rightarrow> bool" where
  "name_at strings off name \<longleftrightarrow>
     (\<exists>pre e post. encode_ascii name = Inr e \<and> strings = pre @ e @ [0] @ post \<and> length pre = off)"

definition builder_wf :: "builder \<Rightarrow> bool" where
  "builder_wf b \<longleftrightarrow> length (struct_b b) mod 4 = 0
     \<and> (\<forall>name off. offsets_b b name = Some off \<longrightarrow> name_at (strings_b b) off name)"

lemma name_at_append: "name_at s off name \<Longrightarrow> name_at (s @ t) off name"
  unfolding name_at_def by fastforce

lemma new_builder_wf: "builder_wf new_builder"
  by (simp add: builder_wf_def new_builder_def)

lemma b_string_spec:
  assumes "builder_wf b" and "b_string b name = Inr (b', off)"
  shows "builder_wf b'" and "struct_b b' = struct_b b" and "offsets_b b \<subseteq>\<^sub>m offsets_b b'"
    and "offsets_b b' name = Some off"
proof -
  consider (old) "offsets_b b name = Some off" "b' = b"
    | (new) e where "offsets_b b name = None" "encode_ascii name = Inr e" "off = length (strings_b b)"
        "b' = b\<lparr>offsets_b := (offsets_b b)(name \<mapsto> length (strings_b b)), strings_b := strings_b b @ e @ [0]\<rparr>"
    using assms(2) by (auto simp: b_string_def split: option.splits)
  then have "builder_wf b' \<and> struct_b b' = struct_b b \<and> offsets_b b \<subseteq>\<^sub>m offsets_b b' \<and> offsets_b b' name = Some off"
  proof cases
    case new
    then have "name_at (strings_b b') (length (strings_b b)) name"
      unfolding name_at_def by (intro exI [of _ "strings_b b"] exI [of _ e] exI [of _ "[]"]) simp
    moreover have "name_at (strings_b b') o' n" if "offsets_b b n = Some o'" for n o'
      using that assms(1) new by (auto simp: builder_wf_def intro: name_at_append)
    ultimately show ?thesis
      using new assms(1) by (auto simp: builder_wf_def map_le_def dom_def)
  qed (use assms(1) in simp)
  then show "builder_wf b'" "struct_b b' = struct_b b" "offsets_b b \<subseteq>\<^sub>m offsets_b b'"
    "offsets_b b' name = Some off" by auto
qed

subsection \<open>The structure block as a function of the calls\<close>

definition value_of :: "fdt_value \<Rightarrow> byte list" where
  "value_of v = (case run_value v of Inl _ \<Rightarrow> [] | Inr bs \<Rightarrow> bs)"

definition padded :: "byte list \<Rightarrow> byte list" where
  "padded bs = bs @ padding (length bs)"

fun call_bytes :: "(pstr \<rightharpoonup> nat) \<Rightarrow> fdt_call \<Rightarrow> byte list" where
  "call_bytes offs (BeginNode name) = be_bytes 4 FDT_BEGIN_NODE @ padded (map of_nat name @ [0])"
| "call_bytes offs (Property name v) =
     be_bytes 4 FDT_PROP @ be_bytes 4 (length (value_of v)) @ be_bytes 4 (the (offs name)) @ padded (value_of v)"
| "call_bytes offs EndNode = be_bytes 4 FDT_END_NODE"

fun call_fits :: "(pstr \<rightharpoonup> nat) \<Rightarrow> fdt_call \<Rightarrow> bool" where
  "call_fits offs (BeginNode name) \<longleftrightarrow> list_all (\<lambda>c. c < 128) name"
| "call_fits offs (Property name v) \<longleftrightarrow>
     (\<exists>off. offs name = Some off \<and> off < 256 ^ 4) \<and> length (value_of v) < 256 ^ 4"
| "call_fits offs EndNode \<longleftrightarrow> True"

lemma aligned_12:
  "(m::nat) mod 4 = 0 \<Longrightarrow> (12 + m) mod 4 = 0" "m mod 4 = 0 \<Longrightarrow> (m + 12) mod 4 = 0"
  by presburger+

lemma length_padded: "length (padded bs) mod 4 = 0"
  using length_padding [of "length bs"] by (simp add: padded_def)

lemma length_call_bytes: "length (call_bytes offs c) mod 4 = 0"
proof (cases c)
  case (BeginNode name)
  then show ?thesis using length_padded [of "map of_nat name @ [0]"] by simp
next
  case (Property name v)
  then show ?thesis using length_padded [of "value_of v"] by (simp add: aligned_12)
qed simp

lemma align_after:
  "length s mod 4 = 0 \<Longrightarrow> align_loop (s @ t) = s @ padded t"
  by (simp add: align_loop_padding padded_def padding_add)

lemma call_bytes_mono: "offs \<subseteq>\<^sub>m offs' \<Longrightarrow> call_fits offs c \<Longrightarrow> call_bytes offs c = call_bytes offs' c"
  by (cases c) (auto simp: map_le_def dom_def)

lemma call_fits_mono: "offs \<subseteq>\<^sub>m offs' \<Longrightarrow> call_fits offs c \<Longrightarrow> call_fits offs' c"
proof (cases c)
  case (Property name v)
  assume "offs \<subseteq>\<^sub>m offs'" "call_fits offs c"
  then show ?thesis using Property by (auto simp: map_le_def dom_def)
qed simp_all

lemma run_call_spec:
  assumes wf: "builder_wf b" and run: "run_call b c = Inr b'"
  shows "builder_wf b' \<and> offsets_b b \<subseteq>\<^sub>m offsets_b b' \<and> call_fits (offsets_b b') c
    \<and> struct_b b' = struct_b b @ call_bytes (offsets_b b') c"
proof (cases c)
  case (BeginNode name)
  with run obtain t e where t: "pack_be 4 (int FDT_BEGIN_NODE) = Inr t" and e: "encode_ascii name = Inr e"
    and b': "b' = b_align (b\<lparr>struct_b := (struct_b b @ t) @ e @ [0]\<rparr>)"
    by (auto simp: b_begin_def)
  have "t = be_bytes 4 FDT_BEGIN_NODE" using t by (simp add: pack_be_Inr)
  moreover have "length (struct_b b @ t) mod 4 = 0"
    using wf t by (simp add: builder_wf_def pack_be_Inr)
  moreover have "length (padded (e @ [0])) mod 4 = 0" by (rule length_padded)
  ultimately show ?thesis
    using wf e b' BeginNode align_after [of "struct_b b @ t" "e @ [0]"] length_align_loop
    by (auto simp: b_align_def builder_wf_def encode_ascii_Inr)
next
  case (Property name v)
  with run obtain bs b1 off t l n where v: "run_value v = Inr bs" and s: "b_string b name = Inr (b1, off)"
    and t: "pack_be 4 (int FDT_PROP) = Inr t" and l: "pack_be 4 (int (length bs)) = Inr l"
    and n: "pack_be 4 (int off) = Inr n"
    and b': "b' = b_align (b1\<lparr>struct_b := (struct_b b1 @ t @ l @ n) @ bs\<rparr>)"
    by (auto simp: b_prop_def split_beta)
  note spec = b_string_spec [OF wf s]
  have eqs: "t = be_bytes 4 FDT_PROP" "l = be_bytes 4 (length bs)" "n = be_bytes 4 off" "length bs < 256 ^ 4"
    "off < 256 ^ 4" using t l n by (auto simp: pack_be_Inr)
  then have "length (struct_b b1 @ t @ l @ n) mod 4 = 0"
    using spec(1) by (simp add: builder_wf_def aligned_12)
  then have "struct_b b' = (struct_b b1 @ t @ l @ n) @ padded bs"
    using b' align_after [of "struct_b b1 @ t @ l @ n" bs] by (simp add: b_align_def)
  moreover have "length (struct_b b') mod 4 = 0"
    using b' length_align_loop by (simp add: b_align_def)
  moreover have "offsets_b b' = offsets_b b1" "strings_b b' = strings_b b1"
    using b' by (simp_all add: b_align_def)
  ultimately show ?thesis
    using spec eqs v Property by (auto simp: builder_wf_def value_of_def)
next
  case EndNode
  with run wf show ?thesis by (auto simp: b_end_def pack_be_Inr builder_wf_def)
qed

interpretation builder: step_invariant run_call builder_wf
  by unfold_locales (use run_call_spec in blast)

lemma run_calls_struct:
  assumes "builder_wf b" and "foldM run_call b cs = Inr b'"
  shows "offsets_b b \<subseteq>\<^sub>m offsets_b b' \<and> list_all (call_fits (offsets_b b')) cs
    \<and> struct_b b' = struct_b b @ concat (map (call_bytes (offsets_b b')) cs)"
  using assms
proof (induction cs arbitrary: b)
  case (Cons c cs)
  then obtain b1 where c: "run_call b c = Inr b1" and cs: "foldM run_call b1 cs = Inr b'" by auto
  note one = run_call_spec [OF Cons.prems(1) c]
  note rest = Cons.IH [OF _ cs]
  have "builder_wf b1" using one by blast
  with one rest call_bytes_mono [of "offsets_b b1" "offsets_b b'" c] call_fits_mono [of "offsets_b b1" "offsets_b b'" c]
  show ?case by (auto intro: map_le_trans)
qed simp

end
