(* ===== verification/Fdt_Reader.thy ===== *)
theory Fdt_Reader
  imports Fdt_Builder "HOL-Library.AList"
begin

unbundle bit_operations_syntax

section \<open>The device-tree reader and the IOMMU report\<close>

text \<open>
  \<open>parse_fdt\<close>, \<open>cells\<close>, \<open>text_list\<close> and \<open>report\<close> of
  \<open>scripts/rpi5_dtb_iommu_report.py\<close>.  The reader's list of nodes and its stack
  share the property dictionaries, so the stack holds indices into the list of
  nodes.  \<open>tree_step\<close> is what a sequence of builder calls means as a tree;
  \<open>parse_calls\<close> proves that the reader, run over the structure block of
  any calls, computes it, and the properties carry that through the header and
  the strings block.
\<close>

subsection \<open>The reader\<close>

type_synonym fdt_node = "pstr \<times> (pstr \<rightharpoonup> byte list)"

definition FDT_MAGIC :: nat where "FDT_MAGIC = 0xD00DFEED"

text \<open>\<open>buf.index(b, start)\<close> and \<open>x & ~3\<close>.\<close>

definition bytes_index :: "byte list \<Rightarrow> byte \<Rightarrow> nat \<Rightarrow> py_error + nat" where
  "bytes_index buf b start =
     (let k = length (takeWhile (\<lambda>x. x \<noteq> b) (drop start buf)) in
      if start + k < length buf then Inr (start + k) else Inl (ValueError (u ''subsection not found'')))"

definition align_down :: "nat \<Rightarrow> nat" where
  "align_down x = nat (int x AND NOT 3)"

definition open_node :: "fdt_node list \<Rightarrow> nat list \<Rightarrow> pstr \<Rightarrow> fdt_node list \<times> nat list" where
  "open_node nodes stack name =
     (let path = (case stack of [] \<Rightarrow> u ''/''
                  | tip # _ \<Rightarrow> rstrip (u ''/'') (fst (nodes ! tip)) @ u ''/'' @ name) in
      (nodes @ [(path, Map.empty)], length nodes # stack))"

definition set_prop :: "fdt_node list \<Rightarrow> nat list \<Rightarrow> pstr \<Rightarrow> byte list \<Rightarrow> py_error + fdt_node list" where
  "set_prop nodes stack pname value =
     (case stack of [] \<Rightarrow> Inl IndexError
      | tip # _ \<Rightarrow> Inr (nodes[tip := (fst (nodes ! tip), (snd (nodes ! tip))(pname \<mapsto> value))]))"

definition close_node :: "nat list \<Rightarrow> py_error + nat list" where
  "close_node stack = (case stack of [] \<Rightarrow> Inl IndexError | _ # rest \<Rightarrow> Inr rest)"

lemma align_down_eq: "align_down x = x - x mod 4"
proof -
  have m: "(3 :: int) = mask 2" by (simp add: mask_eq_exp_minus_1)
  have "int x AND NOT 3 = push_bit 2 (drop_bit 2 (int x))"
    unfolding m
    by (rule bit_eqI) (auto simp only: bit_and_iff bit_not_iff bit_mask_iff bit_push_bit_iff bit_drop_bit_eq
        comp_def le_add_diff_inverse not_less possible_bit_int)
  also have "\<dots> = int (x div 4 * 4)"
    by (simp add: push_bit_eq_mult drop_bit_eq_div zdiv_int)
  finally show ?thesis by (simp add: align_down_def minus_mod_eq_div_mult)
qed

lemma align_down_above: "m + 3 \<le> x \<Longrightarrow> m \<le> align_down x"
  unfolding align_down_eq using mod_less_divisor [of 4 x] by linarith

lemma bytes_index_Inr: "bytes_index buf b start = Inr k \<Longrightarrow> start \<le> k \<and> k < length buf"
  by (auto simp: bytes_index_def Let_def split: if_splits)

function parse_loop ::
  "byte list \<Rightarrow> byte list \<Rightarrow> fdt_node list \<Rightarrow> nat list \<Rightarrow> nat \<Rightarrow> py_error + fdt_node list" where
  "parse_loop blob strings nodes stack pos =
     bindR (unpack_be 4 blob pos) (\<lambda>token.
       if token = 1 then
         bindR (bytes_index blob 0 (pos + 4)) (\<lambda>stop.
           let name = decode_ascii_replace (pslice blob (pos + 4) stop);
               (nodes', stack') = open_node nodes stack name in
           parse_loop blob strings nodes' stack' (align_down (stop + 4)))
       else if token = 2 then
         bindR (close_node stack) (\<lambda>stack'. parse_loop blob strings nodes stack' (pos + 4))
       else if token = 3 then
         bindR (unpack_be 4 blob (pos + 4)) (\<lambda>len.
         bindR (unpack_be 4 blob (pos + 8)) (\<lambda>nameoff.
           let value = pslice blob (pos + 12) (pos + 12 + len) in
           bindR (bytes_index strings 0 nameoff) (\<lambda>stop.
           bindR (decode_ascii (pslice strings nameoff stop)) (\<lambda>pname.
           bindR (set_prop nodes stack pname value) (\<lambda>nodes'.
             parse_loop blob strings nodes' stack (align_down (pos + 12 + len + 3)))))))
       else if token = 4 then parse_loop blob strings nodes stack (pos + 4)
       else if token = 9 then Inr nodes
       else Inl (ValueError (u ''bad FDT token '' @ str_nat token @ u '' at '' @ str_nat pos)))"
  by auto
termination
proof (relation "measure (\<lambda>(blob, _, _, _, pos). length blob - pos)", goal_cases)
  case (2 blob strings nodes stack pos token stop)
  then have "pos + 4 \<le> stop" "stop < length blob" using bytes_index_Inr by force+
  moreover have "stop + 1 \<le> align_down (stop + 4)" by (rule align_down_above) simp
  ultimately show ?case by simp
next
  case (4 blob strings nodes stack pos token len nameoff)
  then have "pos + 4 \<le> length blob" by (auto simp: unpack_be_def split: if_splits)
  moreover have "pos + 12 + len \<le> align_down (pos + 12 + len + 3)" by (rule align_down_above) simp
  ultimately show ?case by simp
qed (auto simp: unpack_be_def split: if_splits)

definition parse_fdt :: "byte list \<Rightarrow> py_error + fdt_node list" where
  "parse_fdt blob =
     bindR (unpack_be 4 blob 0) (\<lambda>magic.
     bindR (unpack_be 4 blob 4) (\<lambda>fullsize.
     bindR (unpack_be 4 blob 8) (\<lambda>off_struct.
     bindR (unpack_be 4 blob 12) (\<lambda>off_strings.
       if magic \<noteq> FDT_MAGIC then
         Inl (ValueError (u ''not an FDT (magic '' @ hex_prefixed magic @ u '')''))
       else if length blob < fullsize then
         Inl (ValueError (u ''truncated FDT: header says '' @ str_nat fullsize
           @ u '' bytes, have '' @ str_nat (length blob)))
       else parse_loop blob (drop off_strings blob) [] [] off_struct))))"

subsection \<open>What a sequence of calls means\<close>

fun tree_step :: "fdt_node list \<times> nat list \<Rightarrow> fdt_call \<Rightarrow> py_error + fdt_node list \<times> nat list" where
  "tree_step (nodes, stack) (BeginNode name) = Inr (open_node nodes stack name)"
| "tree_step (nodes, stack) (Property name v) =
     bindR (set_prop nodes stack name (value_of v)) (\<lambda>nodes'. Inr (nodes', stack))"
| "tree_step (nodes, stack) EndNode = bindR (close_node stack) (\<lambda>stack'. Inr (nodes, stack'))"

definition tree_nodes :: "fdt_call list \<Rightarrow> py_error + fdt_node list" where
  "tree_nodes cs = bindR (foldM tree_step ([], []) cs) (\<lambda>(nodes, stack). Inr nodes)"

fun nul_free :: "fdt_call \<Rightarrow> bool" where
  "nul_free (BeginNode name) \<longleftrightarrow> 0 \<notin> set name"
| "nul_free (Property name v) \<longleftrightarrow> 0 \<notin> set name"
| "nul_free EndNode \<longleftrightarrow> True"

declare parse_loop.simps [simp del]

lemma align_down_padding:
  assumes "p mod 4 = 0"
  shows "align_down (p + m + 3) = p + m + length (padding m)"
proof -
  define r where "r = m mod 4"
  have pm: "p + m + 3 = 4 * (p div 4 + m div 4) + (r + 3)"
    using assms mult_div_mod_eq [of 4 p] mult_div_mod_eq [of 4 m] unfolding r_def by presburger
  then have md: "(p + m + 3) mod 4 = (r + 3) mod 4" by (metis mod_mult_self4)
  have "r = 0 \<or> r = 1 \<or> r = 2 \<or> r = 3" unfolding r_def by linarith
  then have "(r + 3) mod 4 + length (padding m) = 3"
    by (auto simp: padding_def simp flip: r_def)
  then show ?thesis unfolding align_down_eq md by linarith
qed

lemma bytes_index_at:
  assumes "b \<notin> set e" and "length pre = i"
  shows "bytes_index (pre @ e @ b # post) b i = Inr (i + length e)"
proof -
  have "takeWhile (\<lambda>x. x \<noteq> b) (e @ b # post) = e"
    using assms(1) by (auto simp: takeWhile_tail takeWhile_append)
  then show ?thesis using assms(2) by (auto simp: bytes_index_def)
qed

lemma name_at_read:
  assumes "name_at strings off name" and "0 \<notin> set name"
  shows "\<exists>stop. bytes_index strings 0 off = Inr stop \<and> decode_ascii (pslice strings off stop) = Inr name"
proof -
  obtain pre e post where e: "encode_ascii name = Inr e" and s: "strings = pre @ e @ [0] @ post"
    and off: "length pre = off" using assms(1) by (auto simp: name_at_def)
  have "0 \<notin> set e" using encode_ascii_nonzero [OF e assms(2)] .
  then have "bytes_index strings 0 off = Inr (off + length e)"
    using bytes_index_at [of 0 e pre off post] off s by simp
  moreover have "pslice strings off (off + length e) = e"
    using pslice_mid [OF off, of e "[0] @ post"] s by simp
  ultimately show ?thesis using decode_encode_ascii [OF e] by simp
qed

lemma parse_begin:
  assumes blob: "blob = pre @ call_bytes offs (BeginNode name) @ post"
    and pre: "length pre mod 4 = 0" and fits: "list_all (\<lambda>c. c < 128) name" and nul: "0 \<notin> set name"
  shows "parse_loop blob strings nodes stack (length pre)
    = (case open_node nodes stack name of (nodes', stack') \<Rightarrow>
        parse_loop blob strings nodes' stack' (length (pre @ call_bytes offs (BeginNode name))))"
proof -
  define e :: "byte list" where "e = map of_nat name"
  define pad where "pad = padding (Suc (length e))"
  have enc: "encode_ascii name = Inr e" using fits by (simp add: encode_ascii_def e_def)
  have b1: "blob = pre @ be_bytes 4 FDT_BEGIN_NODE @ (e @ [0] @ pad @ post)"
    unfolding blob by (simp add: padded_def e_def pad_def)
  have b2: "blob = (pre @ be_bytes 4 FDT_BEGIN_NODE) @ e @ 0 # (pad @ post)"
    unfolding b1 by simp
  have tok: "unpack_be 4 blob (length pre) = Inr 1"
    unfolding b1 using unpack_be_at [of FDT_BEGIN_NODE 4 pre "length pre"] by (simp add: FDT_BEGIN_NODE_def)
  have idx: "bytes_index blob 0 (length pre + 4) = Inr (length pre + 4 + length e)"
    unfolding b2 by (rule bytes_index_at) (use encode_ascii_nonzero [OF enc nul] in simp_all)
  have name: "decode_ascii_replace (pslice blob (length pre + 4) (length pre + 4 + length e)) = name"
    unfolding b2 by (subst pslice_mid) (simp_all add: decode_replace_encode_ascii [OF enc])
  have len: "align_down (length pre + 4 + length e + 4) = length (pre @ call_bytes offs (BeginNode name))"
    using align_down_padding [of "length pre + 4" "Suc (length e)"] pre
    by (simp add: padded_def e_def pad_def)
  show ?thesis
    by (subst parse_loop.simps) (simp add: tok idx name len [simplified] Let_def split_beta)
qed

lemma parse_prop:
  assumes blob: "blob = pre @ call_bytes offs (Property name v) @ post"
    and pre: "length pre mod 4 = 0" and fits: "call_fits offs (Property name v)" and nul: "0 \<notin> set name"
    and at: "\<And>off. offs name = Some off \<Longrightarrow> name_at strings off name"
  shows "parse_loop blob strings nodes stack (length pre)
    = bindR (set_prop nodes stack name (value_of v)) (\<lambda>nodes'.
        parse_loop blob strings nodes' stack (length (pre @ call_bytes offs (Property name v))))"
proof -
  define val where "val = value_of v"
  obtain off where off: "offs name = Some off" "off < 256 ^ 4" and vl: "length val < 256 ^ 4"
    using fits by (auto simp: val_def)
  have b0: "blob = pre @ be_bytes 4 FDT_PROP @ (be_bytes 4 (length val) @ be_bytes 4 off @ padded val @ post)"
    unfolding blob using off by (simp add: val_def)
  have b1: "blob = (pre @ be_bytes 4 FDT_PROP) @ be_bytes 4 (length val) @ (be_bytes 4 off @ padded val @ post)"
    unfolding b0 by simp
  have b2: "blob = (pre @ be_bytes 4 FDT_PROP @ be_bytes 4 (length val)) @ be_bytes 4 off @ (padded val @ post)"
    unfolding b0 by simp
  have b3: "blob = (pre @ be_bytes 4 FDT_PROP @ be_bytes 4 (length val) @ be_bytes 4 off) @ val @ (padding (length val) @ post)"
    unfolding b0 by (simp add: padded_def)
  have tok: "unpack_be 4 blob (length pre) = Inr 3"
    unfolding b0 using unpack_be_at [of FDT_PROP 4 pre "length pre"] by (simp add: FDT_PROP_def)
  have len: "unpack_be 4 blob (length pre + 4) = Inr (length val)"
    unfolding b1 by (rule unpack_be_at) (use vl in simp_all)
  have noff: "unpack_be 4 blob (length pre + 8) = Inr off"
    unfolding b2 by (rule unpack_be_at) (use off in simp_all)
  have vsl: "pslice blob (length pre + 12) (length pre + 12 + length val) = val"
    unfolding b3 by (rule pslice_mid) simp
  obtain stop where stop: "bytes_index strings 0 off = Inr stop"
    "decode_ascii (pslice strings off stop) = Inr name"
    using name_at_read [OF at [OF off(1)] nul] by blast
  have nxt: "align_down (length pre + 12 + length val + 3) = length (pre @ call_bytes offs (Property name v))"
    using align_down_padding [of "length pre + 12" "length val"] aligned_12(2) [OF pre]
    by (simp add: padded_def val_def)
  show ?thesis
    by (subst parse_loop.simps)
       (simp add: tok len noff vsl stop nxt [simplified] Let_def flip: val_def)
qed

lemma parse_end:
  assumes blob: "blob = pre @ call_bytes offs EndNode @ post"
  shows "parse_loop blob strings nodes stack (length pre)
    = bindR (close_node stack) (\<lambda>stack'.
        parse_loop blob strings nodes stack' (length (pre @ call_bytes offs EndNode)))"
proof -
  have tok: "unpack_be 4 blob (length pre) = Inr 2"
    unfolding blob using unpack_be_at [of FDT_END_NODE 4 pre "length pre"] by (simp add: FDT_END_NODE_def)
  show ?thesis by (subst parse_loop.simps) (simp add: tok)
qed

lemma parse_finish:
  assumes blob: "blob = pre @ be_bytes 4 FDT_END @ post"
  shows "parse_loop blob strings nodes stack (length pre) = Inr nodes"
proof -
  have tok: "unpack_be 4 blob (length pre) = Inr 9"
    unfolding blob using unpack_be_at [of FDT_END 4 pre "length pre"] by (simp add: FDT_END_def)
  show ?thesis by (subst parse_loop.simps) (simp add: tok)
qed

lemma parse_calls:
  assumes "blob = pre @ concat (map (call_bytes offs) cs) @ be_bytes 4 FDT_END @ post"
    and "length pre mod 4 = 0" and "list_all (call_fits offs) cs" and "list_all nul_free cs"
    and "\<And>name off. offs name = Some off \<Longrightarrow> name_at strings off name"
  shows "parse_loop blob strings nodes stack (length pre)
    = bindR (foldM tree_step (nodes, stack) cs) (\<lambda>(nodes', stack'). Inr nodes')"
  using assms
proof (induction cs arbitrary: pre nodes stack)
  case Nil
  then show ?case using parse_finish by simp
next
  case (Cons c cs)
  let ?pre = "pre @ call_bytes offs c" and ?post = "concat (map (call_bytes offs) cs) @ be_bytes 4 FDT_END @ post"
  have blob: "blob = pre @ call_bytes offs c @ ?post" using Cons.prems(1) by simp
  have "length ?pre mod 4 = 0"
    using Cons.prems(2) length_call_bytes [of offs c] by (simp add: mod_add_cong [of _ 4 0 _ 0, simplified])
  then have IH: "parse_loop blob strings nodes' stack' (length ?pre)
      = bindR (foldM tree_step (nodes', stack') cs) (\<lambda>(n, s). Inr n)" for nodes' stack'
    using Cons.IH [of ?pre nodes' stack'] Cons.prems by simp
  show ?case
  proof (cases c)
    case (BeginNode name)
    then show ?thesis
      using parse_begin [of blob pre offs name ?post strings nodes stack] blob Cons.prems IH
      by (cases "open_node nodes stack name") simp
  next
    case (Property name v)
    then show ?thesis
      using parse_prop [of blob pre offs name v ?post strings nodes stack] blob Cons.prems IH
      by (simp add: bindR_assoc)
  next
    case EndNode
    then show ?thesis
      using parse_end [of blob pre offs ?post strings nodes stack] blob Cons.prems IH
      by (simp add: bindR_assoc)
  qed
qed

subsection \<open>The header\<close>

definition build :: "fdt_call list \<Rightarrow> (int \<times> int) list \<Rightarrow> py_error + byte list" where
  "build cs reservations = bindR (foldM run_call new_builder cs) (\<lambda>b. b_finish b reservations)"

lemma mapM_pack_be_4:
  "mapM (\<lambda>v. pack_be 4 (int v)) vs = Inr ws \<Longrightarrow> list_all (\<lambda>v. v < 256 ^ 4) vs \<and> ws = map (be_bytes 4) vs"
  by (induction vs arbitrary: ws) (auto simp: pack_be_Inr)

lemma unpack_be_words:
  assumes "i < length vs" and "vs ! i < 256 ^ 4"
  shows "unpack_be 4 (concat (map (be_bytes 4) vs) @ post) (4 * i) = Inr (vs ! i)"
proof -
  have vs: "vs = take i vs @ vs ! i # drop (Suc i) vs" using assms(1) by (rule id_take_nth_drop)
  have "length (concat (map (be_bytes 4) us)) = 4 * length us" for us
    by (induction us) auto
  then have len: "length (concat (map (be_bytes 4) (take i vs))) = 4 * i" using assms(1) by simp
  have "concat (map (be_bytes 4) vs) @ post = concat (map (be_bytes 4) (take i vs)) @ be_bytes 4 (vs ! i)
      @ (concat (map (be_bytes 4) (drop (Suc i) vs)) @ post)"
    by (subst vs) simp
  then show ?thesis using unpack_be_at [OF assms(2) len] by simp
qed

lemma finish_layout:
  assumes "b_finish b rs = Inr blob"
  shows "\<exists>pre. blob = pre @ struct_b b @ be_bytes 4 FDT_END @ strings_b b \<and> length pre mod 4 = 0
    \<and> unpack_be 4 blob 0 = Inr FDT_MAGIC \<and> unpack_be 4 blob 4 = Inr (length blob)
    \<and> unpack_be 4 blob 8 = Inr (length pre)
    \<and> unpack_be 4 blob 12 = Inr (length pre + length (struct_b b) + 4)"
proof -
  let ?res = "mapM (\<lambda>(address, size). bindR (pack_be 8 address) (\<lambda>a. bindR (pack_be 8 size) (\<lambda>s. Inr (a @ s)))) rs"
  obtain rws where rws: "?res = Inr rws" using assms by (auto simp: b_finish_def Let_def)
  define reserve where "reserve = concat rws @ be_bytes 8 0 @ be_bytes 8 0"
  define struct where "struct = struct_b b @ be_bytes 4 FDT_END"
  define fields where "fields = [0xD00DFEED, 40 + length reserve + length struct + length (strings_b b),
    40 + length reserve, 40 + length reserve + length struct, 40, 17, 16, 0, length (strings_b b), length struct]"
  obtain ws where ws: "mapM (\<lambda>v. pack_be 4 (int v)) fields = Inr ws"
    and blob: "blob = concat ws @ reserve @ struct @ strings_b b"
    using assms rws pack_be_ok [of FDT_END 4] pack_be_ok [of 0 8]
    by (auto simp: b_finish_def Let_def reserve_def struct_def fields_def FDT_END_def)
  note words = mapM_pack_be_4 [OF ws]
  have "length (concat (map (be_bytes 4) us)) = 4 * length us" for us
    by (induction us) auto
  then have len_ws: "length (concat ws) = 40" using words by (simp only:) (simp add: fields_def)
  have "length w = 16" if "w \<in> set rws" for w
    using rws that
    by (induction rs arbitrary: rws) (auto simp: pack_be_def split: if_splits)
  then have "length (concat rws) = 16 * length rws"
    by (induction rws) auto
  then have res: "length reserve mod 4 = 0" by (simp add: reserve_def)
  have nf: "length fields = 10" by (simp add: fields_def)
  have field: "unpack_be 4 blob (4 * i) = Inr (fields ! i)" if "i < 10" for i
  proof -
    have "fields ! i < 256 ^ 4" using words that nf by (auto simp only: list_all_length)
    with unpack_be_words [of i fields "reserve @ struct @ strings_b b"] that nf words
    show ?thesis by (simp add: blob)
  qed
  let ?pre = "concat ws @ reserve"
  have "blob = ?pre @ struct_b b @ be_bytes 4 FDT_END @ strings_b b" by (simp add: blob struct_def)
  moreover have "length ?pre mod 4 = 0" using res len_ws by simp presburger
  moreover have "length blob = 40 + length reserve + length struct + length (strings_b b)"
    using len_ws by (simp add: blob)
  moreover have "fields ! 0 = FDT_MAGIC" "fields ! 1 = length blob" "fields ! 2 = length ?pre"
    "fields ! 3 = length ?pre + length (struct_b b) + 4"
    using calculation(3) len_ws by (simp_all add: fields_def FDT_MAGIC_def struct_def)
  moreover have "unpack_be 4 blob 0 = Inr (fields ! 0)" "unpack_be 4 blob 4 = Inr (fields ! 1)"
    "unpack_be 4 blob 8 = Inr (fields ! 2)" "unpack_be 4 blob 12 = Inr (fields ! 3)"
    using field [of 0] field [of 1] field [of 2] field [of 3] by simp_all
  ultimately show ?thesis by (intro exI [of _ ?pre] conjI) (simp_all only:)
qed

lemma build_parse:
  assumes "build cs rs = Inr blob" and "list_all nul_free cs"
  shows "parse_fdt blob = tree_nodes cs"
proof -
  obtain b where b: "foldM run_call new_builder cs = Inr b" and fin: "b_finish b rs = Inr blob"
    using assms(1) unfolding build_def by (rule bindR_InrE)
  note run = run_calls_struct [OF new_builder_wf b]
  obtain pre where blob: "blob = pre @ struct_b b @ be_bytes 4 FDT_END @ strings_b b"
    and pre: "length pre mod 4 = 0" and hdr: "unpack_be 4 blob 0 = Inr FDT_MAGIC"
      "unpack_be 4 blob 4 = Inr (length blob)" "unpack_be 4 blob 8 = Inr (length pre)"
      "unpack_be 4 blob 12 = Inr (length pre + length (struct_b b) + 4)"
    using finish_layout [OF fin] by (elim exE conjE) (rule that)
  have struct: "struct_b b = concat (map (call_bytes (offsets_b b)) cs)"
    using run by (simp add: new_builder_def)
  have strings: "drop (length pre + length (struct_b b) + 4) blob = strings_b b"
    by (simp add: blob)
  have "builder_wf b" using builder.foldM_inv [OF new_builder_wf b] .
  then have at: "\<And>name off. offsets_b b name = Some off \<Longrightarrow> name_at (strings_b b) off name"
    by (simp add: builder_wf_def)
  have fits: "list_all (call_fits (offsets_b b)) cs" using run by blast
  have "parse_loop blob (strings_b b) [] [] (length pre)
      = bindR (foldM tree_step ([], []) cs) (\<lambda>(nodes, stack). Inr nodes)"
    by (rule parse_calls [OF blob [unfolded struct] pre fits assms(2) at])
  then show ?thesis by (simp add: parse_fdt_def hdr strings tree_nodes_def)
qed

subsection \<open>Trees\<close>

text \<open>
  A device tree, the calls that write it, and the listing of its nodes the
  reader is to return: every node in tree order with its full path, and of two
  properties with one name the later.
\<close>

datatype dtree = DT (dt_name: pstr) (dt_props: "(pstr \<times> fdt_value) list") (dt_kids: "dtree list")

abbreviation prop_call :: "pstr \<times> fdt_value \<Rightarrow> fdt_call" where
  "prop_call p \<equiv> Property (fst p) (snd p)"

definition prop_map :: "(pstr \<times> fdt_value) list \<Rightarrow> pstr \<rightharpoonup> byte list" where
  "prop_map props = map_of (rev (map (apsnd value_of) props))"

fun calls_of :: "dtree \<Rightarrow> fdt_call list" where
  "calls_of (DT name props kids) =
     BeginNode name # map prop_call props @ concat (map calls_of kids) @ [EndNode]"

fun listing :: "pstr \<Rightarrow> dtree \<Rightarrow> fdt_node list" where
  "listing path (DT name props kids) =
     (path, prop_map props) # concat (map (\<lambda>k. listing (rstrip (u ''/'') path @ u ''/'' @ dt_name k) k) kids)"

lemma tree_props:
  "foldM tree_step (nodes @ [(path, m)], length nodes # stack) (map prop_call props)
     = Inr (nodes @ [(path, m ++ prop_map props)], length nodes # stack)"
proof (induction props arbitrary: m)
  case (Cons p props)
  obtain n v where p: "p = (n, v)" by (cases p)
  have "tree_step (nodes @ [(path, m)], length nodes # stack) (Property n v)
      = Inr (nodes @ [(path, m(n \<mapsto> value_of v))], length nodes # stack)"
    by (simp add: set_prop_def nth_append)
  moreover have "m(n \<mapsto> value_of v) ++ prop_map props = m ++ prop_map ((n, v) # props)"
    by (simp add: prop_map_def map_add_assoc)
  ultimately show ?case using Cons [of "m(n \<mapsto> value_of v)"] unfolding p by (simp del: fun_upd_apply tree_step.simps)
qed (simp add: prop_map_def)

definition path_under :: "fdt_node list \<Rightarrow> nat list \<Rightarrow> pstr \<Rightarrow> pstr" where
  "path_under nodes stack name = (case stack of [] \<Rightarrow> u ''/''
     | tip # _ \<Rightarrow> rstrip (u ''/'') (fst (nodes ! tip)) @ u ''/'' @ name)"

lemma tree_kids:
  assumes "\<And>k nodes stack. k \<in> set kids \<Longrightarrow> \<forall>i\<in>set stack. i < length nodes \<Longrightarrow>
      foldM tree_step (nodes, stack) (calls_of k) = Inr (nodes @ listing (path_under nodes stack (dt_name k)) k, stack)"
    and "\<forall>i\<in>set (tip # stack). i < length nodes" and "fst (nodes ! tip) = path"
  shows "foldM tree_step (nodes, tip # stack) (concat (map calls_of kids))
    = Inr (nodes @ concat (map (\<lambda>k. listing (rstrip (u ''/'') path @ u ''/'' @ dt_name k) k) kids), tip # stack)"
  using assms
proof (induction kids arbitrary: nodes)
  case (Cons k kids)
  let ?l = "listing (rstrip (u ''/'') path @ u ''/'' @ dt_name k) k"
  have "path_under nodes (tip # stack) (dt_name k) = rstrip (u ''/'') path @ u ''/'' @ dt_name k"
    using Cons.prems(3) by (simp add: path_under_def)
  then have one: "foldM tree_step (nodes, tip # stack) (calls_of k) = Inr (nodes @ ?l, tip # stack)"
    using Cons.prems(1) [of k "tip # stack" nodes] Cons.prems(2) by simp
  have "\<forall>i\<in>set (tip # stack). i < length (nodes @ ?l)" and "fst ((nodes @ ?l) ! tip) = path"
    using Cons.prems(2,3) by (auto simp: nth_append)
  then have "foldM tree_step (nodes @ ?l, tip # stack) (concat (map calls_of kids))
    = Inr ((nodes @ ?l) @ concat (map (\<lambda>k. listing (rstrip (u ''/'') path @ u ''/'' @ dt_name k) k) kids), tip # stack)"
    by (intro Cons.IH) (use Cons.prems(1) in auto)
  with one show ?case by (simp add: foldM_append)
qed simp

lemma tree_calls:
  assumes "\<forall>i\<in>set stack. i < length nodes"
  shows "foldM tree_step (nodes, stack) (calls_of t)
    = Inr (nodes @ listing (path_under nodes stack (dt_name t)) t, stack)"
  using assms
proof (induction t arbitrary: nodes stack)
  case (DT name props kids)
  let ?path = "path_under nodes stack name" and ?m = "prop_map props"
  have opened: "tree_step (nodes, stack) (BeginNode name) = Inr (nodes @ [(?path, Map.empty)], length nodes # stack)"
    by (simp add: open_node_def path_under_def)
  have props: "foldM tree_step (nodes @ [(?path, Map.empty)], length nodes # stack)
      (map prop_call props) = Inr (nodes @ [(?path, ?m)], length nodes # stack)"
    using tree_props [of nodes ?path Map.empty stack props] by simp
  have kids: "foldM tree_step (nodes @ [(?path, ?m)], length nodes # stack) (concat (map calls_of kids))
      = Inr ((nodes @ [(?path, ?m)]) @ concat (map (\<lambda>k. listing (rstrip (u ''/'') ?path @ u ''/'' @ dt_name k) k) kids),
          length nodes # stack)"
    by (rule tree_kids) (use DT in \<open>auto simp: less_Suc_eq\<close>)
  show ?case
    using opened props kids by (simp add: foldM_append close_node_def)
qed

lemma tree_nodes_calls_of: "tree_nodes (calls_of t) = Inr (listing (u ''/'') t)"
  using tree_calls [of "[]" "[]" t] by (simp add: tree_nodes_def path_under_def)

text \<open>
  A node that is closed keeps its entry, and the paths of the open nodes do not
  depend on the closed ones; so a subtree that a script writes anywhere is listed
  in the result.
\<close>

definition stack_ok :: "fdt_node list \<times> nat list \<Rightarrow> bool" where
  "stack_ok st \<longleftrightarrow> (\<forall>i\<in>set (snd st). i < length (fst st))"

lemma tree_step_stack_ok:
  "stack_ok st \<Longrightarrow> tree_step st c = Inr st' \<Longrightarrow> stack_ok st'"
  by (cases st; cases c)
     (auto simp: stack_ok_def open_node_def set_prop_def close_node_def Let_def less_Suc_eq split: list.splits)

interpretation tree: step_invariant tree_step stack_ok
  by unfold_locales (rule tree_step_stack_ok)

lemma closed_step:
  assumes "tree_step (nodes, stack) c = Inr (nodes', stack')" and "i < length nodes" and "i \<notin> set stack"
  shows "i < length nodes' \<and> nodes' ! i = nodes ! i \<and> i \<notin> set stack'"
  using assms
  by (cases c) (auto simp: open_node_def set_prop_def close_node_def Let_def nth_append split: list.splits)

lemma closed_kept:
  assumes "foldM tree_step (nodes, stack) cs = Inr (nodes', stack')" and "i < length nodes" and "i \<notin> set stack"
  shows "i < length nodes' \<and> nodes' ! i = nodes ! i"
  using assms
proof (induction cs arbitrary: nodes stack)
  case (Cons c cs)
  then obtain n1 s1 where c: "tree_step (nodes, stack) c = Inr (n1, s1)"
    and cs: "foldM tree_step (n1, s1) cs = Inr (nodes', stack')" by auto
  from closed_step [OF c] Cons.prems(2,3) Cons.IH [OF cs] show ?case by simp
qed simp

fun paths_after :: "pstr list \<Rightarrow> fdt_call list \<Rightarrow> pstr list" where
  "paths_after ps [] = ps"
| "paths_after ps (BeginNode name # cs) =
     paths_after ((case ps of [] \<Rightarrow> u ''/'' | p # _ \<Rightarrow> rstrip (u ''/'') p @ u ''/'' @ name) # ps) cs"
| "paths_after ps (Property name v # cs) = paths_after ps cs"
| "paths_after ps (EndNode # cs) = paths_after (tl ps) cs"

lemma paths_after_append: "paths_after ps (cs @ ds) = paths_after (paths_after ps cs) ds"
  by (induction ps cs rule: paths_after.induct) auto

lemma paths_after_tree:
  assumes "foldM tree_step (nodes, stack) cs = Inr (nodes', stack')" and "stack_ok (nodes, stack)"
  shows "map (\<lambda>i. fst (nodes' ! i)) stack' = paths_after (map (\<lambda>i. fst (nodes ! i)) stack) cs"
  using assms
proof (induction cs arbitrary: nodes stack)
  case (Cons c cs)
  then obtain n1 s1 where c: "tree_step (nodes, stack) c = Inr (n1, s1)"
    and cs: "foldM tree_step (n1, s1) cs = Inr (nodes', stack')" by auto
  note IH = Cons.IH [OF cs tree_step_stack_ok [OF Cons.prems(2) c]]
  show ?case
  proof (cases c)
    case (BeginNode name)
    have "map (\<lambda>i. fst (n1 ! i)) s1 = (case map (\<lambda>i. fst (nodes ! i)) stack of [] \<Rightarrow> u ''/''
        | p # _ \<Rightarrow> rstrip (u ''/'') p @ u ''/'' @ name) # map (\<lambda>i. fst (nodes ! i)) stack"
      using c BeginNode Cons.prems(2)
      by (auto simp: open_node_def Let_def stack_ok_def nth_append split: list.splits)
    with IH BeginNode show ?thesis by simp
  next
    case (Property name v)
    then obtain tip rest where st: "stack = tip # rest" using c by (cases stack) (auto simp: set_prop_def)
    have "map (\<lambda>i. fst (n1 ! i)) s1 = map (\<lambda>i. fst (nodes ! i)) stack"
      using c Property st Cons.prems(2) by (auto simp: set_prop_def stack_ok_def nth_list_update)
    with IH Property show ?thesis by simp
  next
    case EndNode
    with IH c show ?thesis by (auto simp: close_node_def split: list.splits)
  qed
qed simp

lemma subtree_listed:
  assumes "tree_nodes (pre @ calls_of t @ post) = Inr nodes" and "paths_after [] pre = p # ps"
  shows "set (listing (rstrip (u ''/'') p @ u ''/'' @ dt_name t) t) \<subseteq> set nodes"
proof -
  obtain n1 s1 where pre: "foldM tree_step ([], []) pre = Inr (n1, s1)"
    using assms(1) by (auto simp: tree_nodes_def foldM_append)
  have ok: "stack_ok (n1, s1)" using tree.foldM_inv [OF _ pre] by (simp add: stack_ok_def)
  have paths: "map (\<lambda>i. fst (n1 ! i)) s1 = p # ps"
    using paths_after_tree [OF pre] assms(2) by (simp add: stack_ok_def)
  then have path: "path_under n1 s1 (dt_name t) = rstrip (u ''/'') p @ u ''/'' @ dt_name t"
    by (auto simp: path_under_def split: list.splits)
  let ?l = "listing (rstrip (u ''/'') p @ u ''/'' @ dt_name t) t"
  have "foldM tree_step (n1, s1) (calls_of t) = Inr (n1 @ ?l, s1)"
    using tree_calls [of s1 n1 t] ok path by (simp add: stack_ok_def)
  then obtain s2 where post: "foldM tree_step (n1 @ ?l, s1) post = Inr (nodes, s2)"
    using assms(1) pre by (auto simp: tree_nodes_def foldM_append)
  have "?l ! i \<in> set nodes" if "i < length ?l" for i
  proof -
    have "length n1 + i \<notin> set s1" using ok by (auto simp: stack_ok_def)
    then have "length n1 + i < length nodes \<and> nodes ! (length n1 + i) = ?l ! i"
      using closed_kept [OF post, of "length n1 + i"] that by (simp add: nth_append)
    then show ?thesis by (metis nth_mem)
  qed
  then show ?thesis by (metis in_set_conv_nth subsetI)
qed

subsection \<open>When the builder returns\<close>

fun value_ok :: "fdt_value \<Rightarrow> bool" where
  "value_ok (Raw bs) \<longleftrightarrow> True"
| "value_ok (Cells vs) \<longleftrightarrow> list_all (\<lambda>v. 0 \<le> v \<and> v < 256 ^ 4) vs"

fun value_size :: "fdt_value \<Rightarrow> nat" where
  "value_size (Raw bs) = length bs"
| "value_size (Cells vs) = 4 * length vs"

fun call_ok :: "fdt_call \<Rightarrow> bool" where
  "call_ok (BeginNode name) \<longleftrightarrow> list_all (\<lambda>c. 0 < c \<and> c < 128) name"
| "call_ok (Property name v) \<longleftrightarrow> list_all (\<lambda>c. 0 < c \<and> c < 128) name \<and> value_ok v"
| "call_ok EndNode \<longleftrightarrow> True"

text \<open>An upper bound of what a call adds to the two blocks.\<close>

fun call_size :: "fdt_call \<Rightarrow> nat" where
  "call_size (BeginNode name) = length name + 8"
| "call_size (Property name v) = length name + value_size v + 16"
| "call_size EndNode = 4"

definition calls_size :: "fdt_call list \<Rightarrow> nat" where
  "calls_size cs = sum_list (map call_size cs)"

definition builder_size :: "builder \<Rightarrow> nat" where
  "builder_size b = length (struct_b b) + length (strings_b b)"

lemma calls_size_simps [simp]:
  "calls_size [] = 0" "calls_size (c # cs) = call_size c + calls_size cs"
  "calls_size (cs @ ds) = calls_size cs + calls_size ds"
  by (simp_all add: calls_size_def)

lemma run_value_ok: "value_ok v \<Longrightarrow> \<exists>bs. run_value v = Inr bs \<and> length bs = value_size v"
proof (cases v)
  case (Cells vs)
  assume "value_ok v"
  then have "mapM (pack_be 4) vs = Inr (map (\<lambda>v. be_bytes 4 (nat v)) vs)"
    unfolding Cells by (intro mapM_Inr) (auto simp: list_all_iff pack_be_def)
  moreover have "length (concat (map (\<lambda>v. be_bytes 4 (nat v)) vs)) = 4 * length vs"
    by (induction vs) auto
  ultimately show ?thesis by (simp add: Cells b_cells_def)
qed simp

lemma length_padding_le: "length (padding n) \<le> 3"
  using mod_less_divisor [of 4 "4 - n mod 4"] by (simp add: padding_def)

lemma name_at_below: "name_at s off name \<Longrightarrow> off < length s"
  by (auto simp: name_at_def)

lemma run_call_ok:
  assumes wf: "builder_wf b" and ok: "call_ok c" and room: "builder_size b + call_size c < 256 ^ 4"
  shows "\<exists>b'. run_call b c = Inr b' \<and> builder_size b' \<le> builder_size b + call_size c"
proof (cases c)
  case (BeginNode name)
  then have "encode_ascii name = Inr (map of_nat name)" using ok by (auto simp: encode_ascii_def list_all_iff)
  then show ?thesis
    using BeginNode pack_be_ok [of FDT_BEGIN_NODE 4] length_padding_le [of "length (struct_b b) + 4 + length name + 1"]
    by (auto simp: b_begin_def b_align_def align_loop_padding builder_size_def FDT_BEGIN_NODE_def)
next
  case (Property name v)
  then obtain bs where bs: "run_value v = Inr bs" "length bs = value_size v" using ok run_value_ok by auto
  have enc: "encode_ascii name = Inr (map of_nat name)"
    using ok Property by (auto simp: encode_ascii_def list_all_iff)
  obtain b1 off where s: "b_string b name = Inr (b1, off)" and st: "struct_b b1 = struct_b b"
    and le: "length (strings_b b1) \<le> length (strings_b b) + length name + 1" and off: "off \<le> length (strings_b b)"
  proof (cases "offsets_b b name")
    case None
    then show ?thesis using that enc by (auto simp: b_string_def)
  next
    case (Some off)
    then have "off < length (strings_b b)" using wf by (auto simp: builder_wf_def intro: name_at_below)
    with Some show ?thesis using that by (auto simp: b_string_def)
  qed
  have "pack_be 4 (int off) = Inr (be_bytes 4 off)" "pack_be 4 (int (length bs)) = Inr (be_bytes 4 (length bs))"
    "pack_be 4 (int FDT_PROP) = Inr (be_bytes 4 FDT_PROP)"
    using off room Property bs by (intro pack_be_ok; simp add: builder_size_def FDT_PROP_def)+
  then show ?thesis
    using Property bs s st le length_padding_le [of "length (struct_b b) + 12 + length bs"]
    by (auto simp: b_prop_def b_align_def align_loop_padding builder_size_def add.assoc)
next
  case EndNode
  then show ?thesis using pack_be_ok [of FDT_END_NODE 4] by (auto simp: b_end_def builder_size_def FDT_END_NODE_def)
qed

lemma run_calls_ok:
  assumes "builder_wf b" and "list_all call_ok cs" and "builder_size b + calls_size cs < 256 ^ 4"
  shows "\<exists>b'. foldM run_call b cs = Inr b' \<and> builder_size b' \<le> builder_size b + calls_size cs"
  using assms
proof (induction cs arbitrary: b)
  case (Cons c cs)
  then obtain b1 where b1: "run_call b c = Inr b1" "builder_size b1 \<le> builder_size b + call_size c"
    using run_call_ok [of b c] by auto
  then have "builder_wf b1" using run_call_spec [OF Cons.prems(1)] by blast
  with Cons b1 obtain b' where "foldM run_call b1 cs = Inr b'" "builder_size b' \<le> builder_size b1 + calls_size cs"
    by fastforce
  with b1 show ?case by auto
qed simp

lemma mapM_reservations:
  assumes "\<forall>(a, s)\<in>set rs. 0 \<le> a \<and> a < 256 ^ 8 \<and> 0 \<le> s \<and> s < 256 ^ 8"
  shows "\<exists>ws. mapM (\<lambda>(address, size). bindR (pack_be 8 address) (\<lambda>a. bindR (pack_be 8 size) (\<lambda>s. Inr (a @ s)))) rs
    = Inr ws \<and> length (concat ws) = 16 * length rs"
proof -
  let ?g = "\<lambda>(a, s). be_bytes 8 (nat a) @ be_bytes 8 (nat s)"
  have "mapM (\<lambda>(address, size). bindR (pack_be 8 address) (\<lambda>a. bindR (pack_be 8 size) (\<lambda>s. Inr (a @ s)))) rs
      = Inr (map ?g rs)"
    by (rule mapM_Inr) (use assms in \<open>force simp: pack_be_def\<close>)
  moreover have "length (concat (map ?g rs)) = 16 * length rs" by (induction rs) auto
  ultimately show ?thesis by blast
qed

lemma finish_ok:
  assumes room: "builder_size b + 16 * length rs + 60 < 256 ^ 4"
    and rs: "\<forall>(a, s)\<in>set rs. 0 \<le> a \<and> a < 256 ^ 8 \<and> 0 \<le> s \<and> s < 256 ^ 8"
  shows "\<exists>blob. b_finish b rs = Inr blob"
proof -
  obtain ws where ws: "mapM (\<lambda>(address, size). bindR (pack_be 8 address) (\<lambda>a. bindR (pack_be 8 size) (\<lambda>s. Inr (a @ s)))) rs
    = Inr ws" "length (concat ws) = 16 * length rs" using mapM_reservations [OF rs] by blast
  have fin: "pack_be 4 (int FDT_END) = Inr (be_bytes 4 FDT_END)" by (rule pack_be_ok) (simp add: FDT_END_def)
  have zero: "pack_be 8 0 = Inr (be_bytes 8 0)" by (simp add: pack_be_def)
  let ?reserve = "concat ws @ be_bytes 8 0 @ be_bytes 8 0" and ?struct = "struct_b b @ be_bytes 4 FDT_END"
  let ?fields = "[0xD00DFEED, 40 + length ?reserve + length ?struct + length (strings_b b), 40 + length ?reserve,
    40 + length ?reserve + length ?struct, 40, 17, 16, 0, length (strings_b b), length ?struct]"
  have "mapM (\<lambda>v. pack_be 4 (int v)) ?fields = Inr (map (be_bytes 4) ?fields)"
    by (intro mapM_Inr pack_be_ok) (use room ws in \<open>auto simp: builder_size_def\<close>)
  then show ?thesis
    unfolding b_finish_def Let_def fin ws(1) zero by (simp only: bindR_simps) blast
qed

lemma build_ok:
  assumes ok: "list_all call_ok cs" and room: "calls_size cs + 16 * length rs + 60 < 256 ^ 4"
    and rs: "\<forall>(a, s)\<in>set rs. 0 \<le> a \<and> a < 256 ^ 8 \<and> 0 \<le> s \<and> s < 256 ^ 8"
  shows "\<exists>blob. build cs rs = Inr blob \<and> parse_fdt blob = tree_nodes cs"
proof -
  have new: "builder_size new_builder = 0" by (simp add: builder_size_def new_builder_def)
  then obtain b where b: "foldM run_call new_builder cs = Inr b" "builder_size b \<le> calls_size cs"
    using run_calls_ok [OF new_builder_wf ok] room by auto
  then obtain blob where "b_finish b rs = Inr blob" using finish_ok [OF _ rs, of b] room by auto
  with b have built: "build cs rs = Inr blob" by (simp add: build_def)
  have "nul_free c" if "call_ok c" for c
    using that by (cases c) (auto simp: list_all_iff)
  then have "list_all nul_free cs" using ok by (simp add: list_all_iff)
  with built build_parse show ?thesis by blast
qed

fun tree_ok :: "dtree \<Rightarrow> bool" where
  "tree_ok (DT name props kids) \<longleftrightarrow> list_all (\<lambda>c. 0 < c \<and> c < 128) name
     \<and> list_all (\<lambda>(n, v). list_all (\<lambda>c. 0 < c \<and> c < 128) n \<and> value_ok v) props \<and> list_all tree_ok kids"

lemma calls_of_ok: "tree_ok t \<Longrightarrow> list_all call_ok (calls_of t)"
  by (induction t) (auto simp: list_all_iff)

text \<open>
  (C7) Whatever the builder is called to write, the reader reads: for a device tree
  whose names are ASCII without NUL and whose blocks fit the 32-bit offsets of the
  header, the builder raises nothing, and \<open>parse_fdt\<close> of the blob it returns is the
  listing of the tree, every node in tree order with its full path and its
  properties.
\<close>

theorem fdt_roundtrip:
  assumes "tree_ok t" and "calls_size (calls_of t) + 16 * length rs + 60 < 256 ^ 4"
    and "\<forall>(a, s)\<in>set rs. 0 \<le> a \<and> a < 256 ^ 8 \<and> 0 \<le> s \<and> s < 256 ^ 8"
  shows "\<exists>blob. build (calls_of t) rs = Inr blob \<and> parse_fdt blob = Inr (listing (u ''/'') t)"
  using build_ok [OF calls_of_ok [OF assms(1)] assms(2,3)] by (simp add: tree_nodes_calls_of)

theorem fdt_roundtrip_witness:
  "\<exists>blob. build (calls_of (DT [] [(u ''reg'', Cells [1, 2]), (u ''reg'', Raw [3])] [DT (u ''soc'') [] [DT (u ''uart'') [] []]])) [(4096, 1)] = Inr blob
     \<and> parse_fdt blob = Inr (listing (u ''/'') (DT [] [(u ''reg'', Cells [1, 2]), (u ''reg'', Raw [3])] [DT (u ''soc'') [] [DT (u ''uart'') [] []]]))"
  by (rule fdt_roundtrip) (simp_all add: u_def calls_size_def)

end
