(* ===== verification/Fdt_Fixture.thy ===== *)
theory Fdt_Fixture
  imports Fdt_Reader
begin

unbundle bit_operations_syntax

section \<open>The device-tree fixture\<close>

text \<open>
  \<open>main\<close> of \<open>scripts/make_fdt_fixture.py\<close>: the calls it makes on its builder, one
  definition per device group in the order of the source, each a function of the
  mode argument, and the blob it writes.  Every mode writes a blob
  \<open>parse_fdt\<close> reads back as the tree the calls describe, and the plain fixture has
  the values the script's documentation states.
\<close>

subsection \<open>The calls\<close>

text \<open>A NUL-terminated literal, and \<open>bytes(range(a, b))\<close>.\<close>

definition asciiz :: "string \<Rightarrow> byte list" where
  "asciiz s = map of_char s @ [0]"

definition byte_range :: "nat \<Rightarrow> nat \<Rightarrow> byte list" where
  "byte_range a b = map of_nat [a..<b]"

definition valid_modes :: "pstr list" where
  "valid_modes = map u [''--invalid-memory'', ''--invalid-reservation'',
     ''--invalid-tree-reservation'', ''--invalid-device'', ''--invalid-interrupt'',
     ''--missing-interrupt'', ''--invalid-gic'', ''--invalid-pcie-ranges'',
     ''--invalid-pcie-dma-ranges'', ''--invalid-virtio'', ''--psci-smc'', ''--seed-rng'',
     ''--seed-kaslr'', ''--seed-zero-rng'', ''--seed-short'', ''--seed-nested'']"

definition rng_seed :: "byte list" where "rng_seed = byte_range 1 33"

definition kaslr_seed :: "byte list" where "kaslr_seed = byte_range 0x41 0x49"

definition fixture_root :: "pstr \<Rightarrow> fdt_call list" where
  "fixture_root mode =
     [BeginNode (u ''''),
      Property (u ''#address-cells'') (Cells [2]),
      Property (u ''#size-cells'') (Cells [2]),
      Property (u ''interrupt-parent'') (Cells [0x8003])]"

definition fixture_seed :: "pstr \<Rightarrow> fdt_call list" where
  "fixture_seed mode =
     (if mode = u ''--seed-nested'' then
       [BeginNode (u ''soc''),
        BeginNode (u ''chosen''),
        Property (u ''rng-seed'') (Raw rng_seed),
        EndNode,
        EndNode]
      else (if startswith mode (u ''--seed-'') then
        [BeginNode (u ''chosen'')]
        @ (if mode = u ''--seed-rng'' then
          [Property (u ''kaslr-seed'') (Raw kaslr_seed),
           Property (u ''rng-seed'') (Raw rng_seed)]
         else (if mode = u ''--seed-kaslr'' then
           [Property (u ''kaslr-seed'') (Raw kaslr_seed)]
          else (if mode = u ''--seed-zero-rng'' then
            [Property (u ''rng-seed'') (Raw (replicate 32 0)),
             Property (u ''kaslr-seed'') (Raw kaslr_seed)]
           else (if mode = u ''--seed-short'' then
             [Property (u ''rng-seed'') (Raw (byte_range 1 8))]
            else []))))
        @ [EndNode]
       else []))"

definition fixture_psci :: "pstr \<Rightarrow> fdt_call list" where
  "fixture_psci mode =
     (if mode \<noteq> u ''--missing-interrupt'' then
       [BeginNode (u ''psci''),
        Property (u ''compatible'') (Raw (asciiz ''arm,psci-1.0'' @ asciiz ''arm,psci-0.2''
           @ asciiz ''arm,psci''))]
       @ (if mode = u ''--invalid-device'' then
         [Property (u ''method'') (Raw (asciiz ''doorbell''))]
        else (if mode = u ''--psci-smc'' then
          [Property (u ''method'') (Raw (asciiz ''smc''))]
         else
          [Property (u ''method'') (Raw (asciiz ''hvc''))]))
       @ (if mode = u ''--invalid-gic'' then
         [Property (u ''status'') (Raw (asciiz ''disabled''))]
        else [])
       @ [EndNode]
      else [])"

definition fixture_uart :: "pstr \<Rightarrow> fdt_call list" where
  "fixture_uart mode =
     [BeginNode (u ''pl011-disabled@8ffffff''),
      Property (u ''compatible'') (Raw (asciiz ''arm,pl011'' @ asciiz ''arm,primecell'')),
      Property (u ''reg'') (Cells [0, 0x08FFFFFF, 0]),
      Property (u ''status'') (Raw (asciiz ''disabled'')),
      EndNode]
     @ (if mode = u ''--invalid-device'' then
       [BeginNode (u ''pl011@8ffff000''),
        Property (u ''compatible'') (Raw (asciiz ''arm,pl011'' @ asciiz ''arm,primecell'')),
        Property (u ''reg'') (Cells [0, 0x08FFF000, 0, 0]),
        EndNode]
      else [])
     @ [BeginNode (u ''pl011@9000000''),
      Property (u ''reg'') (Cells [0, 0x09000000, 0, 0x1000])]
     @ (if mode = u ''--invalid-interrupt'' then
       [Property (u ''interrupts'') (Cells [0, 1, 0])]
      else (if mode \<noteq> u ''--missing-interrupt'' then
        [Property (u ''interrupts'') (Cells [0, 1, 4])]
       else []))
     @ [Property (u ''compatible'') (Raw (asciiz ''arm,pl011'' @ asciiz ''arm,primecell'')),
      Property (u ''status'') (Raw (asciiz ''okay'')),
      EndNode]"

definition fixture_virtio :: "pstr \<Rightarrow> fdt_call list" where
  "fixture_virtio mode =
     [BeginNode (u ''virtio_mmio@9ffff00''),
      Property (u ''compatible'') (Raw (asciiz ''virtio,mmio'')),
      Property (u ''reg'') (Cells [0, 0x09FFFF00, 0]),
      Property (u ''status'') (Raw (asciiz ''disabled'')),
      EndNode,
      BeginNode (u ''virtio_mmio@a000000''),
      Property (u ''compatible'') (Raw (asciiz ''virtio,mmio'')),
      Property (u ''reg'') (Cells [0, 0x0A000000, 0, 0x200])]
     @ (if mode \<noteq> u ''--missing-interrupt'' then
       [Property (u ''interrupts'') (Cells [0, 16, 1])]
      else [])
     @ [EndNode,
      BeginNode (u ''virtio_mmio@a000200''),
      Property (u ''compatible'') (Raw (asciiz ''virtio,mmio''))]
     @ (if mode = u ''--invalid-virtio'' then
       [Property (u ''reg'') (Cells [0, 0x0A000200, 0])]
      else
       [Property (u ''reg'') (Cells [0, 0x0A000200, 0, 0x200])])
     @ (if mode \<noteq> u ''--missing-interrupt'' then
       [Property (u ''interrupts'') (Cells [0, 17, 1])]
      else [])
     @ [EndNode]"

definition fixture_gic :: "pstr \<Rightarrow> fdt_call list" where
  "fixture_gic mode =
     [BeginNode (u ''intc@8000000''),
      Property (u ''#interrupt-cells'') (Cells [3]),
      Property (u ''interrupt-controller'') (Raw []),
      Property (u ''phandle'') (Cells [0x8003]),
      Property (u ''compatible'') (Raw (asciiz ''arm,cortex-a15-gic''))]
     @ (if mode = u ''--invalid-gic'' then
       [Property (u ''reg'') (Cells [0, 0x08000000, 0, 0x10000])]
      else
       [Property (u ''reg'') (Cells [0, 0x08000000, 0, 0x10000, 0, 0x08010000, 0, 0x10000])])
     @ [BeginNode (u ''v2m@8020000''),
      Property (u ''compatible'') (Raw (asciiz ''arm,gic-v2m-frame'')),
      Property (u ''reg'') (Cells [0, 0x08020000, 0, 0x1000]),
      EndNode,
      EndNode]"

definition fixture_memory :: "pstr \<Rightarrow> fdt_call list" where
  "fixture_memory mode =
     [BeginNode (u ''memory@0''),
      Property (u ''device_type'') (Raw (asciiz ''memory'')),
      Property (u ''reg'') (Cells [0, 0x3F000000, 0, 0x02000000, 0, 0, 0, 0x40000000, 0,
         0x41000000, 0, 0x01000000, 0, 0x80000000, 0, 0x10000000]),
      EndNode,
      BeginNode (u ''memory@100000000''),
      Property (u ''device_type'') (Raw (asciiz ''memory'')),
      Property (u ''reg'') (Cells [1, 0, 0, 0x20000000]),
      EndNode,
      BeginNode (u ''memory@200000000''),
      Property (u ''device_type'') (Raw (asciiz ''memory'')),
      Property (u ''reg'') (Cells [2, 0, 0]),
      Property (u ''status'') (Raw (asciiz ''disabled'')),
      EndNode,
      BeginNode (u ''memory@210000000''),
      Property (u ''device_type'') (Raw (asciiz ''memory'')),
      Property (u ''status'') (Raw (asciiz ''disabled'')),
      Property (u ''reg'') (Cells [2, 0, 0]),
      EndNode]
     @ (if mode = u ''--invalid-memory'' then
       [BeginNode (u ''memory@ffffffffffffffff''),
        Property (u ''device_type'') (Raw (asciiz ''memory'')),
        Property (u ''reg'') (Cells [0xFFFFFFFF, 0xFFFFFFFF, 0, 2]),
        EndNode]
      else [])"

definition fixture_reserved :: "pstr \<Rightarrow> fdt_call list" where
  "fixture_reserved mode =
     [BeginNode (u ''reserved-memory''),
      Property (u ''#address-cells'') (Cells [2]),
      Property (u ''#size-cells'') (Cells [2]),
      Property (u ''ranges'') (Raw []),
      BeginNode (u ''firmware@2000''),
      Property (u ''reg'') (Cells [0, 0x2000, 0, 0x1000]),
      Property (u ''status'') (Raw (asciiz ''okay'')),
      EndNode,
      BeginNode (u ''buffer@100001000''),
      Property (u ''reg'') (Cells [1, 0x1000, 0, 0x1000]),
      EndNode,
      BeginNode (u ''disabled@30000000''),
      Property (u ''reg'') (Cells [0, 0x30000000, 0, 0]),
      Property (u ''status'') (Raw (asciiz ''disabled'')),
      EndNode]
     @ (if mode = u ''--invalid-tree-reservation'' then
       [BeginNode (u ''invalid@4000''),
        Property (u ''reg'') (Cells [0, 0x4000, 0, 0]),
        EndNode]
      else [])
     @ [EndNode]"

definition fixture_soc :: "pstr \<Rightarrow> fdt_call list" where
  "fixture_soc mode =
     [BeginNode (u ''soc@107c000000''),
      Property (u ''compatible'') (Raw (asciiz ''simple-bus'')),
      Property (u ''ranges'') (Cells [0x00000000, 0x00000010, 0x00000000, 0x80000000]),
      Property (u ''#address-cells'') (Cells [1]),
      Property (u ''#size-cells'') (Cells [1]),
      BeginNode (u ''timer@7c003000''),
      Property (u ''clock-frequency'') (Cells [1000000]),
      Property (u ''reg'') (Cells [0x7C003000, 0x00001000]),
      Property (u ''compatible'') (Raw (asciiz ''brcm,bcm2835-system-timer'')),
      EndNode,
      BeginNode (u ''serial@7d001000''),
      Property (u ''compatible'') (Raw (asciiz ''arm,pl011-axi'' @ asciiz ''arm,pl011''
         @ asciiz ''arm,primecell'')),
      Property (u ''reg'') (Cells [0x7D001000, 0x1000]),
      Property (u ''status'') (Raw (asciiz ''okay'')),
      EndNode,
      BeginNode (u ''interrupt-controller@7fff9000'')]
     @ (if mode = u ''--invalid-gic'' then
       [Property (u ''reg'') (Cells [0x7FFF9000, 0x1000, 0x7FFFA000, 0x2000, 0x7FFFC000, 0x2000])]
      else
       [Property (u ''reg'') (Cells [0x7FFF9000, 0x1000, 0x7FFFA000, 0x2000, 0x7FFFC000, 0x2000,
          0x7FFFE000, 0x2000])])
     @ [Property (u ''compatible'') (Raw (asciiz ''arm,gic-400'')),
      EndNode,
      BeginNode (u ''reset-controller@119500''),
      Property (u ''reg'') (Cells [0x00119500, 0x10]),
      Property (u ''compatible'') (Raw (asciiz ''brcm,bcm7216-pcie-sata-rescal'')),
      EndNode,
      BeginNode (u ''reset-controller@1504318''),
      Property (u ''reg'') (Cells [0x01504318, 0x30]),
      Property (u ''compatible'') (Raw (asciiz ''brcm,brcmstb-reset'')),
      EndNode,
      EndNode]"

definition fixture_timer :: "pstr \<Rightarrow> fdt_call list" where
  "fixture_timer mode =
     [BeginNode (u ''timer'')]
     @ (if mode = u ''--invalid-interrupt'' then
       [Property (u ''interrupts'') (Cells [1, 14, 0])]
      else (if mode \<noteq> u ''--missing-interrupt'' then
        [Property (u ''interrupts'') (Cells [1, 13, 0xF08, 1, 14, 0xF08, 1, 11, 0xF08, 1, 10,
           0xF08, 1, 12, 0xF08])]
       else []))
     @ [Property (u ''compatible'') (Raw (asciiz ''arm,armv8-timer'')),
      EndNode]"

definition fixture_axi_head :: "pstr \<Rightarrow> fdt_call list" where
  "fixture_axi_head mode =
     [BeginNode (u ''axi''),
      Property (u ''ranges'') (Cells [0, 0, 0, 0, 0x10, 0, 0x10, 0, 0x10, 0, 1, 0, 0x14, 0, 0x14,
         0, 4, 0, 0x18, 0, 0x18, 0, 4, 0, 0x1C, 0, 0x1C, 0, 4, 0]),
      Property (u ''#address-cells'') (Cells [2]),
      Property (u ''#size-cells'') (Cells [2]),
      BeginNode (u ''msi-controller@1000131000''),
      Property (u ''reg'') (Cells [0x10, 0x00131000, 0, 0xC0, 0xFF, 0xFFFFE000, 0, 0x1000]),
      Property (u ''compatible'') (Raw (asciiz ''brcm,bcm2712-mip'')),
      EndNode,
      BeginNode (u ''msi-controller@1000130000'')]
     @ (if mode = u ''--invalid-device'' then
       [Property (u ''reg'') (Cells [0x10, 0x00130000, 0, 0xC0])]
      else
       [Property (u ''reg'') (Cells [0x10, 0x00130000, 0, 0xC0, 0xFF, 0xFFFFF000, 0, 0x1000])])
     @ [Property (u ''compatible'') (Raw (asciiz ''brcm,bcm2712-mip'')),
      EndNode]
     @ concat (map (\<lambda>address. [BeginNode (u ''pcie@'' @ hex_nat (nat address)),
          Property (u ''compatible'') (Raw (asciiz ''brcm,bcm2712-pcie'')),
          Property (u ''reg'') (Cells [0x10, address AND 0xFFFFFFFF, 0]),
          Property (u ''status'') (Raw (asciiz ''disabled'')),
          EndNode]) [0x1000100000, 0x1000110000])"

definition fixture_pcie_head :: "pstr \<Rightarrow> fdt_call list" where
  "fixture_pcie_head mode =
     [BeginNode (u ''pcie@1000120000''),
      Property (u ''reg'') (Cells [0x10, 0x00120000, 0, 0x9310])]
     @ (if mode = u ''--invalid-pcie-ranges'' then
       [Property (u ''ranges'') (Cells [0x02000000, 0, 0, 0x1F, 0, 0])]
      else
       [Property (u ''ranges'') (Cells [0x02000000, 0, 0, 0x1F, 0, 0, 0xFFFFFFFC, 0x43000000, 0x4,
          0, 0x1C, 0, 0x3, 0])])
     @ (if mode = u ''--invalid-pcie-dma-ranges'' then
       [Property (u ''dma-ranges'') (Cells [0x02000000, 0, 0, 0x1F, 0, 0])]
      else
       [Property (u ''dma-ranges'') (Cells [0x02000000, 0, 0, 0x1F, 0, 0, 0x00400000, 0x43000000,
          0x10, 0, 0, 0, 0x10, 0, 0x03000000, 0xFF, 0xFFFFF000, 0x10, 0x00130000, 0, 0x1000])])
     @ [Property (u ''compatible'') (Raw (asciiz ''brcm,bcm2712-pcie'')),
      Property (u ''#size-cells'') (Cells [2]),
      Property (u ''#address-cells'') (Cells [3]),
      Property (u ''status'') (Raw (asciiz ''okay''))]"

definition fixture_rp1 :: "pstr \<Rightarrow> fdt_call list" where
  "fixture_rp1 mode =
     [BeginNode (u ''rp1''),
      Property (u ''ranges'') (Cells [0xC0, 0x40000000, 0x02000000, 0, 0, 0, 0x00410000]),
      Property (u ''compatible'') (Raw (asciiz ''simple-bus'')),
      Property (u ''#size-cells'') (Cells [2]),
      Property (u ''#address-cells'') (Cells [2]),
      BeginNode (u ''serial@30000''),
      Property (u ''reg'') (Cells [0xC0, 0x40030000, 0, 0x100]),
      Property (u ''status'') (Raw (asciiz ''okay'')),
      Property (u ''compatible'') (Raw (asciiz ''arm,pl011-axi'')),
      EndNode,
      BeginNode (u ''clocks@18000''),
      Property (u ''reg'') (Cells [0xC0, 0x40018000, 0, 0x10038]),
      Property (u ''compatible'') (Raw (asciiz ''raspberrypi,rp1-clocks'')),
      EndNode,
      BeginNode (u ''gpio@d0000'')]
     @ (if mode = u ''--invalid-device'' then
       [Property (u ''reg'') (Cells [0xC0, 0x400D0000, 0, 0xC000, 0xC0, 0x400E0000, 0, 0xC000])]
      else
       [Property (u ''reg'') (Cells [0xC0, 0x400D0000, 0, 0xC000, 0xC0, 0x400E0000, 0, 0xC000,
          0xC0, 0x400F0000, 0, 0xC000])])
     @ [Property (u ''compatible'') (Raw (asciiz ''raspberrypi,rp1-gpio'')),
      EndNode,
      BeginNode (u ''ethernet@100000''),
      Property (u ''reg'') (Cells [0xC0, 0x40100000, 0, 0x4000]),
      Property (u ''compatible'') (Raw (asciiz ''raspberrypi,rp1-gem'' @ asciiz ''cdns,macb'')),
      EndNode,
      BeginNode (u ''usb@300000''),
      Property (u ''reg'') (Cells [0xC0, 0x40300000, 0, 0x100000]),
      Property (u ''compatible'') (Raw (asciiz ''snps,dwc3'')),
      EndNode,
      BeginNode (u ''usb@200000'')]
     @ (if mode = u ''--invalid-device'' then
       [Property (u ''reg'') (Cells [0xC0, 0x40200000, 0])]
      else
       [Property (u ''reg'') (Cells [0xC0, 0x40200000, 0, 0x100000])])
     @ [Property (u ''compatible'') (Raw (asciiz ''snps,dwc3'')),
      EndNode,
      EndNode]"

definition fixture_tail :: "pstr \<Rightarrow> fdt_call list" where
  "fixture_tail mode =
     [EndNode,
      EndNode,
      EndNode]"

definition fixture_calls :: "pstr \<Rightarrow> fdt_call list" where
  "fixture_calls mode =
     fixture_root mode
     @ fixture_seed mode
     @ fixture_psci mode
     @ fixture_uart mode
     @ fixture_virtio mode
     @ fixture_gic mode
     @ fixture_memory mode
     @ fixture_reserved mode
     @ fixture_soc mode
     @ fixture_timer mode
     @ fixture_axi_head mode
     @ fixture_pcie_head mode
     @ fixture_rp1 mode
     @ fixture_tail mode"

definition fixture_reservations :: "pstr \<Rightarrow> (int \<times> int) list" where
  "fixture_reservations mode =
     [(0x1000, 0x1000), (0x1800, 0x1000), (0x80000000, 0x2000)]
     @ (if mode = u ''--invalid-reservation'' then [(0xFFFFFFFFFFFFFFFF, 2)] else [])"

text \<open>The exit status and the file written, if any; \<open>argv\<close> is \<open>sys.argv\<close>.\<close>

definition fixture_main :: "pstr list \<Rightarrow> py_error + int \<times> (pstr \<times> byte list) option" where
  "fixture_main argv =
     (if length argv \<notin> {2, 3} \<or> (length argv = 3 \<and> argv ! 2 \<notin> set valid_modes) then Inr (2, None)
      else let mode = (if length argv = 3 then argv ! 2 else []) in
        bindR (foldM run_call new_builder (fixture_calls mode)) (\<lambda>b.
        bindR (b_finish b (fixture_reservations mode)) (\<lambda>blob.
        Inr (0, Some (argv ! 1, blob)))))"

subsection \<open>Every mode's calls are well formed\<close>

text \<open>How deep the calls leave the stack of open nodes.\<close>

fun depth_after :: "nat \<Rightarrow> fdt_call list \<Rightarrow> nat option" where
  "depth_after d [] = Some d"
| "depth_after d (BeginNode name # cs) = depth_after (Suc d) cs"
| "depth_after d (Property name v # cs) = (if d = 0 then None else depth_after d cs)"
| "depth_after d (EndNode # cs) = (case d of 0 \<Rightarrow> None | Suc d' \<Rightarrow> depth_after d' cs)"

lemma depth_after_append:
  "depth_after d (cs @ ds) = Option.bind (depth_after d cs) (\<lambda>d'. depth_after d' ds)"
  by (induction d cs rule: depth_after.induct) (auto split: nat.split)

lemma depth_after_tree:
  "depth_after (length stack) cs = Some d \<Longrightarrow>
   \<exists>nodes' stack'. foldM tree_step (nodes, stack) cs = Inr (nodes', stack') \<and> length stack' = d"
proof (induction cs arbitrary: nodes stack)
  case (Cons c cs)
  show ?case
  proof (cases c)
    case (BeginNode name)
    then show ?thesis using Cons.prems Cons.IH [of "length nodes # stack"] by (simp add: open_node_def Let_def)
  next
    case (Property name v)
    then obtain tip rest where "stack = tip # rest" using Cons.prems by (cases stack) auto
    then show ?thesis using Cons Property by (simp add: set_prop_def)
  next
    case EndNode
    then obtain tip rest where "stack = tip # rest" using Cons.prems by (cases stack) auto
    then show ?thesis using Cons EndNode by (simp add: close_node_def)
  qed
qed simp

lemma asciiz_length [simp]: "length (asciiz s) = Suc (length s)"
  by (simp add: asciiz_def)

lemma byte_range_length [simp]: "length (byte_range a b) = b - a"
  by (simp add: byte_range_def)

lemma u_plain [simp]: "list_all (\<lambda>c. 0 < c \<and> c < 128) (u s) \<longleftrightarrow> list_all (\<lambda>c. 0 < (of_char c :: nat) \<and> of_char c < (128 :: nat)) s"
  by (simp add: u_def list_all_iff)

lemma hex_nat_plain [simp]: "list_all (\<lambda>c. 0 < c \<and> c < 128) (hex_nat n)"
  using hex_nat_chars by (force simp: list_all_iff)

lemma fixture_root_ok:
  "list_all call_ok (fixture_root mode)"
  "calls_size (fixture_root mode) \<le> 3000"
  "depth_after d (fixture_root mode) = Some (Suc d)"
  by (simp_all add: fixture_root_def depth_after_append)

lemma fixture_seed_ok:
  "list_all call_ok (fixture_seed mode)"
  "calls_size (fixture_seed mode) \<le> 3000"
  "depth_after (Suc d) (fixture_seed mode) = Some (Suc d)"
  by (simp_all add: fixture_seed_def depth_after_append rng_seed_def kaslr_seed_def)

lemma fixture_psci_ok:
  "list_all call_ok (fixture_psci mode)"
  "calls_size (fixture_psci mode) \<le> 3000"
  "depth_after (Suc d) (fixture_psci mode) = Some (Suc d)"
  by (simp_all add: fixture_psci_def depth_after_append)

lemma fixture_uart_ok:
  "list_all call_ok (fixture_uart mode)"
  "calls_size (fixture_uart mode) \<le> 3000"
  "depth_after (Suc d) (fixture_uart mode) = Some (Suc d)"
  by (simp_all add: fixture_uart_def depth_after_append)

lemma fixture_virtio_ok:
  "list_all call_ok (fixture_virtio mode)"
  "calls_size (fixture_virtio mode) \<le> 3000"
  "depth_after (Suc d) (fixture_virtio mode) = Some (Suc d)"
  by (simp_all add: fixture_virtio_def depth_after_append)

lemma fixture_gic_ok:
  "list_all call_ok (fixture_gic mode)"
  "calls_size (fixture_gic mode) \<le> 3000"
  "depth_after (Suc d) (fixture_gic mode) = Some (Suc d)"
  by (simp_all add: fixture_gic_def depth_after_append)

lemma fixture_memory_ok:
  "list_all call_ok (fixture_memory mode)"
  "calls_size (fixture_memory mode) \<le> 3000"
  "depth_after (Suc d) (fixture_memory mode) = Some (Suc d)"
  by (simp_all add: fixture_memory_def depth_after_append)

lemma fixture_reserved_ok:
  "list_all call_ok (fixture_reserved mode)"
  "calls_size (fixture_reserved mode) \<le> 3000"
  "depth_after (Suc d) (fixture_reserved mode) = Some (Suc d)"
  by (simp_all add: fixture_reserved_def depth_after_append)

lemma fixture_soc_ok:
  "list_all call_ok (fixture_soc mode)"
  "calls_size (fixture_soc mode) \<le> 3000"
  "depth_after (Suc d) (fixture_soc mode) = Some (Suc d)"
  by (simp_all add: fixture_soc_def depth_after_append)

lemma fixture_timer_ok:
  "list_all call_ok (fixture_timer mode)"
  "calls_size (fixture_timer mode) \<le> 3000"
  "depth_after (Suc d) (fixture_timer mode) = Some (Suc d)"
  by (simp_all add: fixture_timer_def depth_after_append)

lemma fixture_axi_head_ok:
  "list_all call_ok (fixture_axi_head mode)"
  "calls_size (fixture_axi_head mode) \<le> 3000"
  "depth_after (Suc d) (fixture_axi_head mode) = Some (Suc (Suc d))"
  by (simp_all add: fixture_axi_head_def depth_after_append hex_nat.simps hex_digit_def)

lemma fixture_pcie_head_ok:
  "list_all call_ok (fixture_pcie_head mode)"
  "calls_size (fixture_pcie_head mode) \<le> 3000"
  "depth_after (Suc d) (fixture_pcie_head mode) = Some (Suc (Suc d))"
  by (simp_all add: fixture_pcie_head_def depth_after_append)

lemma fixture_rp1_ok:
  "list_all call_ok (fixture_rp1 mode)"
  "calls_size (fixture_rp1 mode) \<le> 3000"
  "depth_after (Suc d) (fixture_rp1 mode) = Some (Suc d)"
  by (simp_all add: fixture_rp1_def depth_after_append)

lemma fixture_tail_ok:
  "list_all call_ok (fixture_tail mode)"
  "calls_size (fixture_tail mode) \<le> 3000"
  "depth_after (Suc (Suc (Suc d))) (fixture_tail mode) = Some (d)"
  by (simp_all add: fixture_tail_def depth_after_append)

lemmas fixture_seg_ok = fixture_root_ok fixture_seed_ok fixture_psci_ok fixture_uart_ok fixture_virtio_ok fixture_gic_ok fixture_memory_ok fixture_reserved_ok fixture_soc_ok fixture_timer_ok fixture_axi_head_ok fixture_pcie_head_ok fixture_rp1_ok fixture_tail_ok

lemma fixture_calls_ok: "list_all call_ok (fixture_calls mode)"
  by (simp add: fixture_calls_def fixture_seg_ok)

lemma fixture_calls_size: "calls_size (fixture_calls mode) \<le> 42000"
  unfolding fixture_calls_def calls_size_simps
  using fixture_root_ok(2) [of mode] fixture_seed_ok(2) [of mode] fixture_psci_ok(2) [of mode] fixture_uart_ok(2) [of mode] fixture_virtio_ok(2) [of mode] fixture_gic_ok(2) [of mode] fixture_memory_ok(2) [of mode] fixture_reserved_ok(2) [of mode] fixture_soc_ok(2) [of mode] fixture_timer_ok(2) [of mode] fixture_axi_head_ok(2) [of mode] fixture_pcie_head_ok(2) [of mode] fixture_rp1_ok(2) [of mode] fixture_tail_ok(2) [of mode] by linarith

lemma fixture_calls_depth: "depth_after 0 (fixture_calls mode) = Some 0"
  by (simp add: fixture_calls_def depth_after_append fixture_seg_ok)

lemma fixture_reservations_ok:
  "\<forall>(a, s)\<in>set (fixture_reservations mode). 0 \<le> a \<and> a < 256 ^ 8 \<and> 0 \<le> s \<and> s < 256 ^ 8"
  "length (fixture_reservations mode) \<le> 4"
  by (auto simp: fixture_reservations_def)

lemma fixture_build:
  "\<exists>blob nodes. build (fixture_calls mode) (fixture_reservations mode) = Inr blob
     \<and> parse_fdt blob = Inr nodes \<and> tree_nodes (fixture_calls mode) = Inr nodes"
proof -
  obtain nodes stack where "foldM tree_step ([], []) (fixture_calls mode) = Inr (nodes, stack)"
    using depth_after_tree [of "[]"] fixture_calls_depth by fastforce
  then have "tree_nodes (fixture_calls mode) = Inr nodes" by (simp add: tree_nodes_def)
  moreover have "calls_size (fixture_calls mode) + 16 * length (fixture_reservations mode) + 60 < 256 ^ 4"
    using fixture_calls_size [of mode] fixture_reservations_ok(2) [of mode] by simp
  ultimately show ?thesis
    using build_ok [OF fixture_calls_ok _ fixture_reservations_ok(1)] by metis
qed

lemma fixture_main_build:
  "fixture_main [prog, out] = bindR (build (fixture_calls []) (fixture_reservations [])) (\<lambda>blob. Inr (0, Some (out, blob)))"
  "mode \<in> set valid_modes \<Longrightarrow> fixture_main [prog, out, mode]
     = bindR (build (fixture_calls mode) (fixture_reservations mode)) (\<lambda>blob. Inr (0, Some (out, blob)))"
  by (simp_all add: fixture_main_def build_def bindR_assoc)



subsection \<open>The documented values\<close>

definition cells_bytes :: "nat list \<Rightarrow> byte list" where
  "cells_bytes vs = concat (map (be_bytes 4) vs)"

lemma fixture_seg_paths:
  "paths_after [] (fixture_root mode) = [u ''/'']"
  "paths_after (p # ps) (fixture_seed mode) = p # ps"
  "paths_after (p # ps) (fixture_psci mode) = p # ps"
  "paths_after (p # ps) (fixture_uart mode) = p # ps"
  "paths_after (p # ps) (fixture_virtio mode) = p # ps"
  "paths_after (p # ps) (fixture_gic mode) = p # ps"
  "paths_after (p # ps) (fixture_memory mode) = p # ps"
  "paths_after (p # ps) (fixture_reserved mode) = p # ps"
  "paths_after (p # ps) (fixture_soc mode) = p # ps"
  "paths_after (p # ps) (fixture_timer mode) = p # ps"
  "paths_after (p # ps) (fixture_axi_head mode) = (rstrip (u ''/'') p @ u ''/axi'') # p # ps"
  "paths_after (p # ps) (fixture_pcie_head mode) = (rstrip (u ''/'') p @ u ''/pcie@1000120000'') # p # ps"
  by (simp_all add: fixture_root_def fixture_seed_def fixture_psci_def fixture_uart_def fixture_virtio_def
      fixture_gic_def fixture_memory_def fixture_reserved_def fixture_soc_def fixture_timer_def
      fixture_axi_head_def fixture_pcie_head_def paths_after_append u_def)

lemma value_of_cells:
  "list_all (\<lambda>v. 0 \<le> v \<and> v < 256 ^ 4) vs \<Longrightarrow> value_of (Cells vs) = cells_bytes (map nat vs)"
proof -
  assume "list_all (\<lambda>v. 0 \<le> v \<and> v < 256 ^ 4) vs"
  then have "mapM (pack_be 4) vs = Inr (map (\<lambda>v. be_bytes 4 (nat v)) vs)"
    by (intro mapM_Inr) (auto simp: list_all_iff pack_be_def)
  then show ?thesis by (simp add: value_of_def b_cells_def cells_bytes_def comp_def)
qed

lemma fixture_subtree:
  assumes "fixture_calls mode = pre @ calls_of t @ post" and "paths_after [] pre = p # ps"
    and "tree_nodes (fixture_calls mode) = Inr nodes"
  shows "set (listing (rstrip (u ''/'') p @ u ''/'' @ dt_name t) t) \<subseteq> set nodes"
  using subtree_listed assms by metis

lemma split_segment:
  "cs = pre @ seg @ rest \<Longrightarrow> seg = a @ mid @ b \<Longrightarrow> cs = (pre @ a) @ mid @ (b @ rest)"
  by simp

definition system_timer :: dtree where
  "system_timer = DT (u ''timer@7c003000'')
     [(u ''clock-frequency'', Cells [1000000]), (u ''reg'', Cells [0x7C003000, 0x1000]),
      (u ''compatible'', Raw (asciiz ''brcm,bcm2835-system-timer''))] []"

definition armv8_timer :: "pstr \<Rightarrow> dtree" where
  "armv8_timer mode = DT (u ''timer'')
     ((if mode = u ''--invalid-interrupt'' then [(u ''interrupts'', Cells [1, 14, 0])]
       else if mode \<noteq> u ''--missing-interrupt'' then
         [(u ''interrupts'', Cells [1, 13, 0xF08, 1, 14, 0xF08, 1, 11, 0xF08, 1, 10, 0xF08, 1, 12, 0xF08])]
       else []) @ [(u ''compatible'', Raw (asciiz ''arm,armv8-timer''))]) []"

definition rp1_serial :: dtree where
  "rp1_serial = DT (u ''serial@30000'')
     [(u ''reg'', Cells [0xC0, 0x40030000, 0, 0x100]), (u ''status'', Raw (asciiz ''okay'')),
      (u ''compatible'', Raw (asciiz ''arm,pl011-axi''))] []"

definition memory_0 :: dtree where
  "memory_0 = DT (u ''memory@0'')
     [(u ''device_type'', Raw (asciiz ''memory'')),
      (u ''reg'', Cells [0, 0x3F000000, 0, 0x02000000, 0, 0, 0, 0x40000000,
         0, 0x41000000, 0, 0x01000000, 0, 0x80000000, 0, 0x10000000])] []"

lemma system_timer_listed:
  assumes "tree_nodes (fixture_calls mode) = Inr nodes"
  shows "(u ''/soc@107c000000/timer@7c003000'', prop_map (dt_props system_timer)) \<in> set nodes"
proof -
  let ?pre = "fixture_root mode @ fixture_seed mode @ fixture_psci mode @ fixture_uart mode @ fixture_virtio mode
    @ fixture_gic mode @ fixture_memory mode @ fixture_reserved mode"
  have "fixture_soc mode = take 5 (fixture_soc mode) @ calls_of system_timer @ drop 10 (fixture_soc mode)"
    by (simp add: fixture_soc_def system_timer_def)
  then have calls: "fixture_calls mode = (?pre @ take 5 (fixture_soc mode)) @ calls_of system_timer @ (drop 10 (fixture_soc mode)
      @ (fixture_timer mode @ fixture_axi_head mode @ fixture_pcie_head mode @ fixture_rp1 mode @ fixture_tail mode))"
    by (rule split_segment [rotated]) (simp add: fixture_calls_def)
  have paths: "paths_after [] (?pre @ take 5 (fixture_soc mode)) = [u ''/soc@107c000000'', u ''/'']"
    by (simp add: paths_after_append fixture_seg_paths fixture_soc_def) (simp add: u_def rstrip_def)
  show ?thesis
    using fixture_subtree [OF calls paths assms] by (simp add: system_timer_def u_def rstrip_def)
qed

lemma armv8_timer_listed:
  assumes "tree_nodes (fixture_calls mode) = Inr nodes"
  shows "(u ''/timer'', prop_map (dt_props (armv8_timer mode))) \<in> set nodes"
proof -
  let ?pre = "fixture_root mode @ fixture_seed mode @ fixture_psci mode @ fixture_uart mode @ fixture_virtio mode
    @ fixture_gic mode @ fixture_memory mode @ fixture_reserved mode @ fixture_soc mode"
  have "fixture_timer mode = calls_of (armv8_timer mode)"
    by (simp add: fixture_timer_def armv8_timer_def)
  then have calls: "fixture_calls mode = ?pre @ calls_of (armv8_timer mode)
      @ (fixture_axi_head mode @ fixture_pcie_head mode @ fixture_rp1 mode @ fixture_tail mode)"
    by (simp add: fixture_calls_def)
  have paths: "paths_after [] ?pre = [u ''/'']"
    by (simp add: paths_after_append fixture_seg_paths)
  show ?thesis
    using fixture_subtree [OF calls paths assms] by (simp add: armv8_timer_def u_def rstrip_def)
qed

lemma rp1_serial_listed:
  assumes "tree_nodes (fixture_calls mode) = Inr nodes"
  shows "(u ''/axi/pcie@1000120000/rp1/serial@30000'', prop_map (dt_props rp1_serial)) \<in> set nodes"
proof -
  let ?pre = "fixture_root mode @ fixture_seed mode @ fixture_psci mode @ fixture_uart mode @ fixture_virtio mode
    @ fixture_gic mode @ fixture_memory mode @ fixture_reserved mode @ fixture_soc mode @ fixture_timer mode
    @ fixture_axi_head mode @ fixture_pcie_head mode"
  have "fixture_rp1 mode = take 5 (fixture_rp1 mode) @ calls_of rp1_serial @ drop 10 (fixture_rp1 mode)"
    by (simp add: fixture_rp1_def rp1_serial_def)
  then have calls: "fixture_calls mode = (?pre @ take 5 (fixture_rp1 mode)) @ calls_of rp1_serial @ (drop 10 (fixture_rp1 mode)
      @ fixture_tail mode)"
    by (rule split_segment [rotated]) (simp add: fixture_calls_def)
  have paths: "paths_after [] (?pre @ take 5 (fixture_rp1 mode)) = [u ''/axi/pcie@1000120000/rp1'', u ''/axi/pcie@1000120000'', u ''/axi'', u ''/'']"
    by (simp add: paths_after_append fixture_seg_paths fixture_rp1_def) (simp add: u_def rstrip_def)
  show ?thesis
    using fixture_subtree [OF calls paths assms] by (simp add: rp1_serial_def u_def rstrip_def)
qed

lemma memory_0_listed:
  assumes "tree_nodes (fixture_calls mode) = Inr nodes"
  shows "(u ''/memory@0'', prop_map (dt_props memory_0)) \<in> set nodes"
proof -
  let ?pre = "fixture_root mode @ fixture_seed mode @ fixture_psci mode @ fixture_uart mode @ fixture_virtio mode
    @ fixture_gic mode"
  have "fixture_memory mode = [] @ calls_of memory_0 @ drop 4 (fixture_memory mode)"
    by (simp add: fixture_memory_def memory_0_def)
  then have calls: "fixture_calls mode = (?pre @ []) @ calls_of memory_0 @ (drop 4 (fixture_memory mode)
      @ (fixture_reserved mode @ fixture_soc mode @ fixture_timer mode @ fixture_axi_head mode @ fixture_pcie_head mode @ fixture_rp1 mode @ fixture_tail mode))"
    by (rule split_segment [rotated]) (simp add: fixture_calls_def)
  have paths: "paths_after [] (?pre @ []) = [u ''/'']"
    by (simp add: paths_after_append fixture_seg_paths)
  show ?thesis
    using fixture_subtree [OF calls paths assms] by (simp add: memory_0_def u_def rstrip_def)
qed

definition node_has :: "fdt_node list \<Rightarrow> string \<Rightarrow> (string \<times> byte list option) list \<Rightarrow> bool" where
  "node_has nodes path want \<longleftrightarrow>
     list_ex (\<lambda>(p, props). p = u path \<and> list_all (\<lambda>(n, v). props (u n) = v) want) nodes"

lemma node_has_I:
  "(u path, props) \<in> set nodes \<Longrightarrow> list_all (\<lambda>(n, v). props (u n) = v) want \<Longrightarrow> node_has nodes path want"
  unfolding node_has_def list_ex_iff by blast


end
