(* ===== verification/Iommu_Report.thy ===== *)
theory Iommu_Report
  imports Fdt_Reader
begin

section \<open>The IOMMU report\<close>

text \<open>
  \<open>cells\<close>, \<open>text_list\<close>, \<open>report\<close> and the report command of \<open>main\<close> of
  \<open>scripts/rpi5_dtb_iommu_report.py\<close>, on the bytes of the file.  Output is the list
  of printed lines.  The dictionary from phandles to IOMMU paths keeps its keys in
  an association list, because the verdict prints how many there are.  The
  capture command drives a debug probe and is not modelled.
\<close>

definition SUBTREES :: "pstr list" where
  "SUBTREES = [u ''pcie@1000120000'', u ''rp1'']"

definition IOMMU_PROPERTIES :: "pstr list" where
  "IOMMU_PROPERTIES = [u ''iommus'', u ''iommu-map'', u ''iommu-map-mask'', u ''dma-ranges'']"

text \<open>\<open>range(0, len(value) - 3, 4)\<close> takes the whole words, so no \<open>unpack\<close> raises.\<close>

fun cells :: "byte list \<Rightarrow> nat list" where
  "cells (a # b # c # d # rest) = be_val [a, b, c, d] # cells rest"
| "cells value = []"

definition text_list :: "byte list \<Rightarrow> pstr list" where
  "text_list value = map decode_ascii_replace (filter (\<lambda>part. part \<noteq> []) (split_on 0 value))"

type_synonym iommu_dict = "(nat option \<times> pstr) list"

definition is_iommu :: "pstr list \<Rightarrow> bool" where
  "is_iommu compatible = list_ex (\<lambda>c. contains (u ''iommu'') c \<or> contains (u ''smmu'') c) compatible"

definition prop_or_empty :: "(pstr \<rightharpoonup> byte list) \<Rightarrow> pstr \<Rightarrow> byte list" where
  "prop_or_empty props name = (case props name of None \<Rightarrow> [] | Some v \<Rightarrow> v)"

definition phandle :: "(pstr \<rightharpoonup> byte list) \<Rightarrow> py_error + nat option" where
  "phandle props = (case props (u ''phandle'') of
     None \<Rightarrow> Inr None
   | Some v \<Rightarrow> (case cells v of [] \<Rightarrow> Inl IndexError | w # _ \<Rightarrow> Inr (Some w)))"

definition iommu_line :: "pstr \<Rightarrow> pstr list \<Rightarrow> nat option \<Rightarrow> pstr" where
  "iommu_line path compatible handle =
     u ''iommu-node: '' @ path @ u '' compatible='' @ join (u '','') compatible
     @ u '' phandle='' @ (case handle of Some h \<Rightarrow> str_nat h | None \<Rightarrow> u ''-'')"

definition report_iommu :: "iommu_dict \<times> pstr list \<Rightarrow> fdt_node \<Rightarrow> py_error + iommu_dict \<times> pstr list" where
  "report_iommu st node = (case (st, node) of ((iommus, out), (path, props)) \<Rightarrow>
     let compatible = text_list (prop_or_empty props (u ''compatible'')) in
     if is_iommu compatible then
       bindR (phandle props) (\<lambda>handle.
         Inr (AList.update handle path iommus, out @ [iommu_line path compatible handle]))
     else Inr (iommus, out))"

definition property_note :: "iommu_dict \<Rightarrow> pstr \<Rightarrow> nat list \<Rightarrow> pstr" where
  "property_note iommus name words =
     (if name = u ''iommus'' then
        (case words of [] \<Rightarrow> []
         | w # _ \<Rightarrow> u '' -> '' @ (case map_of iommus (Some w) of
             Some path \<Rightarrow> path
           | None \<Rightarrow> u ''phandle '' @ str_nat w @ u '' (not an IOMMU node)''))
      else [])"

definition report_property ::
  "iommu_dict \<Rightarrow> pstr \<Rightarrow> (pstr \<rightharpoonup> byte list) \<Rightarrow> nat \<times> pstr list \<Rightarrow> pstr \<Rightarrow> nat \<times> pstr list" where
  "report_property iommus path props st name = (case st of (carriers, out) \<Rightarrow>
     (case props name of
        None \<Rightarrow> (carriers, out)
      | Some v \<Rightarrow>
          let words = cells v;
              line = u ''property: '' @ path @ u '' '' @ name @ u ''=<''
                @ join (u '' '') (map hex_prefixed words) @ u ''>'' @ property_note iommus name words in
          ((if name \<noteq> u ''dma-ranges'' then carriers + 1 else carriers), out @ [line])))"

definition report_carriers :: "iommu_dict \<Rightarrow> fdt_node list \<Rightarrow> nat \<times> pstr list \<Rightarrow> nat \<times> pstr list" where
  "report_carriers iommus nodes st =
     foldl (\<lambda>st (path, props). foldl (report_property iommus path props) st IOMMU_PROPERTIES) st nodes"

definition report_subtree :: "fdt_node list \<Rightarrow> pstr \<Rightarrow> pstr list" where
  "report_subtree nodes root =
     (let matched = filter (\<lambda>(p, q). list_ex (\<lambda>part. startswith part root) (split_on 47 p)) nodes in
      if matched = [] then [u ''subtree: '' @ root @ u '' absent'']
      else map (\<lambda>(path, props).
        let held = filter (\<lambda>n. props n \<noteq> None) IOMMU_PROPERTIES in
        u ''subtree: '' @ path @ u '' iommu-properties=''
          @ (if held \<noteq> [] then join (u '','') held else u ''none'')) matched)"

definition verdict_line :: "nat \<Rightarrow> nat \<Rightarrow> pstr" where
  "verdict_line carriers iommus =
     u ''verdict: '' @ str_nat carriers @ u '' node(s) carry iommus/iommu-map; ''
     @ str_nat iommus @ u '' IOMMU node(s)''"

definition report_nodes :: "fdt_node list \<Rightarrow> py_error + pstr list" where
  "report_nodes nodes =
     bindR (foldM report_iommu ([], []) nodes) (\<lambda>(iommus, out).
       let out1 = (if iommus = [] then out @ [u ''iommu-node: none''] else out);
           (carriers, out2) = report_carriers iommus nodes (0, out1) in
       Inr (out2 @ concat (map (report_subtree nodes) SUBTREES)
            @ [verdict_line carriers (length iommus)]))"

definition report :: "byte list \<Rightarrow> py_error + pstr list" where
  "report dtb = bindR (parse_fdt dtb) report_nodes"

text \<open>
  The report command of \<open>main\<close>: the exit status, and what it printed or the
  \<open>ValueError\<close> it reports as \<open>dtb: error=\<close>.  Every other exception escapes.
\<close>

definition report_command :: "byte list \<Rightarrow> py_error + int \<times> (py_error + pstr list)" where
  "report_command dtb = (case report dtb of
     Inr out \<Rightarrow> Inr (0, Inr out)
   | Inl (ValueError m) \<Rightarrow> Inr (1, Inl (ValueError m))
   | Inl UnicodeError \<Rightarrow> Inr (1, Inl UnicodeError)
   | Inl e \<Rightarrow> Inl e)"

subsection \<open>What the verdict counts\<close>

definition iommu_node :: "fdt_node \<Rightarrow> bool" where
  "iommu_node node = is_iommu (text_list (prop_or_empty (snd node) (u ''compatible'')))"

definition handles :: "fdt_node list \<Rightarrow> nat option set" where
  "handles nodes = {h. \<exists>node\<in>set nodes. iommu_node node \<and> phandle (snd node) = Inr h}"

definition carried :: "fdt_node list \<Rightarrow> nat" where
  "carried nodes = sum_list (map (\<lambda>(path, props).
     length (filter (\<lambda>n. props n \<noteq> None) [u ''iommus'', u ''iommu-map'', u ''iommu-map-mask''])) nodes)"

lemma report_iommu_step:
  "report_iommu (iommus, out) node =
     (if iommu_node node then bindR (phandle (snd node)) (\<lambda>h.
        Inr (AList.update h (fst node) iommus,
             out @ [iommu_line (fst node) (text_list (prop_or_empty (snd node) (u ''compatible''))) h]))
      else Inr (iommus, out))"
  by (simp add: report_iommu_def iommu_node_def Let_def split: prod.split)

definition iommu_inv :: "iommu_dict \<times> pstr list \<Rightarrow> bool" where
  "iommu_inv st \<longleftrightarrow> distinct (map fst (fst st))"

interpretation iommus: step_invariant report_iommu iommu_inv
proof
  fix s x s' assume "iommu_inv s" and "report_iommu s x = Inr s'"
  then show "iommu_inv s'"
    by (cases s) (auto simp: report_iommu_step iommu_inv_def distinct_update split: if_splits)
qed

lemma report_iommu_handles:
  assumes "foldM report_iommu (iommus, out) nodes = Inr (iommus', out')"
  shows "fst ` set iommus' = fst ` set iommus \<union> handles nodes"
  using assms
proof (induction nodes arbitrary: iommus out)
  case (Cons node nodes)
  show ?case
  proof (cases "iommu_node node")
    case True
    with Cons.prems obtain h out1 where h: "phandle (snd node) = Inr h"
      and rest: "foldM report_iommu (AList.update h (fst node) iommus, out1) nodes = Inr (iommus', out')"
      by (auto simp: report_iommu_step)
    have "fst ` set (AList.update h (fst node) iommus) = insert h (fst ` set iommus)"
      by (simp add: update_conv' flip: dom_map_of_conv_image_fst)
    moreover have "handles (node # nodes) = insert h (handles nodes)"
      using True h by (auto simp: handles_def)
    ultimately show ?thesis using Cons.IH [OF rest] by auto
  next
    case False
    then have "handles (node # nodes) = handles nodes" by (auto simp: handles_def)
    with False Cons show ?thesis by (simp add: report_iommu_step)
  qed
qed (simp add: handles_def)

lemma report_iommu_total:
  "(\<exists>st'. foldM report_iommu st nodes = Inr st') \<longleftrightarrow> (\<forall>node\<in>set nodes. iommu_node node \<longrightarrow> (\<exists>h. phandle (snd node) = Inr h))"
proof (induction nodes arbitrary: st)
  case (Cons node nodes)
  obtain iommus out where st: "st = (iommus, out)" by (cases st)
  show ?case
  proof (cases "iommu_node node \<and> (\<nexists>h. phandle (snd node) = Inr h)")
    case True
    then obtain e where "phandle (snd node) = Inl e" by (cases "phandle (snd node)") auto
    with True show ?thesis by (auto simp: st report_iommu_step)
  next
    case False
    then have "\<exists>st1. report_iommu st node = Inr st1"
      by (cases "iommu_node node") (auto simp: st report_iommu_step)
    then obtain st1 where "report_iommu st node = Inr st1" ..
    with Cons False show ?thesis by auto
  qed
qed simp

lemma report_property_fst:
  "fst (report_property iommus path props st name)
     = fst st + (if props name \<noteq> None \<and> name \<noteq> u ''dma-ranges'' then 1 else 0)"
  by (auto simp: report_property_def Let_def split: prod.split option.split)

lemma report_carriers_fst: "fst (report_carriers iommus nodes st) = fst st + carried nodes"
proof (induction nodes arbitrary: st)
  case (Cons node nodes)
  obtain path props where node: "node = (path, props)" by (cases node)
  have "fst (foldl (report_property iommus path props) st IOMMU_PROPERTIES)
      = fst st + length (filter (\<lambda>n. props n \<noteq> None) [u ''iommus'', u ''iommu-map'', u ''iommu-map-mask''])"
    by (simp add: IOMMU_PROPERTIES_def report_property_fst)
  with Cons show ?case by (simp add: node report_carriers_def carried_def)
qed (simp add: report_carriers_def carried_def)


end
