(* ===== verification/Trace_Text.thy ===== *)
theory Trace_Text
  imports Text "HOL-Library.AList"
begin

section \<open>The text of traces and of TLC's answer\<close>

text \<open>
  What the two trace validators, \<open>scripts/validate_log_ring_trace.py\<close> and
  \<open>scripts/validate_protocol_trace.py\<close>, share: the framing of a report window in
  a UART log, the regular expressions they match (each one written out as the
  function it is: every quantifier is followed by a character it cannot
  match, so the greedy match is the only one), and \<open>behaviour\<close>, which reads the
  error trace TLC prints.  TLC itself is a parameter of the validators: a
  function from the generated module and configuration to the text it prints.
  \<open>uw\<close> is the interpreter's table of word characters beyond ASCII.
\<close>

subsection \<open>Lines\<close>

definition line_break :: "nat \<Rightarrow> bool" where
  "line_break c \<longleftrightarrow> (10 \<le> c \<and> c \<le> 13) \<or> (28 \<le> c \<and> c \<le> 30) \<or> c = 133 \<or> c = 8232 \<or> c = 8233"

text \<open>\<open>str.splitlines()\<close>; a carriage return and a line feed are one break.\<close>

fun splitlines_loop :: "pstr \<Rightarrow> pstr \<Rightarrow> pstr list" where
  "splitlines_loop cur [] = (if cur = [] then [] else [cur])"
| "splitlines_loop cur [c] = (if line_break c then [cur] else [cur @ [c]])"
| "splitlines_loop cur (c # d # cs) =
     (if c = 13 \<and> d = 10 then cur # splitlines_loop [] cs
      else if line_break c then cur # splitlines_loop [] (d # cs)
      else splitlines_loop (cur @ [c]) (d # cs))"

definition splitlines :: "pstr \<Rightarrow> pstr list" where
  "splitlines s = splitlines_loop [] s"

text \<open>
  \<open>^prefix(.*)$\<close> with \<open>match\<close>: the dot is anything but a line feed, and the end is
  the end of the text or before a final line feed.
\<close>

definition at_end :: "pstr \<Rightarrow> bool" where
  "at_end s \<longleftrightarrow> s = [] \<or> s = [10]"

definition rest_of_line :: "pstr \<Rightarrow> pstr option" where
  "rest_of_line s = (let r = takeWhile (\<lambda>c. c \<noteq> 10) s in
     if at_end (drop (length r) s) then Some r else None)"

definition line_body :: "pstr \<Rightarrow> pstr \<Rightarrow> pstr option" where
  "line_body prefix line =
     (if startswith line prefix then rest_of_line (drop (length prefix) line) else None)"

definition bodies :: "pstr \<Rightarrow> pstr list \<Rightarrow> pstr list" where
  "bodies prefix lines = List.map_filter (line_body prefix) lines"

text \<open>Where the report windows of a log begin.\<close>

definition begin_indices :: "pstr list \<Rightarrow> nat list" where
  "begin_indices body = filter (\<lambda>i. startswith (body ! i) (u ''begin '')) [0..<length body]"

text \<open>\<open>^lit(\d+)lit(\d+)...$\<close> with \<open>match\<close>: the digits after each literal.\<close>

fun digit_fields :: "pstr list \<Rightarrow> pstr \<Rightarrow> pstr list option" where
  "digit_fields [] s = (if at_end s then Some [] else None)"
| "digit_fields (lit # lits) s =
     (if startswith s lit then
        (let r = drop (length lit) s; ds = takeWhile is_decimal r in
         if ds = [] then None
         else map_option ((#) ds) (digit_fields lits (drop (length ds) r)))
      else None)"

text \<open>\<open>re.search(r"lit(\d+)", s)\<close>.\<close>

fun search_digits :: "pstr \<Rightarrow> pstr \<Rightarrow> pstr option" where
  "search_digits lit [] = None"
| "search_digits lit (c # cs) =
     (let ds = takeWhile is_decimal (drop (length lit) (c # cs)) in
      if startswith (c # cs) lit \<and> ds \<noteq> [] then Some ds else search_digits lit cs)"

text \<open>\<open>re.search(r"pre(\w+)post", s)\<close>, where \<open>post\<close> starts with a space.\<close>

fun search_word :: "(nat \<Rightarrow> bool) \<Rightarrow> pstr \<Rightarrow> pstr \<Rightarrow> pstr \<Rightarrow> pstr option" where
  "search_word uw pre post [] = None"
| "search_word uw pre post (c # cs) =
     (let w = takeWhile (is_word uw) (drop (length pre) (c # cs)) in
      if startswith (c # cs) pre \<and> w \<noteq> [] \<and> startswith (drop (length pre + length w) (c # cs)) post
      then Some w else search_word uw pre post cs)"

subsection \<open>TLC's error trace\<close>

text \<open>\<open>STATE_RE\<close>: \<open>^State (\d+): \<close>; \<open>VAR_RE\<close>: \<open>^/\\ (\w+) = (.*)$\<close>.\<close>

definition state_heading :: "pstr \<Rightarrow> bool" where
  "state_heading line \<longleftrightarrow> startswith line (u ''State '') \<and>
     (let r = drop 6 line; ds = takeWhile is_decimal r in
      ds \<noteq> [] \<and> startswith (drop (length ds) r) (u '': ''))"

definition var_line :: "(nat \<Rightarrow> bool) \<Rightarrow> pstr \<Rightarrow> (pstr \<times> pstr) option" where
  "var_line uw line =
     (if startswith line [47, 92, 32] then
        (let r = drop 3 line; w = takeWhile (is_word uw) r; r' = drop (length w) r in
         if w \<noteq> [] \<and> startswith r' (u '' = '')
         then map_option (\<lambda>v. (w, v)) (rest_of_line (drop 3 r')) else None)
      else None)"

type_synonym tlc_state = "(pstr \<times> pstr) list"

fun behaviour_line :: "(nat \<Rightarrow> bool) \<Rightarrow> tlc_state list \<Rightarrow> pstr \<Rightarrow> tlc_state list" where
  "behaviour_line uw states line =
     (if state_heading line \<or> contains (u ''is violated by the initial state'') line then states @ [[]]
      else if states \<noteq> [] then
        (case var_line uw line of
           None \<Rightarrow> states
         | Some (k, v) \<Rightarrow> butlast states @ [AList.update k v (last states)])
      else states)"

definition behaviour :: "(nat \<Rightarrow> bool) \<Rightarrow> pstr \<Rightarrow> tlc_state list" where
  "behaviour uw output = foldl (behaviour_line uw) [] (splitlines output)"

definition lookup_or :: "tlc_state \<Rightarrow> pstr \<Rightarrow> pstr \<Rightarrow> pstr" where
  "lookup_or st k d = (case map_of st k of None \<Rightarrow> d | Some v \<Rightarrow> v)"

text \<open>\<open>counts\<close> of \<open>check\<close>: how often each known action labels a step.\<close>

definition act_name :: "tlc_state \<Rightarrow> pstr" where
  "act_name st = strip [34] (lookup_or st (u ''act'') [])"

definition count_actions :: "pstr list \<Rightarrow> tlc_state list \<Rightarrow> pstr \<Rightarrow> nat" where
  "count_actions actions states =
     foldl (\<lambda>counts st. let name = act_name st in
       if name \<in> set actions then counts(name := counts name + 1) else counts) (\<lambda>_. 0) states"

text \<open>The steps of \<open>REQUIRED\<close> the matched behaviour never took (\<open>unseen\<close> of \<open>main\<close>).\<close>

definition unseen_steps :: "pstr list list \<Rightarrow> pstr option \<Rightarrow> (pstr \<Rightarrow> nat) \<Rightarrow> pstr list" where
  "unseen_steps required without counts =
     map (join (u '' or ''))
       (filter (\<lambda>step. without \<notin> Some ` set step \<and> \<not> list_ex (\<lambda>name. 0 < counts name) step) required)"

definition show_state :: "tlc_state \<Rightarrow> pstr" where
  "show_state st = join [10] (map (\<lambda>(k, v). u ''    '' @ k @ u '' = '' @ v) st)"

definition last_state :: "tlc_state list \<Rightarrow> tlc_state" where
  "last_state states = (if states \<noteq> [] then last states else [])"

definition seen_counts :: "pstr list \<Rightarrow> (pstr \<Rightarrow> nat) \<Rightarrow> pstr" where
  "seen_counts actions counts = join (u '', '') (map (\<lambda>a. a @ u ''='' @ str_nat (counts a)) actions)"

text \<open>\<open>--model NAME=BOOL\<close>; \<open>parser.error\<close> exits with status 2.\<close>

definition partition_eq :: "pstr \<Rightarrow> pstr \<times> pstr" where
  "partition_eq item = (let name = takeWhile (\<lambda>c. c \<noteq> 61) item in (name, drop (length name + 1) item))"

definition model_items :: "pstr list \<Rightarrow> pstr list \<Rightarrow> py_error + (pstr \<times> bool) list" where
  "model_items constants items =
     foldM (\<lambda>model item. case partition_eq item of (name, flag) \<Rightarrow>
       if name \<notin> set constants \<or> flag \<notin> {u ''TRUE'', u ''FALSE''} then Inl (SystemExit 2)
       else Inr (AList.update name (flag = u ''TRUE'') model)) [] items"

text \<open>\<open>events[at]\<close> for any integer: a negative index counts from the end.\<close>

definition py_nth :: "'a list \<Rightarrow> int \<Rightarrow> py_error + 'a" where
  "py_nth xs i = (let n = int (length xs); j = (if i < 0 then i + n else i) in
     if 0 \<le> j \<and> j < n then Inr (xs ! nat j) else Inl IndexError)"

text \<open>
  \<open>tlc module config\<close> is what the TLC process prints for the two files, or the
  \<open>TraceError\<close> of a missing tool.
\<close>

type_synonym tlc_run = "pstr \<Rightarrow> pstr \<Rightarrow> py_error + pstr"

text \<open>Quoting and lines of a generated module.\<close>

definition quoted :: "pstr \<Rightarrow> pstr" where
  "quoted s = u ''\"'' @ s @ u ''\"''"

definition line :: "pstr \<Rightarrow> pstr" where
  "line s = s @ [10]"

text \<open>What \<open>main\<close> prints and returns.\<close>

datatype verdict_line =
    Printed pstr
  | Failed pstr py_error  \<comment> \<open>the prefix and the \<open>TraceError\<close> it prints\<close>

lemma count_actions_eq:
  "count_actions actions states name =
     (if name \<in> set actions then length (filter (\<lambda>st. act_name st = name) states) else 0)"
proof -
  have "foldl (\<lambda>counts st. let name = act_name st in
       if name \<in> set actions then counts(name := counts name + 1) else counts) f states name
     = f name + (if name \<in> set actions then length (filter (\<lambda>st. act_name st = name) states) else 0)" for f
    by (induction states arbitrary: f) (auto simp: Let_def)
  from this [of "\<lambda>_. 0"] show ?thesis by (simp add: count_actions_def)
qed

lemma unseen_steps_empty:
  "unseen_steps required without counts = [] \<longleftrightarrow>
     (\<forall>step\<in>set required. without \<in> Some ` set step \<or> (\<exists>name\<in>set step. 0 < counts name))"
  by (auto simp: unseen_steps_def filter_empty_conv list_ex_iff)

lemma decimal_digits_int:
  assumes "ds \<noteq> []" and "list_all is_decimal ds"
  shows "\<exists>n. py_int ds = Inr (int n)"
proof -
  have dv: "\<exists>d<10. digit_value c = Some d \<and> c \<noteq> 95 \<and> c \<noteq> 43 \<and> c \<noteq> 45 \<and> \<not> int_space c" if "is_decimal c" for c
  proof -
    obtain d where d: "decimal_value c = Some d" using \<open>is_decimal c\<close> by (auto simp: is_decimal_def)
    then obtain s where s: "s \<in> set decimal_starts" "s \<le> c" "c < s + 10"
      by (auto simp: decimal_value_def find_Some_iff) (metis nth_mem)
    then have "c \<notin> {95, 43, 45} \<and> \<not> (97 \<le> c \<and> c \<le> 122) \<and> \<not> (65 \<le> c \<and> c \<le> 90)"
      by (auto simp: decimal_starts_def)
    moreover have "\<not> int_space c" using decimal_not_space [OF \<open>is_decimal c\<close>] 
      by (auto simp: int_space_def isspace_char_def)
    ultimately show ?thesis using d decimal_value_bound [OF d] by (auto simp: digit_value_def)
  qed
  have digits: "\<exists>n. int_digits 10 b acc cs = Some n" if "list_all is_decimal cs" "b \<or> cs \<noteq> []" for b acc cs
    using that
  proof (induction cs arbitrary: b acc)
    case (Cons c cs)
    then obtain d where "d < 10" "digit_value c = Some d" "c \<noteq> 95" using dv [of c] by auto
    then show ?case using Cons by simp
  qed simp
  have "int_trim ds = ds"
    by (rule int_trim_id) (use assms dv [of "hd ds"] dv [of "List.last ds"] in \<open>auto simp: list_all_iff\<close>)
  moreover have "int_sign ds = (1, ds)"
    using assms dv [of "hd ds"] by (cases ds) (auto simp: int_sign_def)
  ultimately show ?thesis
    using digits [of ds False 0] assms by (auto simp: py_int_def int_result_def)
qed

lemma digit_fields_decimal:
  "digit_fields lits s = Some fs \<Longrightarrow> length fs = length lits \<and> (\<forall>f\<in>set fs. f \<noteq> [] \<and> list_all is_decimal f)"
proof (induction lits s arbitrary: fs rule: digit_fields.induct)
  case (2 lit lits s)
  then show ?case by (fastforce simp: Let_def list_all_iff split: if_splits dest: set_takeWhileD)
qed (auto split: if_splits)

lemma header_ints:
  assumes "digit_fields lits s = Some groups" and "mapM py_int groups = Inr ns"
  shows "length ns = length lits" and "\<forall>n\<in>set ns. 0 \<le> n"
proof -
  note d = digit_fields_decimal [OF assms(1)]
  show "length ns = length lits" using d length_mapM [OF assms(2)] by simp
  have "\<forall>n\<in>set ns. 0 \<le> n" if "mapM py_int gs = Inr ns" "\<forall>f\<in>set gs. f \<noteq> [] \<and> list_all is_decimal f" for gs ns
    using that
  proof (induction gs arbitrary: ns)
    case (Cons g gs)
    obtain n where "py_int g = Inr (int n)" using decimal_digits_int [of g] Cons.prems(2) by auto
    with Cons show ?case by auto
  qed simp
  with assms(2) d show "\<forall>n\<in>set ns. 0 \<le> n" by blast
qed

lemma begin_indices_single:
  assumes "length (begin_indices body) = 1"
  shows "begin_indices body ! 0 < length body"
    and "startswith (body ! (begin_indices body ! 0)) (u ''begin '')"
    and "j < length body \<Longrightarrow> startswith (body ! j) (u ''begin '') \<Longrightarrow> j = begin_indices body ! 0"
proof -
  obtain i where i: "begin_indices body = [i]" using assms by (auto simp: length_Suc_conv)
  have mem: "j \<in> set (begin_indices body) \<longleftrightarrow> j < length body \<and> startswith (body ! j) (u ''begin '')" for j
    by (auto simp: begin_indices_def)
  show "begin_indices body ! 0 < length body" "startswith (body ! (begin_indices body ! 0)) (u ''begin '')"
    using mem [of i] i by auto
  show "j < length body \<Longrightarrow> startswith (body ! j) (u ''begin '') \<Longrightarrow> j = begin_indices body ! 0"
    using mem [of j] i by auto
qed

text \<open>A whole window: its header, the lines between, and its end line.\<close>

lemma window_frame:
  assumes one: "length (begin_indices body) = 1" and i: "i = begin_indices body ! 0"
    and tail: "tail = drop (i + 1) body" and ne: "tail \<noteq> []" and fin: "last tail = u ''end''"
  shows "body = take i body @ body ! i # butlast tail @ [u ''end'']"
    and "startswith (body ! i) (u ''begin '')"
    and "list_all (\<lambda>t. \<not> startswith t (u ''begin '')) (take i body @ butlast tail)"
proof -
  note single = begin_indices_single [OF one, folded i]
  have "butlast tail @ [u ''end''] = tail" using ne fin append_butlast_last_id [of tail] by simp
  then show "body = take i body @ body ! i # butlast tail @ [u ''end'']"
    using id_take_nth_drop [OF single(1)] by (simp add: tail)
  show "startswith (body ! i) (u ''begin '')" by (rule single(2))
  have "\<exists>j<length body. body ! j = t \<and> j \<noteq> i" if "t \<in> set (take i body) \<or> t \<in> set tail" for t
    using that
  proof
    assume "t \<in> set (take i body)"
    then obtain j where "j < i" "j < length body" "body ! j = t" by (auto simp: in_set_conv_nth)
    then show ?thesis by auto
  next
    assume "t \<in> set tail"
    then obtain k where k: "k < length tail" "tail ! k = t" by (auto simp: in_set_conv_nth)
    then have "i + 1 + k < length body" "body ! (i + 1 + k) = t" by (auto simp: tail)
    then show ?thesis by (intro exI [of _ "i + 1 + k"]) simp
  qed
  then have "\<not> startswith t (u ''begin '')" if "t \<in> set (take i body) \<or> t \<in> set tail" for t
    using that single(3) by blast
  then show "list_all (\<lambda>t. \<not> startswith t (u ''begin '')) (take i body @ butlast tail)"
    by (auto simp: list_all_iff dest: in_set_butlastD)
qed

text \<open>
  The actions a script counts and the steps it requires: every required step is one
  the script counts.
\<close>

locale required_actions =
  fixes actions :: "pstr list" and required :: "pstr list list"
  assumes known: "step \<in> set required \<Longrightarrow> set step \<subseteq> set actions"
begin

lemma unseen_counts:
  "unseen_steps required without (count_actions actions states) = [] \<longleftrightarrow>
     list_all (\<lambda>step. without \<in> Some ` set step \<or> list_ex (\<lambda>st. act_name st \<in> set step) states) required"
proof -
  have "(\<exists>name\<in>set step. 0 < count_actions actions states name) \<longleftrightarrow> (\<exists>st\<in>set states. act_name st \<in> set step)"
    if "step \<in> set required" for step
    using known [OF that] by (auto simp: count_actions_eq filter_empty_conv)
  then show ?thesis by (auto simp: unseen_steps_empty list_all_iff list_ex_iff)
qed

end

subsection \<open>Evaluation\<close>

text \<open>What the simplifier needs to run the text functions on a literal.\<close>

lemmas text_eval = u_def startswith_def is_decimal_latin isdigit_char_latin decimal_value_latin digit_value_def
  isdigit_def isspace_char_def int_space_def py_int_def py_int0_def int_sign_def int_trim_def int_result_def
  int_prefix_base_def split_ws_def rest_of_line_def line_body_def at_end_def List.map_filter_def

end
