(* ===== verification/LogRing.thy ===== *)
theory LogRing
  imports Trace_Text "HOL-Library.Product_Lexorder"
begin

unbundle bit_operations_syntax

section \<open>The log-ring trace validator\<close>

text \<open>
  \<open>scripts/validate_log_ring_trace.py\<close>: a window of the kernel log ring's events is
  parsed from a UART log into one stream of events per writing CPU and one for the
  reader (\<open>parse\<close>), the state the window opens in is taken from the events
  (\<open>opening\<close>, here \<open>opening_of\<close>), counter stamps are rebased (\<open>stamps\<close>), the TLA+ module TLC reads is
  written out (\<open>trace_module\<close>, \<open>trace_config\<close>), and TLC's answer becomes the
  verdict (\<open>check\<close>, \<open>main\<close>).  A stream's list of events is the element of
  \<open>streams\<close> at the stream's number.  TLC is the parameter \<open>tlc\<close>.
\<close>

subsection \<open>Words, events and the window\<close>

datatype slot_state = Free | Reserved | Committed | Discarded

definition STATES :: "int \<Rightarrow> slot_state" where
  "STATES v = (if v = 0 then Free else if v = 1 then Reserved else if v = 2 then Committed else Discarded)"

fun state_name :: "slot_state \<Rightarrow> pstr" where
  "state_name Free = u ''Free''"
| "state_name Reserved = u ''Reserved''"
| "state_name Committed = u ''Committed''"
| "state_name Discarded = u ''Discarded''"

fun STATE_RANK :: "slot_state \<Rightarrow> int" where
  "STATE_RANK Free = 0"
| "STATE_RANK Reserved = 1"
| "STATE_RANK Committed = 2"
| "STATE_RANK Discarded = 2"

record slot_word =
  w_seq :: int
  w_state :: slot_state
  w_span :: int

definition word_of :: "int \<Rightarrow> slot_state \<Rightarrow> int \<Rightarrow> slot_word" where
  "word_of seq st span = \<lparr>w_seq = seq, w_state = st, w_span = span\<rparr>"

definition key :: "slot_word \<Rightarrow> int \<times> int" where
  "key w = (w_seq w, STATE_RANK (w_state w))"

definition decode :: "pstr \<Rightarrow> py_error + slot_word" where
  "decode token = (case py_int0 token of
     Inl _ \<Rightarrow> Inl (TraceWord token)
   | Inr raw \<Rightarrow>
       let st = STATES (raw AND 3) in
       if st = Free then
         (if raw \<noteq> 0 then Inl (TraceError (u ''a Free slot word that is not 0: '' @ token))
          else Inr (word_of (- 1) Free 0))
       else Inr (word_of (drop_bit 16 raw) st (drop_bit 4 raw AND 15)))"

record event =
  e_stream :: nat
  e_kind :: pstr
  e_first :: int
  e_k :: int
  e_i :: int
  e_seq :: int
  e_word :: "slot_word option"
  e_out :: pstr
  e_line :: pstr
  e_t0 :: "int option"
  e_t1 :: "int option"

record window =
  cpus :: int
  slots :: int
  head :: int
  streams :: "event list list"
  reader_first :: "int option"
  reader_end :: "int option"

definition MODEL_K :: int where "MODEL_K = 2"
definition COUNTER_MARGIN :: int where "COUNTER_MARGIN = 2"
definition UNSTAMPED :: int where "UNSTAMPED = 2 ^ 30"

definition WRITER_KINDS :: "pstr \<rightharpoonup> nat" where
  "WRITER_KINDS = map_of [(u ''reserve'', 2), (u ''claim'', 4), (u ''refuse'', 4),
     (u ''commitlost'', 4), (u ''write'', 3), (u ''commit'', 3)]"

definition READER_KINDS :: "pstr \<rightharpoonup> pstr list option" where
  "READER_KINDS = map_of [(u ''head'', Some [u ''copy'', u ''lost'', u ''skip'']), (u ''copy'', None),
     (u ''check'', Some [u ''kept'', u ''lost'', u ''cont'']), (u ''ccopy'', Some [u ''copy'', u ''lost'']),
     (u ''ccheck'', Some [u ''kept'', u ''lost''])]"

subsection \<open>Parsing the window\<close>

definition malformed :: "pstr \<Rightarrow> py_error + 'a" where
  "malformed text = Inl (TraceError (u ''malformed event: '' @ text))"

definition number :: "pstr \<Rightarrow> pstr \<Rightarrow> py_error + int" where
  "number token text = (if \<not> isdigit token then malformed text else py_int token)"

text \<open>The stamp a line may end in, and the fields without it.\<close>

definition split_stamp :: "pstr \<Rightarrow> pstr list \<Rightarrow> py_error + (int \<times> int) option \<times> pstr list" where
  "split_stamp text flds =
     (if startswith (last flds) (u ''@'') then
        (case digit_fields [u ''@'', u ''+''] (last flds) of
           None \<Rightarrow> Inl (TraceError (u ''malformed stamp: '' @ text))
         | Some ds \<Rightarrow> bindR (py_int (ds ! 0)) (\<lambda>t. bindR (py_int (ds ! 1)) (\<lambda>d.
             Inr (Some (t, t + d), butlast flds))))
      else Inr (None, flds))"

definition append_event :: "window \<Rightarrow> nat \<Rightarrow> event \<Rightarrow> window" where
  "append_event w s e = w\<lparr>streams := (streams w)[s := streams w ! s @ [e]]\<rparr>"

definition new_event :: "nat \<Rightarrow> pstr \<Rightarrow> int \<Rightarrow> int \<Rightarrow> int \<Rightarrow> pstr \<Rightarrow> (int \<times> int) option \<Rightarrow> event" where
  "new_event s kind first k seq text stamp =
     \<lparr>e_stream = s, e_kind = kind, e_first = first, e_k = k, e_i = 0, e_seq = seq, e_word = None,
      e_out = [], e_line = text, e_t0 = map_option fst stamp, e_t1 = map_option snd stamp\<rparr>"

definition reader_begin :: "window \<Rightarrow> pstr \<Rightarrow> pstr list \<Rightarrow> py_error + window" where
  "reader_begin w text args =
     (if reader_first w \<noteq> None \<or> streams w ! 0 \<noteq> [] then
        Inl (TraceError (u ''the reader's begin is not its first and only one: '' @ text))
      else if length args \<noteq> 2 then malformed text
      else bindR (number (args ! 0) text) (\<lambda>a. bindR (number (args ! 1) text) (\<lambda>b.
        Inr (w\<lparr>reader_first := Some a, reader_end := Some b\<rparr>))))"

definition too_wide :: "int \<Rightarrow> pstr \<Rightarrow> py_error + 'a" where
  "too_wide k text = Inl (TraceError (u ''a record of '' @ str_int k
     @ u '' slot(s) is outside LogRing.tla's bound K = '' @ str_int MODEL_K @ u '': '' @ text))"

definition reader_event ::
  "window \<Rightarrow> pstr \<Rightarrow> (int \<times> int) option \<Rightarrow> pstr \<Rightarrow> pstr list \<Rightarrow> py_error + window" where
  "reader_event w text stamp kind args =
     (if reader_first w = None then Inl (TraceError (u ''a reader event before its begin: '' @ text))
      else case READER_KINDS kind of
        None \<Rightarrow> malformed text
      | Some outs \<Rightarrow>
          if length args \<noteq> (if outs = None then 1 else 3) then malformed text
          else bindR (number (args ! 0) text) (\<lambda>seq.
            let e = new_event 0 kind 0 0 seq text stamp in
            case outs of
              None \<Rightarrow> Inr (append_event w 0 e)
            | Some os \<Rightarrow>
                bindR (decode (args ! 1)) (\<lambda>word.
                  if w_span word > MODEL_K then too_wide (w_span word) text
                  else if args ! 2 \<notin> set os then malformed text
                  else Inr (append_event w 0 (e\<lparr>e_word := Some word, e_out := args ! 2\<rparr>)))))"

text \<open>\<open>re.fullmatch(r"w(\d+)", who)\<close>.\<close>

definition writer_cpu :: "pstr \<Rightarrow> pstr option" where
  "writer_cpu who = (case who of [] \<Rightarrow> None
     | c # ds \<Rightarrow> if c = 119 \<and> ds \<noteq> [] \<and> list_all is_decimal ds then Some ds else None)"

definition writer_event ::
  "window \<Rightarrow> pstr \<Rightarrow> (int \<times> int) option \<Rightarrow> pstr \<Rightarrow> pstr \<Rightarrow> pstr list \<Rightarrow> py_error + window" where
  "writer_event w text stamp who kind args =
     (case (writer_cpu who, WRITER_KINDS kind) of
        (Some ds, Some want) \<Rightarrow>
          bindR (py_int ds) (\<lambda>cpu.
          if cpu \<ge> cpus w then
            Inl (TraceError (u ''an event of cpu '' @ str_int cpu @ u '' in a window of ''
              @ str_int (cpus w) @ u '' cpu(s): '' @ text))
          else if length args \<noteq> want then malformed text
          else bindR (number (args ! 0) text) (\<lambda>first. bindR (number (args ! 1) text) (\<lambda>k.
          if \<not> (1 \<le> k \<and> k \<le> MODEL_K) then too_wide k text
          else let e = new_event (nat cpu + 1) kind first k first text stamp in
          bindR (if want \<ge> 3 then
                   bindR (number (args ! 2) text) (\<lambda>i.
                     if i \<ge> k then Inl (TraceError (u ''slot index past its record: '' @ text))
                     else Inr (e\<lparr>e_i := i, e_seq := first + i\<rparr>))
                 else Inr e) (\<lambda>e.
          bindR (if want = 4 then bindR (decode (args ! 3)) (\<lambda>word. Inr (e\<lparr>e_word := Some word\<rparr>))
                 else Inr e) (\<lambda>e.
          Inr (append_event w (nat cpu + 1) e))))))
      | _ \<Rightarrow> malformed text)"

definition parse_event :: "window \<Rightarrow> pstr \<Rightarrow> py_error + window" where
  "parse_event w text =
     (let flds = split_ws text in
      if length flds < 2 then malformed text
      else bindR (split_stamp text flds) (\<lambda>(stamp, flds).
        if length flds < 2 then Inl IndexError
        else let who = flds ! 0; kind = flds ! 1; args = drop 2 flds in
          if stamp \<noteq> None \<and> who = u ''r'' \<and> kind = u ''begin'' then
            Inl (TraceError (u ''the reader's begin carries no stamp: '' @ text))
          else if who = u ''r'' then
            (if kind = u ''begin'' then reader_begin w text args
             else reader_event w text stamp kind args)
          else writer_event w text stamp who kind args))"

definition stamped :: "event list \<Rightarrow> event list" where
  "stamped es = filter (\<lambda>e. e_t0 e \<noteq> None) es"

definition backwards :: "event list \<Rightarrow> (event \<times> event) option" where
  "backwards es = (let st = stamped es in
     find (\<lambda>(before, after). the (e_t0 after) < the (e_t1 before)) (zip st (tl st)))"

fun check_order :: "event list list \<Rightarrow> py_error + unit" where
  "check_order [] = Inr ()"
| "check_order (es # rest) = (case backwards es of
     Some (before, after) \<Rightarrow> Inl (TraceError (u ''a stream's stamps go backwards: ''
       @ e_line before @ u '' then '' @ e_line after))
   | None \<Rightarrow> check_order rest)"

definition ring_prefix :: pstr where "ring_prefix = u ''log-ring-trace: ''"

definition ring_header :: "pstr list" where
  "ring_header = map u [''begin cpus='', '' slots='', '' head='', '' stored='', '' lost='']"

definition parse :: "pstr list \<Rightarrow> py_error + window" where
  "parse lines =
     (let body = bodies ring_prefix lines; begins = begin_indices body in
      if length begins \<noteq> 1 then
        Inl (TraceError (u ''expected one log-ring-trace window, found '' @ str_nat (length begins)))
      else case digit_fields ring_header (body ! (begins ! 0)) of
        None \<Rightarrow> Inl (TraceError (u ''malformed header: '' @ body ! (begins ! 0)))
      | Some groups \<Rightarrow>
          bindR (mapM py_int groups) (\<lambda>ns.
          let events = drop (begins ! 0 + 1) body; stored = ns ! 3; lost = ns ! 4 in
          if events = [] \<or> last events \<noteq> u ''end'' then
            Inl (TraceError (u ''the window has no end line: the report was cut''))
          else let events = butlast events in
          if lost \<noteq> 0 then
            Inl (TraceError (u ''the window lost '' @ str_int lost
              @ u '' event(s); a check with a gap in it proves nothing''))
          else if int (length events) \<noteq> stored then
            Inl (TraceError (u ''the header says '' @ str_int stored @ u '' event(s) and ''
              @ str_nat (length events) @ u '' arrived''))
          else
            bindR (foldM parse_event
              \<lparr>cpus = ns ! 0, slots = ns ! 1, head = ns ! 2, streams = replicate (nat (ns ! 0) + 1) [],
               reader_first = None, reader_end = None\<rparr> events) (\<lambda>w.
            bindR (check_order (streams w)) (\<lambda>_. Inr w))))"

subsection \<open>Stamps\<close>

definition stamp_low :: "window \<Rightarrow> int" where
  "stamp_low w = (case map (\<lambda>e. the (e_t0 e)) (stamped (concat (streams w))) of
     [] \<Rightarrow> 0 | t # ts \<Rightarrow> foldl min t ts) - 1"

definition stamp_event :: "int \<Rightarrow> event \<Rightarrow> py_error + int \<times> int" where
  "stamp_event low e = (case e_t0 e of
     None \<Rightarrow> Inr (0, UNSTAMPED)
   | Some t0 \<Rightarrow>
       let t1 = the (e_t1 e) - low in
       if t1 \<ge> UNSTAMPED then
         Inl (TraceError (u ''the window spans more than '' @ str_int UNSTAMPED
           @ u '' counter ticks: '' @ e_line e))
       else Inr (t0 - low, t1))"

text \<open>The interval of every event, in the shape of \<open>streams\<close>.\<close>

definition stamps :: "window \<Rightarrow> py_error + (int \<times> int) list list" where
  "stamps w = mapM (mapM (stamp_event (stamp_low w))) (streams w)"

subsection \<open>The opening state\<close>

definition mark :: "int \<Rightarrow> int \<Rightarrow> int" where
  "mark k i = (if i = 0 then k else 0)"

definition event_words :: "event \<Rightarrow> (int \<times> slot_word) list" where
  "event_words e =
     (case e_word e of None \<Rightarrow> [] | Some w \<Rightarrow> [(e_seq e, w)])
     @ (if e_kind e \<in> {u ''claim'', u ''write'', u ''commit''}
        then [(e_seq e, word_of (e_seq e) Reserved (mark (e_k e) (e_i e)))] else [])"

definition held_words :: "event \<Rightarrow> int \<Rightarrow> (int \<times> slot_word) list" where
  "held_words first j =
     (let seq = e_first first + j; held = word_of seq Reserved (mark (e_k first) j) in
      if e_kind first \<in> {u ''claim'', u ''refuse''} \<and> j < e_i first then [(seq, held)]
      else if e_kind first = u ''write'' then [(seq, held)]
      else if e_kind first \<in> {u ''commit'', u ''commitlost''} then
        [(seq, if j \<le> e_i first then held else word_of seq Committed (mark (e_k first) j))]
      else [])"

definition stream_words :: "nat \<Rightarrow> event list \<Rightarrow> (int \<times> slot_word) list" where
  "stream_words s events =
     concat (map event_words events)
     @ (if s \<noteq> 0 \<and> events \<noteq> [] \<and> e_kind (hd events) \<noteq> u ''reserve''
        then concat (map (\<lambda>j. held_words (hd events) (int j)) [0..<nat (e_k (hd events))]) else [])"

definition implied_words :: "window \<Rightarrow> (int \<times> slot_word) list" where
  "implied_words w = concat (map (\<lambda>(s, events). stream_words s events) (List.enumerate 0 (streams w)))"

definition writer_events :: "window \<Rightarrow> event list" where
  "writer_events w = concat (tl (streams w))"

record opening_state =
  i_head :: int
  i_word :: "int \<rightharpoonup> slot_word"
  i_text :: "int \<rightharpoonup> int"
  i_writers :: "(pstr \<times> int \<times> int \<times> int) list"
  i_rnext :: int

definition all_seqs :: "window \<Rightarrow> int list" where
  "all_seqs w =
     map fst (implied_words w)
     @ map w_seq (filter (\<lambda>x. w_seq x \<ge> 0) (map snd (implied_words w)))
     @ map e_first (writer_events w) @ [head w]
     @ (case reader_first w of None \<Rightarrow> [] | Some a \<Rightarrow> [a, the (reader_end w)])"

definition list_min :: "int list \<Rightarrow> int" where
  "list_min xs = foldl min (hd xs) (tl xs)"

definition base_of :: "window \<Rightarrow> int" where
  "base_of w = (list_min (all_seqs w) div slots w) * slots w"

definition rel :: "int \<Rightarrow> int \<Rightarrow> int" where
  "rel base seq = (if seq \<ge> 0 then seq - base else - 1)"

definition merge_word :: "int \<Rightarrow> (int \<rightharpoonup> slot_word) \<Rightarrow> int \<times> slot_word \<Rightarrow> (int \<rightharpoonup> slot_word)" where
  "merge_word n word p = (case p of (seq, w) \<Rightarrow>
     (case word (seq mod n) of
        None \<Rightarrow> word(seq mod n \<mapsto> w)
      | Some v \<Rightarrow> if key w < key v then word(seq mod n \<mapsto> w) else word))"

definition opening_pc :: "pstr \<Rightarrow> py_error + pstr" where
  "opening_pc kind =
     (if kind \<in> {u ''claim'', u ''refuse''} then Inr (u ''claim'')
      else if kind = u ''write'' then Inr (u ''write'')
      else if kind \<in> {u ''commit'', u ''commitlost''} then Inr (u ''commit'')
      else Inl KeyError)"

definition open_writer ::
  "int \<Rightarrow> int \<Rightarrow> (int \<rightharpoonup> int) \<times> (pstr \<times> int \<times> int \<times> int) list \<Rightarrow> event list
     \<Rightarrow> py_error + (int \<rightharpoonup> int) \<times> (pstr \<times> int \<times> int \<times> int) list" where
  "open_writer n base st events = (case st of (text, writers) \<Rightarrow>
     if events = [] \<or> e_kind (hd events) = u ''reserve'' then
       Inr (text, writers @ [(u ''idle'', 0, 0, 0)])
     else let first = hd events in
       bindR (opening_pc (e_kind first)) (\<lambda>pc.
         let writers' = writers @ [(pc, rel base (e_first first), e_k first, e_i first)] in
         if pc \<in> {u ''write'', u ''commit''} then
           let done = (if pc = u ''write'' then e_i first else e_k first) in
           Inr (foldl (\<lambda>text j. text((e_first first + int j) mod n \<mapsto> rel base (e_first first + int j)))
                  text [0..<nat done], writers')
         else Inr (text, writers')))"

definition opening_of :: "window \<Rightarrow> py_error + int \<times> opening_state" where
  "opening_of w =
     (let n = slots w in
      if n = 0 then Inl ZeroDivisionError
      else
        let base = base_of w;
            reserves = map e_first (filter (\<lambda>e. e_kind e = u ''reserve'') (concat (streams w)));
            word = foldl (merge_word n) Map.empty (implied_words w);
            text = (\<lambda>slot. case word slot of
                      Some v \<Rightarrow> if w_state v = Committed then Some (rel base (w_seq v)) else None
                    | None \<Rightarrow> None) in
        bindR (foldM (open_writer n base) (text, []) (tl (streams w))) (\<lambda>(text, writers).
        Inr (base, \<lparr>i_head = rel base (list_min (head w # reserves)), i_word = word, i_text = text,
          i_writers = writers,
          i_rnext = (case reader_first w of Some a \<Rightarrow> rel base a | None \<Rightarrow> 0)\<rparr>)))"

subsection \<open>The module TLC reads\<close>

definition tla_word :: "slot_word \<Rightarrow> int \<Rightarrow> pstr" where
  "tla_word w base =
     u ''[seq |-> '' @ str_int (rel base (w_seq w)) @ u '', st |-> \"'' @ state_name (w_state w)
     @ u ''\", span |-> '' @ str_int (w_span w) @ u '']''"

definition FREE :: slot_word where "FREE = word_of (- 1) Free 0"

definition max_seq :: "window \<Rightarrow> int \<Rightarrow> opening_state \<Rightarrow> int" where
  "max_seq w base init =
     (let every = concat (streams w) in
      foldl max (i_head init)
        ([i_rnext init]
         @ map (\<lambda>e. e_seq e - base) every
         @ map (\<lambda>e. e_first e - base + e_k e) (filter (\<lambda>e. e_stream e \<noteq> 0) every)
         @ concat (map (\<lambda>e. case e_word e of None \<Rightarrow> []
             | Some x \<Rightarrow> if w_seq x \<ge> 0 then [w_seq x - base] else []) every)
         @ [0]) + 2 * MODEL_K + 2)"

definition tla_event :: "int \<Rightarrow> event \<Rightarrow> int \<times> int \<Rightarrow> pstr" where
  "tla_event base e t =
     u ''[kind |-> \"'' @ e_kind e @ u ''\", first |-> '' @ str_int (e_first e - base)
     @ u '', k |-> '' @ str_int (e_k e) @ u '', i |-> '' @ str_int (e_i e)
     @ u '', seq |-> '' @ str_int (e_seq e - base)
     @ u '', w |-> '' @ tla_word (case e_word e of Some x \<Rightarrow> x | None \<Rightarrow> FREE) base
     @ u '', out |-> \"'' @ e_out e @ u ''\", t0 |-> '' @ str_int (fst t)
     @ u '', t1 |-> '' @ str_int (snd t) @ u '']''"

definition tla_stream :: "int \<Rightarrow> event list \<Rightarrow> (int \<times> int) list \<Rightarrow> pstr" where
  "tla_stream base es ts =
     (let body = join ([44, 10] @ u ''    '') (map2 (tla_event base) es ts) in
      if body \<noteq> [] then u ''<<'' @ body @ u ''>>'' else u ''<<>>'')"

definition column :: "pstr list \<Rightarrow> pstr" where
  "column cells = u ''<<'' @ join (u '', '') cells @ u ''>>''"

definition trace_module :: "window \<Rightarrow> py_error + pstr" where
  "trace_module w =
     bindR (opening_of w) (\<lambda>(base, init).
     bindR (stamps w) (\<lambda>whens.
     let n = nat (slots w); ws = i_writers init;
         words = join (u '', '') (map (\<lambda>slot. tla_word
           (case i_word init (int slot) of Some x \<Rightarrow> x | None \<Rightarrow> FREE) base) [0..<n]);
         texts = join (u '', '') (map (\<lambda>slot. str_int
           (case i_text init (int slot) of Some x \<Rightarrow> x | None \<Rightarrow> - 1)) [0..<n]) in
     Inr (line (u ''---- MODULE LogRingTraceData ----'')
       @ line ([92] @ u ''* Generated by scripts/validate_log_ring_trace.py; sequences ''
               @ u ''shifted down by '' @ str_int base @ u ''.'')
       @ line (u ''EXTENDS Integers, Sequences'')
       @ line (u ''TraceN == '' @ str_int (slots w))
       @ line (u ''TraceNW == '' @ str_int (cpus w))
       @ line (u ''TraceMaxSeq == '' @ str_int (max_seq w base init))
       @ line (u ''TraceMargin == '' @ str_int COUNTER_MARGIN)
       @ line (u ''InitHead == '' @ str_int (i_head init))
       @ line (u ''InitRnext == '' @ str_int (i_rnext init))
       @ line (u ''InitWords == <<'' @ words @ u ''>>'')
       @ line (u ''InitWord == [s '' @ [92] @ u ''in 0 .. TraceN - 1 |-> InitWords[s + 1]]'')
       @ line (u ''InitTexts == <<'' @ texts @ u ''>>'')
       @ line (u ''InitText == [s '' @ [92] @ u ''in 0 .. TraceN - 1 |-> InitTexts[s + 1]]'')
       @ line (u ''InitWpc == '' @ column (map (\<lambda>(pc, q, k, i). quoted pc) ws))
       @ line (u ''InitWseq == '' @ column (map (\<lambda>(pc, q, k, i). str_int q) ws))
       @ line (u ''InitWk == '' @ column (map (\<lambda>(pc, q, k, i). str_int k) ws))
       @ line (u ''InitWi == '' @ column (map (\<lambda>(pc, q, k, i). str_int i) ws))
       @ line (u ''TraceStreams == <<'') @ u ''  ''
         @ join ([44, 10] @ u ''  '') (map2 (tla_stream base) (streams w) whens) @ [10] @ line (u ''>>'')
       @ line (u ''Trace == [s '' @ [92] @ u ''in 0 .. TraceNW |-> TraceStreams[s + 1]]'')
       @ line (u ''===='')))) "

definition WRITER_ACTIONS :: "pstr list" where
  "WRITER_ACTIONS = map u [''Reserve'', ''Claim'', ''Refuse'', ''Write'', ''Commit'', ''CommitLost'']"

definition READER_ACTIONS :: "pstr list" where
  "READER_ACTIONS = map u [''ReadHead'', ''HeadCopy'', ''HeadCheck'', ''ContCopy'', ''ContCheck'']"

definition ACTIONS :: "pstr list" where
  "ACTIONS = WRITER_ACTIONS @ READER_ACTIONS"

definition FIXED :: "(pstr \<times> bool) list" where
  "FIXED = [(u ''TRUST_RESERVED'', False), (u ''CHECK_PREV'', True), (u ''CONT_SEQ'', True),
     (u ''REPORT_REFUSAL'', True)]"

definition MODEL_CONSTANTS :: "pstr list" where
  "MODEL_CONSTANTS = map fst FIXED"

definition REQUIRED :: "pstr list list" where
  "REQUIRED = map (\<lambda>a. [u a]) [''Reserve'', ''Claim'', ''Write'', ''Commit'', ''ReadHead'',
     ''HeadCopy'', ''HeadCheck'']"

definition trace_config :: "pstr option \<Rightarrow> (pstr \<times> bool) list \<Rightarrow> int \<Rightarrow> pstr" where
  "trace_config without model stop_at =
     (let constants = foldl (\<lambda>cs (k, v). AList.update k v cs) FIXED model in
      join [10]
        ([u ''SPECIFICATION Spec'', u ''CONSTANTS'']
         @ map (\<lambda>(k, v). u ''  '' @ k @ u '' = '' @ (if v then u ''TRUE'' else u ''FALSE'')) constants
         @ [u ''  WITHOUT = \"''
              @ (case without of None \<Rightarrow> u ''none'' | Some a \<Rightarrow> if a = [] then u ''none'' else a)
              @ u ''\"'',
            u ''  STOP_AT = '' @ str_int stop_at]
         @ map (\<lambda>broken. u ''INVARIANT '' @ u broken)
             [''NoTornRead'', ''NoSilentLoss'', ''NoDoubleOwner'', ''NoNeedlessRefusal'', ''NotStopped'',
              ''TraceUnfinished'']) @ [10])"

subsection \<open>TLC's answer\<close>

definition run_tlc :: "tlc_run \<Rightarrow> window \<Rightarrow> pstr option \<Rightarrow> (pstr \<times> bool) list \<Rightarrow> int \<Rightarrow> py_error + pstr" where
  "run_tlc tlc w without model stop_at =
     bindR (trace_module w) (\<lambda>data. tlc data (trace_config without model stop_at))"

definition describe_stream :: "(nat \<rightharpoonup> int) \<Rightarrow> nat \<Rightarrow> event list \<Rightarrow> py_error + pstr list" where
  "describe_stream consumed s events =
     (let at = (case consumed s of None \<Rightarrow> 0 | Some c \<Rightarrow> c);
          name = (if s = 0 then u ''reader'' else u ''cpu '' @ str_nat (s - 1)) in
      if at < int (length events) then
        bindR (py_nth events at) (\<lambda>e.
          Inr [u ''    '' @ name @ u '', event '' @ str_int (at + 1) @ u '': '' @ e_line e])
      else Inr [])"

definition describe :: "window \<Rightarrow> (nat \<rightharpoonup> int) \<Rightarrow> py_error + pstr" where
  "describe w consumed =
     bindR (mapM (\<lambda>(s, events). describe_stream consumed s events) (List.enumerate 0 (streams w))) (\<lambda>ls.
       let text = join [10] (concat ls) in
       Inr (if text \<noteq> [] then text else u ''    (every stream consumed)''))"

text \<open>\<open>POS_RE.findall\<close> for \<open>(\d+) :> (\d+)\<close>.\<close>

function find_pairs :: "pstr \<Rightarrow> (pstr \<times> pstr) list" where
  "find_pairs [] = []"
| "find_pairs (c # cs) =
     (let ds = takeWhile is_decimal (c # cs); r = drop (length ds) (c # cs); es = takeWhile is_decimal (drop 4 r) in
      if ds \<noteq> [] \<and> startswith r (u '' :> '') \<and> es \<noteq> []
      then (ds, es) # find_pairs (drop (4 + length es) r)
      else find_pairs cs)"
  by pat_completeness auto
termination by (relation "measure length") (auto simp: Let_def)

definition consumed_of :: "tlc_state \<Rightarrow> py_error + (nat \<rightharpoonup> int)" where
  "consumed_of st =
     (let text = lookup_or st (u ''pos'') []; pairs = find_pairs text in
      if pairs \<noteq> [] then
        bindR (mapM (\<lambda>(s, c). bindR (py_int s) (\<lambda>s. bindR (py_int c) (\<lambda>c. Inr (nat s, c)))) pairs) (\<lambda>ps.
          Inr (map_of (rev ps)))
      else let inner = strip (u ''<>[] '') text in
        if inner \<noteq> [] then
          bindR (mapM py_int (split_on 44 inner)) (\<lambda>vs.
            Inr (\<lambda>i. if i < length vs then Some (vs ! i) else None))
        else Inr Map.empty)"

definition shifted :: "int \<Rightarrow> pstr" where
  "shifted base = u '' (the model's sequences are the kernel's minus '' @ str_int base @ u '')''"

definition violation_error :: "(nat \<Rightarrow> bool) \<Rightarrow> window \<Rightarrow> int \<Rightarrow> pstr \<Rightarrow> pstr \<Rightarrow> py_error + pstr" where
  "violation_error uw w base output broken =
     (let st = last_state (behaviour uw output) in
      bindR (consumed_of st) (\<lambda>consumed.
      bindR (describe w consumed) (\<lambda>next_events.
        Inr (u ''after '' @ strip [34] (lookup_or st (u ''act'') (u ''?'')) @ u '', '' @ broken
          @ u '' is violated; the next events:'' @ [10] @ next_events @ [10]
          @ u ''  the state TLC reached'' @ shifted base @ u '':'' @ [10] @ show_state st))))"

definition stuck_error ::
  "tlc_run \<Rightarrow> (nat \<Rightarrow> bool) \<Rightarrow> window \<Rightarrow> pstr option \<Rightarrow> (pstr \<times> bool) list \<Rightarrow> int \<Rightarrow> pstr \<Rightarrow> py_error + pstr" where
  "stuck_error tlc uw w without model base output =
     bindR (case search_digits (u ''depth of the complete state graph search is '') output of
              None \<Rightarrow> Inr 0 | Some ds \<Rightarrow> bindR (py_int ds) (\<lambda>d. Inr (d - 1))) (\<lambda>reached.
     bindR (run_tlc tlc w without model reached) (\<lambda>detail.
     let st = last_state (behaviour uw detail) in
     bindR (consumed_of st) (\<lambda>consumed.
     bindR (describe w consumed) (\<lambda>next_events.
       Inr (u ''no interleaving of the streams is a behaviour of LogRing.tla''
         @ (case without of None \<Rightarrow> [] | Some a \<Rightarrow> if a = [] then [] else u '' without '' @ a)
         @ u '' past '' @ str_int reached @ u '' event(s); one that reached that far stopped before:''
         @ [10] @ next_events @ [10] @ u ''  the model's state there'' @ shifted base @ u '':'' @ [10]
         @ show_state st)))))"

definition check ::
  "tlc_run \<Rightarrow> (nat \<Rightarrow> bool) \<Rightarrow> window \<Rightarrow> pstr option \<Rightarrow> (pstr \<times> bool) list
     \<Rightarrow> py_error + pstr list \<times> (pstr \<Rightarrow> nat)" where
  "check tlc uw w without model =
     bindR (opening_of w) (\<lambda>(base, _).
     bindR (run_tlc tlc w without model 0) (\<lambda>output.
     case search_word uw (u ''Invariant '') (u '' is violated'') output of
       Some broken \<Rightarrow>
         if broken = u ''TraceUnfinished'' then Inr ([], count_actions ACTIONS (behaviour uw output))
         else bindR (violation_error uw w base output broken) (\<lambda>e. Inr ([e], \<lambda>_. 0))
     | None \<Rightarrow>
         if contains (u ''Model checking completed. No error has been found.'') output then
           bindR (stuck_error tlc uw w without model base output) (\<lambda>e. Inr ([e], \<lambda>_. 0))
         else Inl (TraceError (u ''TLC gave no verdict:'' @ [10]
           @ drop (length output - 4000) output))))"

subsection \<open>The script\<close>

definition ring_fail :: pstr where "ring_fail = u ''FAIL log-ring-trace: ''"

definition verdict :: "window \<Rightarrow> pstr option \<Rightarrow> pstr list \<times> (pstr \<Rightarrow> nat) \<Rightarrow> int \<times> verdict_line list" where
  "verdict w without r = (case r of (errors, counts) \<Rightarrow>
     if errors \<noteq> [] then
       (1, map (\<lambda>e. Printed (u ''ERROR log-ring-trace: '' @ e)) errors
           @ [Printed (ring_fail @ u ''the kernel made a ring transition kernel/models/LogRing.tla ''
                @ u ''does not allow (checked by TLC through LogRingTrace.tla)'')])
     else let unseen = unseen_steps REQUIRED without counts in
       if unseen \<noteq> [] then
         (1, [Printed (ring_fail @ u ''the window never exercised '' @ join (u '', '') unseen
                @ u '', so a PASS would say nothing about it'')])
       else
         (0, [Printed (u ''PASS log-ring-trace: TLC matched '' @ str_nat (length (concat (streams w)))
                @ u '' event(s) on '' @ str_int (cpus w) @ u '' cpu(s) and the reader to a behaviour of ''
                @ u ''LogRing.tla with its invariants intact ('' @ seen_counts ACTIONS counts @ u '')'')]))"

definition main ::
  "tlc_run \<Rightarrow> (nat \<Rightarrow> bool) \<Rightarrow> pstr list \<Rightarrow> pstr option \<Rightarrow> pstr list \<Rightarrow> py_error + int \<times> verdict_line list" where
  "main tlc uw lines without items =
     bindR (model_items MODEL_CONSTANTS items) (\<lambda>model.
     case bindR (parse (map (rstrip [13, 10]) lines)) (\<lambda>w.
            bindR (check tlc uw w without model) (\<lambda>r. Inr (w, r))) of
       Inr (w, r) \<Rightarrow> Inr (verdict w without r)
     | Inl (TraceError m) \<Rightarrow> Inr (1, [Failed ring_fail (TraceError m)])
     | Inl (TraceWord t) \<Rightarrow> Inr (1, [Failed ring_fail (TraceWord t)])
     | Inl e \<Rightarrow> Inl e)"

end
