(* ===== verification/LogRing_Facts.thy ===== *)
theory LogRing_Facts
  imports LogRing
begin

section \<open>What an accepted log-ring window promises\<close>

text \<open>
  The invariant of a parsed window, what the framing of the report guarantees, the
  opening state against its documented conventions, and the verdict of the script.
\<close>

subsection \<open>The window invariant\<close>

definition stamp_ok :: "event \<Rightarrow> bool" where
  "stamp_ok e \<longleftrightarrow> (case (e_t0 e, e_t1 e) of
     (None, None) \<Rightarrow> True | (Some t0, Some t1) \<Rightarrow> 0 \<le> t0 \<and> t0 \<le> t1 | _ \<Rightarrow> False)"

definition reader_ok :: "event \<Rightarrow> bool" where
  "reader_ok e \<longleftrightarrow> 0 \<le> e_seq e \<and> e_first e = 0 \<and> e_k e = 0 \<and> e_i e = 0 \<and>
     (case READER_KINDS (e_kind e) of
        None \<Rightarrow> False
      | Some None \<Rightarrow> e_word e = None \<and> e_out e = []
      | Some (Some outs) \<Rightarrow> e_out e \<in> set outs \<and>
          (case e_word e of None \<Rightarrow> False | Some x \<Rightarrow> w_span x \<le> MODEL_K))"

definition writer_ok :: "event \<Rightarrow> bool" where
  "writer_ok e \<longleftrightarrow> 0 \<le> e_first e \<and> 1 \<le> e_k e \<and> e_k e \<le> MODEL_K \<and> 0 \<le> e_i e \<and> e_i e < e_k e
     \<and> e_seq e = e_first e + e_i e
     \<and> (case WRITER_KINDS (e_kind e) of None \<Rightarrow> False
        | Some want \<Rightarrow> (want = 2 \<longrightarrow> e_i e = 0) \<and> (e_word e \<noteq> None \<longleftrightarrow> want = 4))"

definition event_ok :: "nat \<Rightarrow> event \<Rightarrow> bool" where
  "event_ok s e \<longleftrightarrow> e_stream e = s \<and> stamp_ok e \<and> (if s = 0 then reader_ok e else writer_ok e)"

definition window_wf :: "window \<Rightarrow> bool" where
  "window_wf w \<longleftrightarrow> 0 \<le> cpus w \<and> 0 \<le> slots w \<and> 0 \<le> head w
     \<and> length (streams w) = nat (cpus w) + 1
     \<and> (\<forall>s < length (streams w). list_all (event_ok s) (streams w ! s))
     \<and> (case (reader_first w, reader_end w) of
          (None, None) \<Rightarrow> streams w ! 0 = [] | (Some a, Some b) \<Rightarrow> 0 \<le> a \<and> 0 \<le> b | _ \<Rightarrow> False)"

lemma number_nonneg: "number token text = Inr n \<Longrightarrow> 0 \<le> n"
proof -
  assume "number token text = Inr n"
  then have d: "isdigit token" and n: "py_int token = Inr n"
    by (auto simp: number_def malformed_def split: if_splits)
  have nd: "\<not> isdigit_char 45" by (simp add: isdigit_char_def is_decimal_def decimal_value_def decimal_starts_def digit_extras_def)
  have "int_sign (int_trim token) \<in> {1} \<times> UNIV"
  proof -
    have "set (int_trim token) \<subseteq> set token"
      by (auto simp: int_trim_def dest!: set_dropWhileD)
    then have "45 \<notin> set (int_trim token)" using d nd by (auto simp: isdigit_def list_all_iff)
    then show ?thesis by (auto simp: int_sign_def split: list.splits)
  qed
  with n show "0 \<le> n" by (auto simp: py_int_def int_result_def split: option.splits)
qed

lemma split_stamp_stamp_ok:
  assumes "split_stamp text flds = Inr (stamp, flds')"
  shows "case stamp of None \<Rightarrow> flds' = flds | Some (t0, t1) \<Rightarrow> 0 \<le> t0 \<and> t0 \<le> t1 \<and> flds' = butlast flds"
proof (cases "startswith (last flds) (u ''@'')")
  case True
  then obtain ds where ds: "digit_fields [u ''@'', u ''+''] (last flds) = Some ds"
    using assms by (cases "digit_fields [u ''@'', u ''+''] (last flds)") (auto simp: split_stamp_def)
  note f = digit_fields_decimal [OF ds]
  obtain a b where ab: "py_int (ds ! 0) = Inr (int a)" "py_int (ds ! 1) = Inr (int b)"
    using f decimal_digits_int [of "ds ! 0"] decimal_digits_int [of "ds ! 1"] by auto
  then show ?thesis using assms True ds by (auto simp: split_stamp_def)
qed (use assms in \<open>auto simp: split_stamp_def\<close>)

lemma append_event_wf:
  assumes "window_wf w" and "s < length (streams w)" and "event_ok s e" and "s = 0 \<Longrightarrow> reader_first w \<noteq> None"
  shows "window_wf (append_event w s e)"
  using assms unfolding window_wf_def append_event_def
  by (auto simp: nth_list_update split: option.splits)

lemma reader_begin_wf: "window_wf w \<Longrightarrow> reader_begin w text args = Inr w' \<Longrightarrow> window_wf w'"
  by (auto simp: reader_begin_def malformed_def window_wf_def dest!: number_nonneg split: if_splits option.splits)

lemma new_event_simps [simp]:
  "e_stream (new_event s kind first k seq text stamp) = s"
  "e_kind (new_event s kind first k seq text stamp) = kind"
  "e_first (new_event s kind first k seq text stamp) = first"
  "e_k (new_event s kind first k seq text stamp) = k"
  "e_i (new_event s kind first k seq text stamp) = 0"
  "e_seq (new_event s kind first k seq text stamp) = seq"
  "e_word (new_event s kind first k seq text stamp) = None"
  "e_out (new_event s kind first k seq text stamp) = []"
  "e_line (new_event s kind first k seq text stamp) = text"
  "e_t0 (new_event s kind first k seq text stamp) = map_option fst stamp"
  "e_t1 (new_event s kind first k seq text stamp) = map_option snd stamp"
  by (simp_all add: new_event_def)

definition stamp_pair_ok :: "(int \<times> int) option \<Rightarrow> bool" where
  "stamp_pair_ok stamp \<longleftrightarrow> (case stamp of None \<Rightarrow> True | Some (t0, t1) \<Rightarrow> 0 \<le> t0 \<and> t0 \<le> t1)"

lemma stamp_ok_pair:
  "e_t0 e = map_option fst stamp \<Longrightarrow> e_t1 e = map_option snd stamp \<Longrightarrow> stamp_pair_ok stamp \<Longrightarrow> stamp_ok e"
  by (cases stamp) (auto simp: stamp_ok_def stamp_pair_ok_def)

text \<open>What a reader or writer line adds.\<close>

lemma reader_event_adds:
  assumes "reader_event w text stamp kind args = Inr w'" and "stamp_pair_ok stamp"
  shows "\<exists>e. w' = append_event w 0 e \<and> event_ok 0 e \<and> e_line e = text \<and> reader_first w \<noteq> None"
proof -
  from assms(1) obtain outs where rf: "reader_first w \<noteq> None" and k: "READER_KINDS kind = Some outs"
    by (auto simp: reader_event_def malformed_def split: if_splits option.splits)
  obtain seq where seq: "number (args ! 0) text = Inr seq"
    using assms(1) rf k by (auto simp: reader_event_def malformed_def split: if_splits)
  note nn = number_nonneg [OF seq]
  show ?thesis
  proof (cases outs)
    case None
    let ?e = "new_event 0 kind 0 0 seq text stamp"
    have "w' = append_event w 0 ?e"
      using assms(1) rf k seq None by (auto simp: reader_event_def malformed_def split: if_splits)
    moreover have "event_ok 0 ?e"
      using nn k None stamp_ok_pair [of ?e stamp] assms(2) by (simp add: event_ok_def reader_ok_def)
    ultimately show ?thesis using rf by auto
  next
    case (Some os)
    then obtain word where word: "decode (args ! 1) = Inr word"
      using assms(1) rf k seq by (auto simp: reader_event_def malformed_def split: if_splits)
    let ?e = "(new_event 0 kind 0 0 seq text stamp)\<lparr>e_word := Some word, e_out := args ! 2\<rparr>"
    have *: "w' = append_event w 0 ?e" "w_span word \<le> MODEL_K" "args ! 2 \<in> set os"
      using assms(1) rf k seq Some word
      by (auto simp: reader_event_def malformed_def too_wide_def Let_def split: if_splits)
    moreover have "event_ok 0 ?e"
      using nn k Some * stamp_ok_pair [of ?e stamp] assms(2) by (simp add: event_ok_def reader_ok_def)
    ultimately show ?thesis using rf by auto
  qed
qed

lemma writer_cpu_int:
  assumes "writer_cpu who = Some ds"
  shows "\<exists>n. py_int ds = Inr (int n)"
  using assms by (auto simp: writer_cpu_def intro!: decimal_digits_int split: list.splits if_splits)

lemma writer_event_adds:
  assumes "writer_event w text stamp who kind args = Inr w'" and "stamp_pair_ok stamp"
  shows "\<exists>e ds cpu. w' = append_event w (cpu + 1) e \<and> event_ok (cpu + 1) e \<and> e_line e = text
    \<and> writer_cpu who = Some ds \<and> py_int ds = Inr (int cpu) \<and> int cpu < cpus w"
proof -
  from assms(1) obtain ds want where ds: "writer_cpu who = Some ds" and want: "WRITER_KINDS kind = Some want"
    by (auto simp: writer_event_def malformed_def split: option.splits)
  obtain cpu where cpu: "py_int ds = Inr (int cpu)" using writer_cpu_int [OF ds] by blast
  from assms(1) ds want cpu obtain first k where below: "int cpu < cpus w"
    and first: "number (args ! 0) text = Inr first" and k: "number (args ! 1) text = Inr k"
    and range: "1 \<le> k" "k \<le> MODEL_K"
    by (auto simp: writer_event_def malformed_def too_wide_def split: if_splits)
  let ?e = "new_event (cpu + 1) kind first k first text stamp"
  let ?indexed = "if want \<ge> 3 then bindR (number (args ! 2) text) (\<lambda>i.
      if i \<ge> k then Inl (TraceError (u ''slot index past its record: '' @ text))
      else Inr (?e\<lparr>e_i := i, e_seq := first + i\<rparr>)) else Inr ?e"
  from assms(1) ds want cpu below first k range obtain e1 e2 where
    e1: "?indexed = Inr e1"
    and e2: "(if want = 4 then bindR (decode (args ! 3)) (\<lambda>word. Inr (e1\<lparr>e_word := Some word\<rparr>)) else Inr e1) = Inr e2"
    and w': "w' = append_event w (cpu + 1) e2"
    by (auto simp: writer_event_def malformed_def too_wide_def Let_def split: if_splits)
  obtain i where i: "e1 = ?e\<lparr>e_i := i, e_seq := first + i\<rparr>" "0 \<le> i" "i < k" "want = 2 \<longrightarrow> i = 0"
  proof (cases "want \<ge> 3")
    case True
    then obtain x where x: "number (args ! 2) text = Inr x" "x < k"
      "e1 = ?e\<lparr>e_i := x, e_seq := first + x\<rparr>"
      using e1 by (auto split: if_splits)
    show ?thesis using that [OF x(3) number_nonneg [OF x(1)] x(2)] True by simp
  next
    case False
    then have "e1 = ?e\<lparr>e_i := 0, e_seq := first + 0\<rparr>" using e1 by (auto simp: new_event_def)
    then show ?thesis using that [of 0] range by simp
  qed
  obtain wd where wd: "e2 = e1\<lparr>e_word := wd\<rparr>" "wd \<noteq> None \<longleftrightarrow> want = 4"
  proof (cases "want = 4")
    case True
    then show ?thesis using e2 that by auto
  next
    case False
    moreover have "e1 = e1\<lparr>e_word := None\<rparr>" by (simp add: i(1) new_event_def)
    ultimately show ?thesis using e2 that [of None] by simp
  qed
  have "event_ok (cpu + 1) e2"
    using i wd range want number_nonneg [OF first] stamp_ok_pair [of e2 stamp] assms(2)
    by (simp add: event_ok_def writer_ok_def)
  then show ?thesis using w' ds cpu below wd i by (intro exI [of _ e2] exI [of _ ds] exI [of _ cpu]) simp
qed

text \<open>
  Which stream a line belongs to, by its first word; the reader's \<open>begin\<close> line
  belongs to none.
\<close>

definition line_stream :: "pstr \<Rightarrow> nat option" where
  "line_stream text = (let flds = split_ws text in
     if flds ! 0 = u ''r'' then (if flds ! 1 = u ''begin'' then None else Some 0)
     else case writer_cpu (flds ! 0) of None \<Rightarrow> None
       | Some ds \<Rightarrow> (case py_int ds of Inl _ \<Rightarrow> None | Inr n \<Rightarrow> Some (nat n + 1)))"

lemma parse_event_cases:
  assumes "parse_event w text = Inr w'"
  obtains (start) "reader_begin w text (drop 2 (split_ws text)) = Inr w'" "line_stream text = None"
  | (adds) s e where "w' = append_event w s e" "event_ok s e" "e_line e = text" "line_stream text = Some s"
      "s = 0 \<longrightarrow> reader_first w \<noteq> None" "s \<noteq> 0 \<longrightarrow> int s \<le> cpus w"
proof -
  let ?f = "split_ws text"
  from assms obtain stamp flds where len: "2 \<le> length ?f" and st: "split_stamp text ?f = Inr (stamp, flds)"
    and len': "2 \<le> length flds"
    by (auto simp: parse_event_def malformed_def Let_def split: if_splits)
  have ok: "stamp_pair_ok stamp" and hd01: "flds ! 0 = ?f ! 0" "flds ! 1 = ?f ! 1"
    using split_stamp_stamp_ok [OF st] len len'
    by (auto simp: stamp_pair_ok_def nth_butlast split: option.splits prod.splits)
  consider (b) "flds ! 0 = u ''r''" "flds ! 1 = u ''begin''" | (r) "flds ! 0 = u ''r''" "flds ! 1 \<noteq> u ''begin''"
    | (w) "flds ! 0 \<noteq> u ''r''" by blast
  then show ?thesis
  proof cases
    case b
    then have n: "stamp = None" and rb: "reader_begin w text (drop 2 flds) = Inr w'"
      using assms len st len' by (cases stamp; auto simp: parse_event_def malformed_def Let_def split: if_splits)+
    then have "flds = ?f" using split_stamp_stamp_ok [OF st] by simp
    with rb b show ?thesis using start by (simp add: line_stream_def)
  next
    case r
    then have "reader_event w text stamp (flds ! 1) (drop 2 flds) = Inr w'"
      using assms len st len' by (auto simp: parse_event_def malformed_def Let_def split: if_splits)
    from reader_event_adds [OF this ok] r hd01 show ?thesis using adds [of 0] by (auto simp: line_stream_def)
  next
    case w
    then have "writer_event w text stamp (flds ! 0) (flds ! 1) (drop 2 flds) = Inr w'"
      using assms len st len' by (auto simp: parse_event_def malformed_def Let_def split: if_splits)
    from writer_event_adds [OF this ok] w hd01 obtain e ds cpu where
      "w' = append_event w (cpu + 1) e" "event_ok (cpu + 1) e" "e_line e = text"
      "writer_cpu (?f ! 0) = Some ds" "py_int ds = Inr (int cpu)" "int cpu < cpus w" by auto
    with w hd01 show ?thesis using adds [of "cpu + 1" e] by (auto simp: line_stream_def)
  qed
qed

lemma parse_event_wf: "window_wf w \<Longrightarrow> parse_event w text = Inr w' \<Longrightarrow> window_wf w'"
proof (erule parse_event_cases)
  fix s e assume wf: "window_wf w" and w': "w' = append_event w s e" and e: "event_ok s e"
    and s: "s = 0 \<longrightarrow> reader_first w \<noteq> None" "s \<noteq> 0 \<longrightarrow> int s \<le> cpus w"
  have "s < length (streams w)" using wf s(2) by (cases "s = 0") (auto simp: window_wf_def)
  with wf w' e s show "window_wf w'" by (simp add: append_event_wf)
qed (auto intro: reader_begin_wf)

interpretation ring: step_invariant parse_event window_wf
  by unfold_locales (rule parse_event_wf)

text \<open>The lines of a stream are the report's lines for it, in their order.\<close>

lemma parse_event_header:
  assumes "parse_event w text = Inr w'"
  shows "cpus w' = cpus w \<and> slots w' = slots w \<and> head w' = head w \<and> length (streams w') = length (streams w)"
  using assms
  by (rule parse_event_cases)
     (auto simp: append_event_def reader_begin_def malformed_def split: if_splits)

lemma parse_events_lines:
  assumes "foldM parse_event w events = Inr w'" and "window_wf w" and "s < length (streams w)"
  shows "map e_line (streams w' ! s) = map e_line (streams w ! s) @ filter (\<lambda>t. line_stream t = Some s) events"
  using assms
proof (induction events arbitrary: w)
  case (Cons t events)
  then obtain w1 where w1: "parse_event w t = Inr w1" and rest: "foldM parse_event w1 events = Inr w'" by auto
  have wf1: "window_wf w1" using parse_event_wf [OF Cons.prems(2) w1] .
  have len: "length (streams w1) = length (streams w)" using parse_event_header [OF w1] by simp
  have "map e_line (streams w1 ! s) = map e_line (streams w ! s) @ (if line_stream t = Some s then [t] else [])"
    using w1
  proof (rule parse_event_cases)
    assume "reader_begin w t (drop 2 (split_ws t)) = Inr w1" "line_stream t = None"
    then show ?thesis by (auto simp: reader_begin_def malformed_def split: if_splits)
  next
    fix s' e assume "w1 = append_event w s' e" "e_line e = t" "line_stream t = Some s'"
    then show ?thesis using Cons.prems(3) by (auto simp: append_event_def nth_list_update)
  qed
  with Cons.IH [OF rest wf1] Cons.prems(3) len show ?case by simp
qed simp

lemma parse_events_header:
  "foldM parse_event w events = Inr w' \<Longrightarrow>
   cpus w' = cpus w \<and> slots w' = slots w \<and> head w' = head w \<and> length (streams w') = length (streams w)"
proof (induction events arbitrary: w)
  case (Cons t events)
  then show ?case using parse_event_header by fastforce
qed simp

subsection \<open>The framing of the report\<close>

lemma parse_Inr:
  assumes "parse lines = Inr w"
  obtains pre hdr groups ns events w0 where
    "bodies ring_prefix lines = pre @ hdr # events @ [u ''end'']"
    "startswith hdr (u ''begin '')" "list_all (\<lambda>t. \<not> startswith t (u ''begin '')) (pre @ events)"
    "digit_fields ring_header hdr = Some groups" "mapM py_int groups = Inr ns"
    "ns ! 4 = 0" "ns ! 3 = int (length events)"
    "w0 = \<lparr>cpus = ns ! 0, slots = ns ! 1, head = ns ! 2, streams = replicate (nat (ns ! 0) + 1) [],
       reader_first = None, reader_end = None\<rparr>"
    "foldM parse_event w0 events = Inr w" "check_order (streams w) = Inr ()"
proof -
  define body where "body = bodies ring_prefix lines"
  define i where "i = begin_indices body ! 0"
  have one: "length (begin_indices body) = 1"
    using assms by (auto simp: parse_def Let_def body_def split: if_splits)
  obtain groups where g: "digit_fields ring_header (body ! i) = Some groups"
    using assms one by (cases "digit_fields ring_header (body ! i)") (auto simp: parse_def Let_def body_def i_def)
  obtain ns where ns: "mapM py_int groups = Inr ns"
    using assms one g by (cases "mapM py_int groups") (auto simp: parse_def Let_def body_def i_def)
  define tail where "tail = drop (i + 1) body"
  have facts: "tail \<noteq> []" "last tail = u ''end''" "ns ! 4 = 0" "int (length (butlast tail)) = ns ! 3"
    using assms one g ns by (auto simp: parse_def Let_def body_def i_def tail_def split: if_splits)
  define w0 where "w0 = \<lparr>cpus = ns ! 0, slots = ns ! 1, head = ns ! 2, streams = replicate (nat (ns ! 0) + 1) [],
       reader_first = None, reader_end = None\<rparr>"
  have "bindR (foldM parse_event w0 (butlast tail)) (\<lambda>w. bindR (check_order (streams w)) (\<lambda>_. Inr w)) = Inr w"
    using assms one g ns facts
    by (auto simp: parse_def Let_def body_def i_def tail_def w0_def split: if_splits)
  then have run: "foldM parse_event w0 (butlast tail) = Inr w" "check_order (streams w) = Inr ()" by auto
  note frame = window_frame [OF one i_def tail_def facts(1,2)]
  show ?thesis
    using that [of "take i body" "body ! i" "butlast tail" groups ns w0] frame g ns facts run w0_def
    by (simp add: body_def)
qed

lemma nth_empty_streams [simp]: "s < Suc n \<Longrightarrow> ([] # replicate n []) ! s = []"
  by (cases s) auto

lemma parse_start_wf:
  assumes "\<forall>n\<in>set ns. 0 \<le> n" and "length ns = 5"
  shows "window_wf \<lparr>cpus = ns ! 0, slots = ns ! 1, head = ns ! 2, streams = replicate (nat (ns ! 0) + 1) [],
       reader_first = None, reader_end = None\<rparr>"
proof -
  have "0 \<le> ns ! i" if "i < 5" for i using assms that nth_mem by fastforce
  then show ?thesis by (simp add: window_wf_def)
qed

subsection \<open>Stamps in order\<close>

lemma successive_sorted:
  assumes "list_all (\<lambda>(b, a). the (e_t1 b) \<le> the (e_t0 a)) (zip st (tl st))"
    and "\<forall>e\<in>set st. the (e_t0 e) \<le> the (e_t1 e)"
  shows "sorted_wrt (\<lambda>a b. the (e_t1 a) \<le> the (e_t0 b)) st"
  using assms
proof (induction st rule: induct_list012)
  case (3 x y zs)
  then have IH: "sorted_wrt (\<lambda>a b. the (e_t1 a) \<le> the (e_t0 b)) (y # zs)" and xy: "the (e_t1 x) \<le> the (e_t0 y)" by auto
  have "the (e_t1 x) \<le> the (e_t0 z)" if "z \<in> set zs" for z
  proof -
    have "the (e_t1 y) \<le> the (e_t0 z)" using IH that by simp
    moreover have "the (e_t0 y) \<le> the (e_t1 y)" using 3 by simp
    ultimately show ?thesis using xy by linarith
  qed
  with IH xy show ?case by simp
qed simp_all

lemma check_order_backwards: "check_order ess = Inr () \<Longrightarrow> es \<in> set ess \<Longrightarrow> backwards es = None"
  by (induction ess) (auto split: option.splits)

lemma stream_sorted:
  assumes "backwards es = None" and "list_all stamp_ok es"
  shows "sorted_wrt (\<lambda>a b. the (e_t1 a) \<le> the (e_t0 b)) (stamped es)"
proof (rule successive_sorted)
  show "list_all (\<lambda>(b, a). the (e_t1 b) \<le> the (e_t0 a)) (zip (stamped es) (tl (stamped es)))"
    using assms(1) by (fastforce simp: backwards_def Let_def find_None_iff list_all_iff not_less)
  show "\<forall>e\<in>set (stamped es). the (e_t0 e) \<le> the (e_t1 e)"
    using assms(2) by (auto simp: stamped_def stamp_ok_def list_all_iff split: option.splits)
qed

text \<open>
  (C11) A window the parser accepts is well formed: one stream per CPU and one for the
  reader, every event in its own stream, a writer's record one or two slots wide
  with its index inside it and its sequence number consistent, a slot word exactly
  on the events that observe one, the reader's records within the model's width and
  its outcomes of their kind, and the counter stamps of a stream going forward.
\<close>

theorem parse_accepts_wellformed:
  assumes "parse lines = Inr w"
  shows "window_wf w \<and>
    list_all (\<lambda>es. sorted_wrt (\<lambda>a b. the (e_t1 a) \<le> the (e_t0 b)) (stamped es)) (streams w)"
proof -
  from assms obtain pre hdr groups ns events w0 where
    g: "digit_fields ring_header hdr = Some groups" "mapM py_int groups = Inr ns"
    and w0: "w0 = \<lparr>cpus = ns ! 0, slots = ns ! 1, head = ns ! 2, streams = replicate (nat (ns ! 0) + 1) [],
       reader_first = None, reader_end = None\<rparr>"
    and run: "foldM parse_event w0 events = Inr w" and ord: "check_order (streams w) = Inr ()"
    by (rule parse_Inr)
  have "window_wf w0" unfolding w0
    by (rule parse_start_wf) (use header_ints [OF g] in \<open>simp_all add: ring_header_def\<close>)
  then have wf: "window_wf w" by (rule ring.foldM_inv [OF _ run])
  have "sorted_wrt (\<lambda>a b. the (e_t1 a) \<le> the (e_t0 b)) (stamped es)" if "es \<in> set (streams w)" for es
  proof (rule stream_sorted)
    show "backwards es = None" using check_order_backwards [OF ord that] .
    show "list_all stamp_ok es"
      using wf that by (auto simp: window_wf_def event_ok_def list_all_iff in_set_conv_nth [of es])
  qed
  with wf show ?thesis by (simp add: list_all_iff)
qed

text \<open>
  (C12) The parser accepts only a whole report: exactly one header, with nothing lost,
  an end line, and as many lines between them as the header says; and each stream
  is exactly the lines of that stream, in the order the log has them, so no event is
  dropped, duplicated or moved.
\<close>

theorem parse_accepts_whole_report:
  assumes "parse lines = Inr w"
  shows "\<exists>pre hdr groups events.
    bodies ring_prefix lines = pre @ hdr # events @ [u ''end'']
    \<and> startswith hdr (u ''begin '') \<and> list_all (\<lambda>t. \<not> startswith t (u ''begin '')) (pre @ events)
    \<and> digit_fields ring_header hdr = Some groups
    \<and> mapM py_int groups = Inr [cpus w, slots w, head w, int (length events), 0]
    \<and> (\<forall>s < length (streams w). map e_line (streams w ! s) = filter (\<lambda>t. line_stream t = Some s) events)"
proof -
  from assms obtain pre hdr groups ns events w0 where
    frame: "bodies ring_prefix lines = pre @ hdr # events @ [u ''end'']" "startswith hdr (u ''begin '')"
      "list_all (\<lambda>t. \<not> startswith t (u ''begin '')) (pre @ events)"
    and g: "digit_fields ring_header hdr = Some groups" "mapM py_int groups = Inr ns"
    and n34: "ns ! 4 = 0" "ns ! 3 = int (length events)"
    and w0: "w0 = \<lparr>cpus = ns ! 0, slots = ns ! 1, head = ns ! 2, streams = replicate (nat (ns ! 0) + 1) [],
       reader_first = None, reader_end = None\<rparr>"
    and run: "foldM parse_event w0 events = Inr w"
    by (rule parse_Inr)
  have len: "length ns = 5" using header_ints(1) [OF g] by (simp add: ring_header_def)
  have wf0: "window_wf w0" unfolding w0
    by (rule parse_start_wf) (use header_ints [OF g] len in simp_all)
  have hd: "cpus w = ns ! 0" "slots w = ns ! 1" "head w = ns ! 2" "length (streams w) = length (streams w0)"
    using parse_events_header [OF run] by (simp_all add: w0)
  have "ns = [ns ! 0, ns ! 1, ns ! 2, ns ! 3, ns ! 4]"
    using len by (auto simp: list_eq_iff_nth_eq less_Suc_eq numeral_eq_Suc)
  then have ns: "mapM py_int groups = Inr [cpus w, slots w, head w, int (length events), 0]"
    using g(2) hd n34 by metis
  have "map e_line (streams w ! s) = filter (\<lambda>t. line_stream t = Some s) events" if "s < length (streams w)" for s
    using parse_events_lines [OF run wf0, of s] that hd(4) by (simp add: w0 nth_append)
  with frame g(1) ns show ?thesis by blast
qed

subsection \<open>The opening state\<close>

lemma foldl_min: "foldl min a xs \<le> a \<and> (\<forall>x\<in>set xs. foldl min a xs \<le> x) \<and> foldl min a xs \<in> insert a (set xs)"
  for a :: int
proof (induction xs arbitrary: a)
  case (Cons x xs)
  from Cons.IH [of "min a x"] show ?case by (auto simp: min_def split: if_splits)
qed simp

lemma list_min_le: "x \<in> set xs \<Longrightarrow> list_min xs \<le> x"
  using foldl_min [of "hd xs" "tl xs"] by (cases xs) (auto simp: list_min_def)

lemma list_min_mem: "xs \<noteq> [] \<Longrightarrow> list_min xs \<in> set xs"
  using foldl_min [of "hd xs" "tl xs"] by (cases xs) (auto simp: list_min_def)

lemma wf_writer:
  assumes "window_wf w" and "e \<in> set (writer_events w)"
  shows "writer_ok e"
proof -
  obtain es where es: "es \<in> set (tl (streams w))" "e \<in> set es" using assms(2) by (auto simp: writer_events_def)
  then obtain s where "s < length (tl (streams w))" "tl (streams w) ! s = es" by (auto simp: in_set_conv_nth)
  then have "streams w ! Suc s = es" "Suc s < length (streams w)" by (auto simp: nth_tl)
  then have "event_ok (Suc s) e" using assms(1) es(2) by (auto simp: window_wf_def list_all_iff)
  then show ?thesis by (simp add: event_ok_def)
qed

lemma wf_event:
  assumes "window_wf w" and "e \<in> set (concat (streams w))"
  shows "stamp_ok e \<and> 0 \<le> e_seq e \<and> (reader_ok e \<or> writer_ok e \<and> e \<in> set (writer_events w))"
proof -
  obtain es where "es \<in> set (streams w)" "e \<in> set es" using assms(2) by auto
  then obtain s where s: "s < length (streams w)" "e \<in> set (streams w ! s)"
    by (auto simp: in_set_conv_nth [of es])
  then have ok: "event_ok s e" using assms(1) by (auto simp: window_wf_def list_all_iff)
  show ?thesis
  proof (cases s)
    case 0
    then show ?thesis using ok by (auto simp: event_ok_def reader_ok_def)
  next
    case (Suc s')
    then have "streams w ! s = tl (streams w) ! s'" "s' < length (tl (streams w))"
      using s by (auto simp: nth_tl)
    then have "streams w ! s \<in> set (tl (streams w))" by simp
    then show ?thesis using ok Suc s by (auto simp: event_ok_def writer_ok_def writer_events_def)
  qed
qed

lemma event_words_seq: "p \<in> set (event_words e) \<Longrightarrow> fst p = e_seq e"
  by (auto simp: event_words_def split: option.splits if_splits)

lemma held_words_seq: "p \<in> set (held_words e j) \<Longrightarrow> fst p = e_first e + j"
  by (auto simp: held_words_def Let_def split: if_splits)

lemma implied_words_nonneg:
  assumes "window_wf w" and "p \<in> set (implied_words w)"
  shows "0 \<le> fst p"
proof -
  obtain s where s: "s < length (streams w)" "p \<in> set (stream_words s (streams w ! s))"
    using assms(2) by (auto simp: implied_words_def in_set_enumerate_eq)
  then consider e where "e \<in> set (streams w ! s)" "p \<in> set (event_words e)"
    | j where "s \<noteq> 0" "streams w ! s \<noteq> []" "p \<in> set (held_words (hd (streams w ! s)) (int j))"
    by (auto simp: stream_words_def split: if_splits)
  then show ?thesis
  proof cases
    case (1 e)
    then have "e \<in> set (concat (streams w))" using s(1) by auto
    with 1 wf_event [OF assms(1)] event_words_seq show ?thesis by fastforce
  next
    case (2 j)
    then have "event_ok s (hd (streams w ! s))"
      using assms(1) s(1) by (auto simp: window_wf_def list_all_iff)
    with 2 held_words_seq show ?thesis by (fastforce simp: event_ok_def writer_ok_def)
  qed
qed

lemma all_seqs_nonneg:
  assumes "window_wf w" and "q \<in> set (all_seqs w)"
  shows "0 \<le> q"
  using assms implied_words_nonneg [OF assms(1)] wf_writer [OF assms(1)]
  by (auto simp: all_seqs_def writer_ok_def window_wf_def split: option.splits)

lemma base_bounds:
  assumes "window_wf w" and "slots w \<noteq> 0"
  shows "slots w dvd base_of w" and "0 \<le> base_of w" and "q \<in> set (all_seqs w) \<Longrightarrow> base_of w \<le> q"
    and "list_min (all_seqs w) < base_of w + slots w"
proof -
  have n: "0 < slots w" using assms by (simp add: window_wf_def)
  have ne: "all_seqs w \<noteq> []" by (simp add: all_seqs_def)
  let ?m = "list_min (all_seqs w)"
  have m: "0 \<le> ?m" using all_seqs_nonneg [OF assms(1) list_min_mem [OF ne]] .
  show "slots w dvd base_of w" by (simp add: base_of_def)
  show "0 \<le> base_of w" using m n by (simp add: base_of_def pos_imp_zdiv_nonneg_iff)
  have "base_of w \<le> ?m" using n by (simp add: base_of_def minus_mod_eq_div_mult [symmetric])
  then show "q \<in> set (all_seqs w) \<Longrightarrow> base_of w \<le> q" using list_min_le by fastforce
  show "?m < base_of w + slots w"
    using n pos_mod_bound [of "slots w" ?m] by (simp add: base_of_def minus_mod_eq_div_mult [symmetric])
qed

definition word_map_ok :: "int \<Rightarrow> (int \<times> slot_word) list \<Rightarrow> (int \<rightharpoonup> slot_word) \<Rightarrow> bool" where
  "word_map_ok n ps word \<longleftrightarrow> (\<forall>slot. case word slot of
     None \<Rightarrow> \<forall>(q, x)\<in>set ps. q mod n \<noteq> slot
   | Some x \<Rightarrow> (\<exists>q. (q, x) \<in> set ps \<and> q mod n = slot)
       \<and> (\<forall>(q, y)\<in>set ps. q mod n = slot \<longrightarrow> key x \<le> key y))"

lemma merge_word_ok:
  assumes "word_map_ok n ps word"
  shows "word_map_ok n (ps @ [p]) (merge_word n word p)"
proof -
  obtain q x where p: "p = (q, x)" by (cases p)
  show ?thesis
    unfolding word_map_ok_def
  proof
    fix slot
    have old: "case word slot of None \<Rightarrow> \<forall>(q, x)\<in>set ps. q mod n \<noteq> slot
      | Some x \<Rightarrow> (\<exists>q. (q, x) \<in> set ps \<and> q mod n = slot) \<and> (\<forall>(q, y)\<in>set ps. q mod n = slot \<longrightarrow> key x \<le> key y)"
      using assms by (simp add: word_map_ok_def)
    show "case merge_word n word p slot of None \<Rightarrow> \<forall>(q, x)\<in>set (ps @ [p]). q mod n \<noteq> slot
      | Some x \<Rightarrow> (\<exists>q. (q, x) \<in> set (ps @ [p]) \<and> q mod n = slot)
         \<and> (\<forall>(q, y)\<in>set (ps @ [p]). q mod n = slot \<longrightarrow> key x \<le> key y)"
    proof (cases "q mod n = slot")
      case False
      then have "merge_word n word p slot = word slot" by (auto simp: merge_word_def p split: option.splits)
      with old False show ?thesis by (auto simp: p split: option.splits)
    next
      case slot: True
      show ?thesis
      proof (cases "word slot")
        case None
        then have "merge_word n word p slot = Some x" using slot by (auto simp: merge_word_def p)
        with old None slot show ?thesis by (auto simp: p)
      next
        case (Some v)
        show ?thesis
        proof (cases "key x < key v")
          case True
          then have "merge_word n word p slot = Some x" using slot Some by (auto simp: merge_word_def p)
          moreover have "key x \<le> key y" if "(q', y) \<in> set ps" "q' mod n = slot" for q' y
            using old Some that True by (fastforce intro: order.trans [OF less_imp_le])
          ultimately show ?thesis using slot by (auto simp: p)
        next
          case False
          then have "merge_word n word p slot = Some v" using slot Some by (auto simp: merge_word_def p)
          with old Some False show ?thesis by (auto simp: p)
        qed
      qed
    qed
  qed
qed

lemma merge_words_ok: "word_map_ok n ps (foldl (merge_word n) Map.empty ps)"
proof (induction ps rule: rev_induct)
  case Nil
  then show ?case by (simp add: word_map_ok_def)
next
  case (snoc p ps)
  then show ?case using merge_word_ok by simp
qed

lemma writer_kind_cases:
  "WRITER_KINDS kind \<noteq> None \<Longrightarrow> kind \<noteq> u ''reserve'' \<Longrightarrow> \<exists>pc. opening_pc kind = Inr pc"
  by (auto simp: WRITER_KINDS_def opening_pc_def split: if_splits)

lemma open_writers_ok:
  assumes "\<forall>es\<in>set ess. es \<noteq> [] \<longrightarrow> WRITER_KINDS (e_kind (hd es)) \<noteq> None"
  shows "\<exists>tx' ws. foldM (open_writer n base) (tx, writers) ess = Inr (tx', writers @ ws) \<and> length ws = length ess"
  using assms
proof (induction ess arbitrary: tx writers)
  case (Cons es ess)
  have "\<exists>tx1 x. open_writer n base (tx, writers) es = Inr (tx1, writers @ [x])"
  proof (cases "es = [] \<or> e_kind (hd es) = u ''reserve''")
    case False
    then obtain pc where "opening_pc (e_kind (hd es)) = Inr pc"
      using writer_kind_cases [of "e_kind (hd es)"] Cons.prems by auto
    with False show ?thesis by (auto simp: open_writer_def Let_def)
  qed (auto simp: open_writer_def)
  then obtain tx1 x where one: "open_writer n base (tx, writers) es = Inr (tx1, writers @ [x])" by blast
  with Cons.IH [of tx1 "writers @ [x]"] Cons.prems show ?case by fastforce
qed simp


subsection \<open>A sample window\<close>

definition sample :: "pstr list" where
  "sample = map u [''boot'', ''log-ring-trace: begin cpus=1 slots=4 head=1 stored=2 lost=0'',
     ''log-ring-trace: w0 reserve 1 1 @5+2'', ''log-ring-trace: w0 claim 1 1 0 0x0'', ''log-ring-trace: end'']"

lemma sample_body: "bodies ring_prefix sample = [u ''begin cpus=1 slots=4 head=1 stored=2 lost=0'', u ''w0 reserve 1 1 @5+2'', u ''w0 claim 1 1 0 0x0'', u ''end'']"
  by (simp add: bodies_def sample_def ring_prefix_def text_eval)

lemma sample_h: "digit_fields ring_header (u ''begin cpus=1 slots=4 head=1 stored=2 lost=0'') = Some ([u ''1'', u ''4'', u ''1'', u ''2'', u ''0''])"
  by (simp add: ring_header_def text_eval Let_def)

lemmas ring_eval = parse_event_def split_stamp_def writer_event_def writer_cpu_def WRITER_KINDS_def
  reader_event_def reader_begin_def READER_KINDS_def number_def new_event_def append_event_def MODEL_K_def
  decode_def STATES_def word_of_def backwards_def stamped_def

definition sample_window :: window where
  "sample_window = \<lparr>cpus = 1, slots = 4, head = 1,
     streams = [[], [\<lparr>e_stream = 1, e_kind = u ''reserve'', e_first = 1, e_k = 1, e_i = 0, e_seq = 1,
        e_word = None, e_out = [], e_line = u ''w0 reserve 1 1 @5+2'', e_t0 = Some 5, e_t1 = Some 7\<rparr>,
       \<lparr>e_stream = 1, e_kind = u ''claim'', e_first = 1, e_k = 1, e_i = 0, e_seq = 1,
        e_word = Some (word_of (- 1) Free 0), e_out = [], e_line = u ''w0 claim 1 1 0 0x0'',
        e_t0 = None, e_t1 = None\<rparr>]],
     reader_first = None, reader_end = None\<rparr>"

definition sample_mid :: window where
  "sample_mid = sample_window\<lparr>streams := [[], butlast (streams sample_window ! 1)]\<rparr>"

lemma sample_event_1:
  "parse_event \<lparr>cpus = 1, slots = 4, head = 1, streams = [[], []], reader_first = None, reader_end = None\<rparr>
     (u ''w0 reserve 1 1 @5+2'')
   = Inr sample_mid"
  by (simp add: ring_eval text_eval sample_mid_def sample_window_def Let_def)

lemma sample_event_2:
  "parse_event sample_mid (u ''w0 claim 1 1 0 0x0'')
   = Inr sample_window"
  by (simp add: ring_eval text_eval sample_mid_def sample_window_def Let_def)

lemma sample_parse: "parse sample = Inr sample_window"
proof -
  have b: "begin_indices ([u ''begin cpus=1 slots=4 head=1 stored=2 lost=0'', u ''w0 reserve 1 1 @5+2'', u ''w0 claim 1 1 0 0x0'', u ''end'']) = [0]"
    by (simp add: begin_indices_def text_eval upt_rec)
  have n: "py_int (u ''1'') = Inr 1" "py_int (u ''4'') = Inr 4" "py_int (u ''2'') = Inr 2" "py_int (u ''0'') = Inr 0"
    by (simp_all add: text_eval)
  have o: "check_order (streams sample_window) = Inr ()"
    by (simp add: sample_window_def ring_eval)
  show ?thesis
    unfolding parse_def sample_body
    by (simp add: b sample_h n sample_event_1 sample_event_2 o Let_def numeral_eq_Suc)
qed

lemma sample_window_wf: "window_wf sample_window"
  by (simp add: sample_window_def window_wf_def event_ok_def stamp_ok_def writer_ok_def WRITER_KINDS_def
      MODEL_K_def less_Suc_eq)

subsection \<open>Rebased stamps\<close>

definition rebased :: "int \<Rightarrow> event \<Rightarrow> int \<times> int \<Rightarrow> bool" where
  "rebased low e t \<longleftrightarrow> (case (e_t0 e, e_t1 e) of
     (Some t0, Some t1) \<Rightarrow> t = (t0 - low, t1 - low) \<and> 1 \<le> fst t \<and> fst t \<le> snd t \<and> snd t < UNSTAMPED
   | _ \<Rightarrow> t = (0, UNSTAMPED))"

lemma stamp_low_below:
  assumes "e \<in> set (concat (streams w))" and "e_t0 e = Some t0"
  shows "stamp_low w < t0"
proof -
  let ?ts = "map (\<lambda>e. the (e_t0 e)) (stamped (concat (streams w)))"
  have "t0 \<in> set ?ts" using assms by (force simp: stamped_def)
  then have "stamp_low w = list_min ?ts - 1" "list_min ?ts \<le> t0"
    using list_min_le [of t0 ?ts] by (auto simp: stamp_low_def list_min_def split: list.splits)
  then show ?thesis by simp
qed



subsection \<open>The verdict\<close>

lemma run_tlc_opening: "run_tlc tlc w without model k = Inr ans \<Longrightarrow> \<exists>r. opening_of w = Inr r"
  by (auto simp: run_tlc_def trace_module_def)

lemma check_clean:
  "check tlc uw w without model = Inr ([], counts) \<longleftrightarrow>
     (\<exists>ans. run_tlc tlc w without model 0 = Inr ans
        \<and> search_word uw (u ''Invariant '') (u '' is violated'') ans = Some (u ''TraceUnfinished'')
        \<and> counts = count_actions ACTIONS (behaviour uw ans))"
proof
  assume "check tlc uw w without model = Inr ([], counts)"
  then show "\<exists>ans. run_tlc tlc w without model 0 = Inr ans
        \<and> search_word uw (u ''Invariant '') (u '' is violated'') ans = Some (u ''TraceUnfinished'')
        \<and> counts = count_actions ACTIONS (behaviour uw ans)"
    by (auto simp: check_def split: option.splits if_splits)
next
  assume "\<exists>ans. run_tlc tlc w without model 0 = Inr ans
        \<and> search_word uw (u ''Invariant '') (u '' is violated'') ans = Some (u ''TraceUnfinished'')
        \<and> counts = count_actions ACTIONS (behaviour uw ans)"
  then obtain ans where o: "run_tlc tlc w without model 0 = Inr ans"
    "search_word uw (u ''Invariant '') (u '' is violated'') ans = Some (u ''TraceUnfinished'')"
    "counts = count_actions ACTIONS (behaviour uw ans)" by blast
  with run_tlc_opening [OF o(1)] show "check tlc uw w without model = Inr ([], counts)"
    by (auto simp: check_def)
qed

lemma verdict_pass:
  "fst (verdict w without (errors, counts)) = 0 \<longleftrightarrow> errors = [] \<and> unseen_steps REQUIRED without counts = []"
  by (auto simp: verdict_def Let_def)

interpretation ring_actions: required_actions ACTIONS REQUIRED
  by unfold_locales (auto simp: REQUIRED_def ACTIONS_def WRITER_ACTIONS_def READER_ACTIONS_def)

text \<open>
  (C15) The script exits 0 exactly when its options are valid, the log holds one whole
  well-formed window, TLC's answer to the generated module and configuration is that
  the trace was consumed (the first invariant it reports violated is
  \<open>TraceUnfinished\<close>), and the behaviour TLC printed takes every action the probe exists
  to exercise, the one dropped by \<open>--without\<close> apart.
\<close>

theorem main_passes_iff:
  "(\<exists>out. main tlc uw lines without items = Inr (0, out)) \<longleftrightarrow>
     (\<exists>model w ans. model_items MODEL_CONSTANTS items = Inr model
        \<and> parse (map (rstrip [13, 10]) lines) = Inr w
        \<and> run_tlc tlc w without model 0 = Inr ans
        \<and> search_word uw (u ''Invariant '') (u '' is violated'') ans = Some (u ''TraceUnfinished'')
        \<and> list_all (\<lambda>step. without \<in> Some ` set step
             \<or> list_ex (\<lambda>st. act_name st \<in> set step) (behaviour uw ans)) REQUIRED)"
    (is "?pass \<longleftrightarrow> ?conds")
proof
  assume ?pass
  then obtain model w r out where model: "model_items MODEL_CONSTANTS items = Inr model"
    and w: "parse (map (rstrip [13, 10]) lines) = Inr w" and r: "check tlc uw w without model = Inr r"
    and v: "verdict w without r = (0, out)"
    by (auto simp: main_def split: sum.splits py_error.splits prod.splits)
  obtain errors counts where ec: "r = (errors, counts)" by (cases r)
  have ok: "errors = []" "unseen_steps REQUIRED without counts = []"
    using verdict_pass [of w without errors counts] v ec by auto
  with r ec obtain ans where "run_tlc tlc w without model 0 = Inr ans"
    "search_word uw (u ''Invariant '') (u '' is violated'') ans = Some (u ''TraceUnfinished'')"
    "counts = count_actions ACTIONS (behaviour uw ans)" using check_clean by blast
  with model w ok(2) show ?conds using ring_actions.unseen_counts [of without "behaviour uw ans"] by blast
next
  assume ?conds
  then obtain model w ans where model: "model_items MODEL_CONSTANTS items = Inr model"
    and w: "parse (map (rstrip [13, 10]) lines) = Inr w" and o: "run_tlc tlc w without model 0 = Inr ans"
      "search_word uw (u ''Invariant '') (u '' is violated'') ans = Some (u ''TraceUnfinished'')"
    and seen: "unseen_steps REQUIRED without (count_actions ACTIONS (behaviour uw ans)) = []"
    using ring_actions.unseen_counts [of without] by blast
  let ?r = "([], count_actions ACTIONS (behaviour uw ans))"
  have "check tlc uw w without model = Inr ?r" using o check_clean by blast
  moreover have "fst (verdict w without ?r) = 0" using seen verdict_pass by blast
  ultimately show ?pass using model w by (auto simp: main_def intro!: exI prod_eqI)
qed

subsection \<open>Reports the parser does not refuse\<close>

text \<open>
  Three malformed reports end in an uncaught exception instead of the refusal the
  module documents: a line of one word and a stamp, a number written with a digit
  \<open>int\<close> does not read (a superscript two), and a header with no slots.
\<close>

lemma lone_word_with_stamp: "parse_event w (u ''w0 @1+2'') = Inl IndexError"
  by (simp add: ring_eval text_eval Let_def)

lemma superscript_number: "number [178] text = Inl (ValueError (u ''invalid literal for int()''))"
proof -
  have "decimal_value 178 = None" by (simp add: decimal_value_latin)
  then show ?thesis
    by (simp add: number_def isdigit_def isdigit_char_def digit_extras_def py_int_def int_trim_def int_space_def
        isspace_char_def int_sign_def digit_value_def int_result_def)
qed

lemma no_slots: "slots w = 0 \<Longrightarrow> opening_of w = Inl ZeroDivisionError"
  by (simp add: opening_of_def)

lemma no_slots_accepted:
  "parse (map u [''log-ring-trace: begin cpus=0 slots=0 head=0 stored=0 lost=0'', ''log-ring-trace: end''])
     = Inr \<lparr>cpus = 0, slots = 0, head = 0, streams = [[]], reader_first = None, reader_end = None\<rparr>"
proof -
  let ?h = "u ''begin cpus=0 slots=0 head=0 stored=0 lost=0''"
  have b: "bodies ring_prefix [u ''log-ring-trace: begin cpus=0 slots=0 head=0 stored=0 lost=0'', u ''log-ring-trace: end'']
      = [?h, u ''end'']"
    by (simp add: bodies_def ring_prefix_def text_eval)
  have i: "begin_indices [?h, u ''end''] = [0]" by (simp add: begin_indices_def text_eval upt_rec)
  have h: "digit_fields ring_header ?h = Some [u ''0'', u ''0'', u ''0'', u ''0'', u ''0'']"
    by (simp add: ring_header_def text_eval Let_def)
  have n: "py_int (u ''0'') = Inr 0" by (simp add: text_eval)
  show ?thesis by (simp add: parse_def b i h n Let_def ring_eval numeral_eq_Suc)
qed


theorem parse_accepts_wellformed_witness:
  "parse sample = Inr sample_window \<and> window_wf sample_window \<and>
    list_all (\<lambda>es. sorted_wrt (\<lambda>a b. the (e_t1 a) \<le> the (e_t0 b)) (stamped es)) (streams sample_window)"
  using parse_accepts_wellformed [OF sample_parse] sample_parse by simp

theorem parse_accepts_whole_report_witness:
  "\<exists>pre hdr groups events.
    bodies ring_prefix sample = pre @ hdr # events @ [u ''end'']
    \<and> startswith hdr (u ''begin '') \<and> list_all (\<lambda>t. \<not> startswith t (u ''begin '')) (pre @ events)
    \<and> digit_fields ring_header hdr = Some groups
    \<and> mapM py_int groups = Inr [cpus sample_window, slots sample_window, head sample_window, int (length events), 0]
    \<and> (\<forall>s < length (streams sample_window).
          map e_line (streams sample_window ! s) = filter (\<lambda>t. line_stream t = Some s) events)"
  using parse_accepts_whole_report [OF sample_parse] .


end
