(* ===== verification/ProtocolTrace.thy ===== *)
theory ProtocolTrace
  imports Trace_Text "HOL-Library.Product_Lexorder"
begin

section \<open>The protocol trace validator\<close>

text \<open>
  \<open>scripts/validate_protocol_trace.py\<close>: a window of the stack-ownership trace is
  parsed into holds of the process-run lock (\<open>parse\<close>), each hold becomes the whole
  observed state after it (\<open>observations\<close>), the TLA+ module TLC reads is written out,
  and TLC's answer becomes the verdict.  Dictionaries whose order shows (in a message
  or the module) are association lists updated in place, the others maps; a process's
  state keeps the name the source gives it.
\<close>

subsection \<open>Holds\<close>

definition STATES :: "int \<rightharpoonup> pstr" where
  "STATES = map_of [(1, u ''Ready''), (2, u ''Running''), (3, u ''Blocked''), (4, u ''Exited''),
     (5, u ''Constructing'')]"

definition WAIT_CHILD_EXIT :: int where "WAIT_CHILD_EXIT = 2"

record hold =
  h_sequence :: int
  h_cpu :: int
  h_unlocked :: bool
  h_processes :: "(int \<times> pstr \<times> int option) list"
  h_parents :: "(int \<times> int option) list"
  h_reasons :: "(int \<times> int) list"
  h_gone :: "int list"
  h_cores :: "(int \<times> int option \<times> int option) list"
  h_lines :: "pstr list"

definition model_state :: "int \<Rightarrow> int \<Rightarrow> py_error + pstr" where
  "model_state code reason = (case STATES code of
     None \<Rightarrow> Inl (TraceError (u ''unknown process state code '' @ str_int code))
   | Some name \<Rightarrow> Inr (if name = u ''Blocked'' \<and> reason \<noteq> WAIT_CHILD_EXIT then u ''Napping'' else name))"

definition opt_value :: "pstr \<Rightarrow> py_error + int option" where
  "opt_value token = (if token = u ''-'' then Inr None else bindR (py_int token) (\<lambda>n. Inr (Some n)))"

definition malformed :: "pstr \<Rightarrow> py_error + 'a" where
  "malformed text = Inl (TraceError (u ''malformed change: '' @ text))"

text \<open>The body of the \<open>try\<close>: one change applied to its hold.\<close>

definition apply_change :: "pstr \<Rightarrow> pstr list \<Rightarrow> hold \<Rightarrow> py_error + hold" where
  "apply_change text fs h =
     (if fs ! 3 = u ''p'' \<and> length fs = 9 then
        bindR (py_int (fs ! 4)) (\<lambda>pid.
        bindR (py_int (fs ! 5)) (\<lambda>code.
        bindR (py_int (fs ! 7)) (\<lambda>reason.
        bindR (model_state code reason) (\<lambda>st.
        bindR (opt_value (fs ! 6)) (\<lambda>owner.
        bindR (opt_value (fs ! 8)) (\<lambda>parent.
        bindR (opt_value (fs ! 7)) (\<lambda>why.
        Inr (h\<lparr>h_processes := AList.update pid (st, owner) (h_processes h),
               h_parents := AList.update pid parent (h_parents h),
               h_reasons := AList.update pid (case why of None \<Rightarrow> 0 | Some r \<Rightarrow> r) (h_reasons h)\<rparr>))))))))
      else if fs ! 3 = u ''g'' \<and> length fs = 7 then
        bindR (py_int (fs ! 4)) (\<lambda>pid. Inr (h\<lparr>h_gone := List.insert pid (h_gone h)\<rparr>))
      else if fs ! 3 = u ''c'' \<and> length fs = 7 then
        bindR (py_int (fs ! 4)) (\<lambda>core.
        bindR (opt_value (fs ! 5)) (\<lambda>cur.
        bindR (opt_value (fs ! 6)) (\<lambda>stood.
        Inr (h\<lparr>h_cores := AList.update core (cur, stood) (h_cores h)\<rparr>))))
      else malformed text)"

definition caught :: "pstr \<Rightarrow> py_error + 'a \<Rightarrow> py_error + 'a" where
  "caught text r = (case r of Inl (ValueError _) \<Rightarrow> malformed text | _ \<Rightarrow> r)"

type_synonym step_dict = "((int \<times> bool) \<times> hold) list"

definition new_hold :: "int \<Rightarrow> int \<Rightarrow> bool \<Rightarrow> hold" where
  "new_hold sequence cpu unlocked =
     \<lparr>h_sequence = sequence, h_cpu = cpu, h_unlocked = unlocked, h_processes = [], h_parents = [],
      h_reasons = [], h_gone = [], h_cores = [], h_lines = []\<rparr>"

definition parse_change :: "step_dict \<Rightarrow> pstr \<Rightarrow> py_error + step_dict" where
  "parse_change steps text =
     (let fs = split_ws text in
      if length fs < 4 \<or> \<not> isdigit (fs ! 0) \<or> \<not> isdigit (fs ! 1) \<or> fs ! 2 \<notin> {u ''l'', u ''u''} then
        malformed text
      else
        bindR (py_int (fs ! 0)) (\<lambda>sequence.
        bindR (py_int (fs ! 1)) (\<lambda>cpu.
        let k = (sequence, fs ! 2 = u ''u'');
            h = (case map_of steps k of Some h \<Rightarrow> h | None \<Rightarrow> new_hold sequence cpu (fs ! 2 = u ''u'')) in
        bindR (caught text (apply_change text fs (h\<lparr>h_lines := h_lines h @ [text]\<rparr>))) (\<lambda>h'.
        Inr (AList.update k h' steps)))))"

definition order_steps :: "step_dict \<Rightarrow> hold list" where
  "order_steps steps = map snd (sort_key (\<lambda>((sequence, unlocked), _). (sequence, \<not> unlocked)) steps)"

definition protocol_prefix :: pstr where "protocol_prefix = u ''protocol-trace: ''"

definition protocol_header :: "pstr list" where
  "protocol_header = map u [''begin cores='', '' stored='', '' lost='', '' holds='']"

text \<open>The checks on the opening snapshot; \<open>max\<close> of no core raises.\<close>

definition int_range :: "int \<Rightarrow> int list" where
  "int_range n = map int [0..<nat n]"

definition check_snapshot :: "int \<Rightarrow> hold list \<Rightarrow> py_error + int" where
  "check_snapshot cores ordered =
     (if ordered = [] \<or> h_sequence (hd ordered) \<noteq> 0 \<or> h_unlocked (hd ordered) then
        Inl (TraceError (u ''the window does not start with its snapshot''))
      else let have = map fst (h_cores (hd ordered)) in
        case find (\<lambda>core. core \<notin> set have) (int_range cores) of
          Some core \<Rightarrow> Inl (TraceError (u ''the snapshot has no line for core '' @ str_int core))
        | None \<Rightarrow>
            (case have of
               [] \<Rightarrow> Inl (ValueError (u ''max() arg is an empty sequence''))
             | c # cs \<Rightarrow>
                 let slots = foldl max c cs + 1 in
                 if sort have \<noteq> int_range slots then
                   Inl (TraceError (u ''the snapshot's core lines are not 0..'' @ str_int (slots - 1)))
                 else Inr slots))"

definition parse :: "pstr list \<Rightarrow> py_error + int \<times> int \<times> hold list" where
  "parse lines =
     (let body = bodies protocol_prefix lines; begins = begin_indices body in
      if length begins \<noteq> 1 then
        Inl (TraceError (u ''expected one protocol-trace window, found '' @ str_nat (length begins)))
      else case digit_fields protocol_header (body ! (begins ! 0)) of
        None \<Rightarrow> Inl (TraceError (u ''malformed header: '' @ body ! (begins ! 0)))
      | Some groups \<Rightarrow>
          bindR (mapM py_int groups) (\<lambda>ns.
          let events = drop (begins ! 0 + 1) body; stored = ns ! 1; lost = ns ! 2 in
          if events = [] \<or> last events \<noteq> u ''end'' then
            Inl (TraceError (u ''the window has no end line: the report was cut''))
          else let events = butlast events in
          if lost \<noteq> 0 then
            Inl (TraceError (u ''the window lost '' @ str_int lost
              @ u '' change(s); a check with a gap in it proves nothing''))
          else if int (length events) \<noteq> stored then
            Inl (TraceError (u ''the header says '' @ str_int stored @ u '' change(s) and ''
              @ str_nat (length events) @ u '' arrived''))
          else
            bindR (foldM parse_change [] events) (\<lambda>steps.
            let ordered = order_steps steps in
            bindR (check_snapshot (ns ! 0) ordered) (\<lambda>slots.
            Inr (slots, ns ! 3, ordered)))))"

subsection \<open>Observations\<close>

definition pid_name :: "int option \<Rightarrow> pstr" where
  "pid_name pid = (case pid of None \<Rightarrow> u ''none'' | Some p \<Rightarrow> u ''p'' @ str_int p)"

definition core_name :: "int option \<Rightarrow> pstr" where
  "core_name core = (case core of None \<Rightarrow> u ''none'' | Some c \<Rightarrow> u ''c'' @ str_int c)"

record observation =
  o_sequence :: int
  o_cpu :: int
  o_locked :: bool
  o_state :: "int \<Rightarrow> pstr"
  o_owner :: "int \<Rightarrow> int option"
  o_parent :: "int \<Rightarrow> int option"
  o_reason :: "int \<Rightarrow> int"
  o_current :: "int \<rightharpoonup> int option"
  o_stands :: "int \<rightharpoonup> int option"
  o_lines :: "pstr list"

definition the_list :: "'a option \<Rightarrow> 'a list" where
  "the_list x = (case x of None \<Rightarrow> [] | Some y \<Rightarrow> [y])"

definition hold_pids :: "hold \<Rightarrow> int list" where
  "hold_pids h =
     map fst (h_processes h) @ h_gone h
     @ concat (map (\<lambda>(pid, p). the_list p) (h_parents h))
     @ concat (map (\<lambda>(core, cur, stood). the_list cur @ the_list stood) (h_cores h))"

definition all_pids :: "hold list \<Rightarrow> int list" where
  "all_pids holds = sort (remdups (concat (map hold_pids holds)))"

definition first_report :: "hold list \<Rightarrow> int \<Rightarrow> (pstr \<times> int option) option" where
  "first_report holds pid =
     (case filter (\<lambda>h. map_of (h_processes h) pid \<noteq> None) holds of
        [] \<Rightarrow> None | h # _ \<Rightarrow> map_of (h_processes h) pid)"

definition initial_state :: "hold list \<Rightarrow> int \<Rightarrow> pstr" where
  "initial_state holds pid =
     (if map_of (h_processes (hd holds)) pid = None
         \<and> first_report (tl holds) pid = Some (u ''Constructing'', None)
      then u ''Constructing'' else u ''Absent'')"

definition link_parent :: "int \<Rightarrow> (int \<Rightarrow> int option) \<Rightarrow> int \<times> int option \<Rightarrow> py_error + (int \<Rightarrow> int option)" where
  "link_parent sequence parent p = (case p of (pid, None) \<Rightarrow> Inr parent
     | (pid, Some link) \<Rightarrow>
         if parent pid \<notin> {None, Some link} then
           Inl (TraceError (u ''sequence '' @ str_int sequence @ u '': '' @ str_int pid
             @ u '''s parent changes from '' @ str_int (the (parent pid)) @ u '' to '' @ str_int link
             @ u '' inside the window; StackOwnership.tla's ParentOf is fixed, so a reparented process cannot be checked''))
         else Inr (parent(pid := Some link)))"

definition fix_parents :: "hold list \<Rightarrow> py_error + (int \<Rightarrow> int option)" where
  "fix_parents holds =
     foldM (\<lambda>parent h. foldM (link_parent (h_sequence h)) parent (h_parents h)) (\<lambda>_. None) holds"

text \<open>One hold applied to the observed state.\<close>

definition see_process :: "hold \<Rightarrow> observation \<Rightarrow> int \<times> pstr \<times> int option \<Rightarrow> observation" where
  "see_process h ob p = (case p of (pid, st, own) \<Rightarrow>
     ob\<lparr>o_state := (o_state ob)(pid := st), o_owner := (o_owner ob)(pid := own),
       o_reason := (if h_unlocked h then o_reason ob
                    else (o_reason ob)(pid := the (map_of (h_reasons h) pid)))\<rparr>)"

definition see_gone :: "observation \<Rightarrow> int \<Rightarrow> observation" where
  "see_gone ob pid = ob\<lparr>o_state := (o_state ob)(pid := u ''Reaped''), o_owner := (o_owner ob)(pid := None)\<rparr>"

definition see_core :: "int \<Rightarrow> observation \<Rightarrow> int \<times> int option \<times> int option \<Rightarrow> py_error + observation" where
  "see_core cores ob c = (case c of (core, cur, stood) \<Rightarrow>
     if o_current ob core = None then
       Inl (TraceError (u ''a line for core '' @ str_int core @ u '' of a window with ''
         @ str_int cores @ u '' core(s)''))
     else Inr (ob\<lparr>o_current := (o_current ob)(core \<mapsto> cur), o_stands := (o_stands ob)(core \<mapsto> stood)\<rparr>))"

definition see_hold :: "int \<Rightarrow> observation \<Rightarrow> hold \<Rightarrow> py_error + observation" where
  "see_hold cores ob h =
     bindR (foldM (see_core cores)
              (foldl see_gone (foldl (see_process h) ob (h_processes h)) (h_gone h)) (h_cores h)) (\<lambda>ob.
     Inr (ob\<lparr>o_sequence := h_sequence h, o_cpu := h_cpu h, o_locked := \<not> h_unlocked h,
            o_lines := h_lines h\<rparr>))"

fun observe :: "int \<Rightarrow> observation \<Rightarrow> hold list \<Rightarrow> py_error + observation list" where
  "observe cores ob [] = Inr []"
| "observe cores ob (h # hs) =
     bindR (see_hold cores ob h) (\<lambda>ob'. bindR (observe cores ob' hs) (\<lambda>obs. Inr (ob' # obs)))"

definition observations :: "int \<Rightarrow> hold list \<Rightarrow> py_error + observation list" where
  "observations cores holds =
     (if holds = [] then Inl IndexError else
     bindR (fix_parents holds) (\<lambda>parent.
     let idle = (\<lambda>core. if 0 \<le> core \<and> core < cores then Some None else None) in
     observe cores
       \<lparr>o_sequence = 0, o_cpu = 0, o_locked = True, o_state = initial_state holds,
        o_owner = (\<lambda>_. None), o_parent = parent, o_reason = (\<lambda>_. 0),
        o_current = idle, o_stands = idle, o_lines = []\<rparr> holds))"

subsection \<open>The module TLC reads\<close>

definition tla_record :: "(pstr \<times> pstr) list \<Rightarrow> pstr" where
  "tla_record fs = u ''['' @ join (u '', '') (map (\<lambda>(k, v). k @ u '' |-> '' @ v) fs) @ u '']''"

definition tla_row :: "int \<Rightarrow> int list \<Rightarrow> observation \<Rightarrow> pstr" where
  "tla_row cores pids ob =
     (let cs = int_range cores in
      tla_record
       [(u ''seq'', str_int (o_sequence ob)),
        (u ''cpu'', quoted (core_name (Some (o_cpu ob)))),
        (u ''locked'', if o_locked ob then u ''TRUE'' else u ''FALSE''),
        (u ''state'', tla_record (map (\<lambda>p. (pid_name (Some p), quoted (o_state ob p))) pids)),
        (u ''owner'', tla_record (map (\<lambda>p. (pid_name (Some p), quoted (core_name (o_owner ob p)))) pids)),
        (u ''reason'', tla_record (map (\<lambda>p. (pid_name (Some p), str_int (o_reason ob p))) pids)),
        (u ''current'', tla_record (map (\<lambda>c. (core_name (Some c), quoted (pid_name (the (o_current ob c))))) cs)),
        (u ''stands'', tla_record (map (\<lambda>c. (core_name (Some c), quoted
           (case the (o_stands ob c) of None \<Rightarrow> u ''idle'' | Some p \<Rightarrow> pid_name (Some p)))) cs))])"

definition trace_module :: "int \<Rightarrow> int list \<Rightarrow> observation list \<Rightarrow> pstr" where
  "trace_module cores pids obs =
     line (u ''---- MODULE ProtocolTraceData ----'')
     @ line ([92] @ u ''* Generated by scripts/validate_protocol_trace.py.'')
     @ line (u ''EXTENDS Sequences'')
     @ line (u ''TraceCores == {'' @ join (u '', '') (map (\<lambda>c. quoted (core_name (Some c))) (int_range cores)) @ u ''}'')
     @ line (u ''TraceProcs == {'' @ join (u '', '') (map (\<lambda>p. quoted (pid_name (Some p))) pids) @ u ''}'')
     @ line (u ''TraceParent == '' @ tla_record
         (map (\<lambda>p. (pid_name (Some p), quoted (pid_name (o_parent (hd obs) p)))) pids))
     @ line (u ''Trace == <<'') @ u ''  '' @ join ([44, 10] @ u ''  '') (map (tla_row cores pids) obs) @ [10]
     @ line (u ''>>'') @ line (u ''===='')"

definition ACTIONS :: "pstr list" where
  "ACTIONS = map u [''CloneBegin'', ''CloneFinish'', ''SwitchComplete'', ''Reserve'', ''Commit'', ''SwitchAway'',
     ''CloneReschedule'', ''Wait4Block'', ''Nap'', ''Wake'', ''ChildExit'', ''ChildExitStart'', ''IdleEnter'',
     ''Wait4Reap'', ''LeaveBegin'', ''LeaveComplete'', ''InterruptDepart'', ''TickLeave'', ''PreemptEL1'']"

definition MODEL_CONSTANTS :: "pstr list" where
  "MODEL_CONSTANTS = map u [''EXIT_IDLES'', ''LEAVE_CHECKS_STACK'', ''WAKE_START_CHECKS_STACK'',
     ''PREEMPT_EL1_KEEPS_STACK'', ''TICK_IDLE_RESETS'', ''IRQ_ENTRY_RESETS'']"

definition REQUIRED :: "pstr list list" where
  "REQUIRED = map (map u) [[''CloneBegin''], [''CloneFinish''], [''SwitchComplete''], [''Reserve''], [''Commit''],
     [''ChildExit'', ''ChildExitStart''], [''IdleEnter''], [''Wait4Reap''], [''LeaveBegin''], [''LeaveComplete'']]"

definition trace_config :: "pstr option \<Rightarrow> (pstr \<times> bool) list \<Rightarrow> int \<Rightarrow> pstr" where
  "trace_config without model stop_at =
     (let constants = foldl (\<lambda>cs (k, v). AList.update k v cs) (map (\<lambda>k. (k, True)) MODEL_CONSTANTS) model in
      join [10]
        ([u ''SPECIFICATION Spec'', u ''CONSTANTS'']
         @ map (\<lambda>(k, v). u ''  '' @ k @ u '' = '' @ (if v then u ''TRUE'' else u ''FALSE'')) constants
         @ [u ''  WITHOUT = \"''
              @ (case without of None \<Rightarrow> u ''none'' | Some a \<Rightarrow> if a = [] then u ''none'' else a)
              @ u ''\"'',
            u ''  STOP_AT = '' @ str_int stop_at]
         @ map (\<lambda>broken. u ''INVARIANT '' @ u broken)
             [''StackSafety'', ''RunningMatchesCores'', ''StartsOnFreeStack'', ''NoLostWakeup'',
              ''WaitMatchesState'', ''NotStopped'', ''TraceUnfinished'']) @ [10])"

subsection \<open>TLC's answer\<close>

definition run_tlc ::
  "tlc_run \<Rightarrow> int \<Rightarrow> int list \<Rightarrow> observation list \<Rightarrow> pstr option \<Rightarrow> (pstr \<times> bool) list \<Rightarrow> int \<Rightarrow> py_error + pstr" where
  "run_tlc tlc cores pids obs without model stop_at =
     tlc (trace_module cores pids obs) (trace_config without model stop_at)"

definition describe_hold :: "observation \<Rightarrow> pstr" where
  "describe_hold ob = join [10] (map (\<lambda>l. u ''    '' @ l) (o_lines ob))"

definition without_text :: "pstr option \<Rightarrow> pstr" where
  "without_text without = (case without of None \<Rightarrow> [] | Some a \<Rightarrow> if a = [] then [] else u '' without '' @ a)"

definition stuck_report ::
  "tlc_run \<Rightarrow> (nat \<Rightarrow> bool) \<Rightarrow> int \<Rightarrow> int list \<Rightarrow> observation list \<Rightarrow> pstr option \<Rightarrow> (pstr \<times> bool) list \<Rightarrow> int
     \<Rightarrow> py_error + pstr" where
  "stuck_report tlc uw cores pids obs without model depth =
     (if depth \<ge> int (length obs) then Inr (u ''TLC reached the end of the trace without a verdict'')
      else
        bindR (py_nth obs depth) (\<lambda>stuck.
        bindR (run_tlc tlc cores pids obs without model depth) (\<lambda>detail.
        let states = behaviour uw detail;
            before = (if states \<noteq> [] \<and> contains (u ''Invariant NotStopped is violated'') detail
              then [10] @ u ''  the model's state before it (hidden variables chosen by TLC):'' @ [10]
                @ show_state (filter (\<lambda>(k, v). k \<noteq> u ''l'') (last states))
              else []) in
        Inr (u ''sequence '' @ str_int (o_sequence stuck) @ u '' (cpu '' @ str_int (o_cpu stuck)
          @ u ''): no behaviour of StackOwnership.tla'' @ without_text without @ u '' takes this ''
          @ (if o_locked stuck then u ''locked'' else u ''unlocked'')
          @ u '' hold, from any state matching the trace so far:'' @ [10]
          @ describe_hold stuck @ before))))"

definition violation_error :: "(nat \<Rightarrow> bool) \<Rightarrow> observation list \<Rightarrow> pstr \<Rightarrow> pstr \<Rightarrow> py_error + pstr" where
  "violation_error uw obs answer broken =
     (let states = behaviour uw answer in
      bindR (if states \<noteq> [] then bindR (py_int (lookup_or (last states) (u ''l'') (u ''1''))) (\<lambda>l. Inr (l - 1))
             else Inr 0) (\<lambda>index.
      bindR (py_nth obs index) (\<lambda>spot.
        let act = (if states \<noteq> [] then strip [34] (lookup_or (last states) (u ''act'') (u ''?'')) else u ''?'');
            tail = (if states \<noteq> [] then show_state (last states) else []) in
        Inr (u ''sequence '' @ str_int (o_sequence spot) @ u '' (cpu '' @ str_int (o_cpu spot)
          @ u ''): after '' @ act @ u '', '' @ broken @ u '' is violated:'' @ [10] @ describe_hold spot @ [10]
          @ u ''  the state TLC reached:'' @ [10] @ tail))))"

definition check ::
  "tlc_run \<Rightarrow> (nat \<Rightarrow> bool) \<Rightarrow> int \<Rightarrow> hold list \<Rightarrow> pstr option \<Rightarrow> (pstr \<times> bool) list
     \<Rightarrow> py_error + pstr list \<times> (pstr \<Rightarrow> nat)" where
  "check tlc uw cores holds without model =
     bindR (observations cores holds) (\<lambda>obs.
     let pids = all_pids holds in
     bindR (run_tlc tlc cores pids obs without model 0) (\<lambda>answer.
     case search_word uw (u ''Invariant '') (u '' is violated'') answer of
       Some broken \<Rightarrow>
         if broken = u ''TraceUnfinished'' then Inr ([], count_actions ACTIONS (behaviour uw answer))
         else bindR (violation_error uw obs answer broken) (\<lambda>e. Inr ([e], \<lambda>_. 0))
     | None \<Rightarrow>
         if contains (u ''Model checking completed. No error has been found.'') answer then
           bindR (case search_digits (u ''depth of the complete state graph search is '') answer of
                    None \<Rightarrow> Inr 0 | Some ds \<Rightarrow> py_int ds) (\<lambda>depth.
           bindR (stuck_report tlc uw cores pids obs without model depth) (\<lambda>e. Inr ([e], \<lambda>_. 0)))
         else Inl (TraceError (u ''TLC gave no verdict:'' @ [10] @ drop (length answer - 4000) answer))))"

subsection \<open>The script\<close>

definition protocol_fail :: pstr where "protocol_fail = u ''FAIL protocol-trace: ''"

definition verdict ::
  "int \<Rightarrow> int \<Rightarrow> hold list \<Rightarrow> pstr option \<Rightarrow> pstr list \<times> (pstr \<Rightarrow> nat) \<Rightarrow> int \<times> verdict_line list" where
  "verdict cores holds_total holds without r = (case r of (errors, counts) \<Rightarrow>
     if errors \<noteq> [] then
       (1, map (\<lambda>e. Printed (u ''ERROR protocol-trace: '' @ e)) errors
           @ [Printed (protocol_fail @ u ''the kernel made a step kernel/models/StackOwnership.tla ''
                @ u ''does not allow (checked by TLC through StackOwnershipTrace.tla)'')])
     else let unseen = unseen_steps REQUIRED without counts in
       if unseen \<noteq> [] then
         (1, [Printed (protocol_fail @ u ''the window never exercised '' @ join (u '', '') unseen
                @ u '', so a PASS would say nothing about it'')])
       else
         (0, [Printed (u ''PASS protocol-trace: TLC matched '' @ str_nat (sum_list (map counts ACTIONS))
                @ u '' step(s) over '' @ str_nat (length holds) @ u '' changed hold(s) of '' @ str_int holds_total
                @ u '', on '' @ str_int cores @ u '' core(s), to a behaviour of StackOwnership.tla with its ''
                @ u ''invariants and WaitMatchesState intact ('' @ seen_counts ACTIONS counts @ u '')'')]))"

definition main ::
  "tlc_run \<Rightarrow> (nat \<Rightarrow> bool) \<Rightarrow> pstr list \<Rightarrow> pstr option \<Rightarrow> pstr list \<Rightarrow> py_error + int \<times> verdict_line list" where
  "main tlc uw lines without items =
     bindR (model_items MODEL_CONSTANTS items) (\<lambda>model.
     case bindR (parse (map (rstrip [13, 10]) lines)) (\<lambda>(cores, holds_total, holds).
            bindR (check tlc uw cores holds without model) (\<lambda>r. Inr (verdict cores holds_total holds without r))) of
       Inr v \<Rightarrow> Inr v
     | Inl (TraceError m) \<Rightarrow> Inr (1, [Failed protocol_fail (TraceError m)])
     | Inl e \<Rightarrow> Inl e)"

end
