(* ===== verification/ProtocolTrace_Facts.thy ===== *)
theory ProtocolTrace_Facts
  imports ProtocolTrace "HOL-Library.Multiset"
begin

section \<open>What the protocol trace validator guarantees\<close>

text \<open>
  About the definitions of \<open>ProtocolTrace\<close>: the observations handed to TLC are the latest
  values of the report, the parser groups a whole report into ordered well-formed
  holds (\<open>changes\<close> is its loop invariant), the script passes exactly when TLC consumed
  the trace with every required step taken, and two malformed reports it does not refuse.
\<close>

subsection \<open>What the observations are\<close>

text \<open>A hold as the parser builds it: one entry per process and per core, with its link and reason.\<close>

definition hold_wf :: "hold \<Rightarrow> bool" where
  "hold_wf h \<longleftrightarrow> distinct (map fst (h_processes h)) \<and> distinct (map fst (h_cores h)) \<and> distinct (h_gone h)
     \<and> map fst (h_parents h) = map fst (h_processes h) \<and> map fst (h_reasons h) = map fst (h_processes h)"

text \<open>The value the last of the holds to report one reports, and a default before any does.\<close>

definition latest :: "('h \<Rightarrow> 'a option) \<Rightarrow> 'a \<Rightarrow> 'h list \<Rightarrow> 'a" where
  "latest report d hs = (case List.map_filter report (rev hs) of [] \<Rightarrow> d | x # _ \<Rightarrow> x)"

lemma latest_simps [simp]:
  "latest report d [] = d"
  "latest report d (hs @ [h]) = (case report h of None \<Rightarrow> latest report d hs | Some x \<Rightarrow> x)"
  by (simp_all add: latest_def map_filter_simps split: option.splits)

definition reported_state :: "int \<Rightarrow> hold \<Rightarrow> pstr option" where
  "reported_state p h = (if p \<in> set (h_gone h) then Some (u ''Reaped'') else map_option fst (map_of (h_processes h) p))"

definition reported_owner :: "int \<Rightarrow> hold \<Rightarrow> int option option" where
  "reported_owner p h = (if p \<in> set (h_gone h) then Some None else map_option snd (map_of (h_processes h) p))"

definition reported_reason :: "int \<Rightarrow> hold \<Rightarrow> int option" where
  "reported_reason p h = (if h_unlocked h then None else map_of (h_reasons h) p)"

definition links_of :: "(int \<times> int option) list \<Rightarrow> (int \<times> int) list" where
  "links_of ps = List.map_filter (\<lambda>(p, l). map_option (Pair p) l) ps"

definition links :: "hold list \<Rightarrow> (int \<times> int) list" where
  "links holds = concat (map (\<lambda>h. links_of (h_parents h)) holds)"

definition fixed :: "(int \<times> int) list \<Rightarrow> bool" where
  "fixed ls \<longleftrightarrow> list_all (\<lambda>(p, q). list_all (\<lambda>(p', q'). p = p' \<longrightarrow> q = q') ls) ls"

definition known_cores :: "int \<Rightarrow> hold list \<Rightarrow> bool" where
  "known_cores cores holds \<longleftrightarrow> list_all (\<lambda>h. list_all (\<lambda>(c, _). 0 \<le> c \<and> c < cores) (h_cores h)) holds"

text \<open>The whole state observed after the holds \<open>past\<close> of the window \<open>holds\<close>.\<close>

definition observed :: "int \<Rightarrow> hold list \<Rightarrow> hold list \<Rightarrow> observation" where
  "observed cores holds past =
     \<lparr>o_sequence = (if past = [] then 0 else h_sequence (last past)),
      o_cpu = (if past = [] then 0 else h_cpu (last past)),
      o_locked = (past = [] \<or> \<not> h_unlocked (last past)),
      o_state = (\<lambda>p. latest (reported_state p) (initial_state holds p) past),
      o_owner = (\<lambda>p. latest (reported_owner p) None past),
      o_parent = map_of (links holds),
      o_reason = (\<lambda>p. latest (reported_reason p) 0 past),
      o_current = (\<lambda>c. if 0 \<le> c \<and> c < cores
        then Some (latest (\<lambda>h. map_option fst (map_of (h_cores h) c)) None past) else None),
      o_stands = (\<lambda>c. if 0 \<le> c \<and> c < cores
        then Some (latest (\<lambda>h. map_option snd (map_of (h_cores h) c)) None past) else None),
      o_lines = (if past = [] then [] else h_lines (last past))\<rparr>"

text \<open>The links of the window agree, or the parents are refused.\<close>

lemma fixed_iff: "fixed ls \<longleftrightarrow> (\<forall>p q q'. (p, q) \<in> set ls \<longrightarrow> (p, q') \<in> set ls \<longrightarrow> q = q')"
  by (fastforce simp: fixed_def list_all_iff)

lemma fixed_append: "fixed (xs @ ys) \<Longrightarrow> fixed xs"
  unfolding fixed_iff by simp

lemma link_parent_simps [simp]:
  "link_parent s parent (p, None) = Inr parent"
  "parent p \<in> {None, Some q} \<Longrightarrow> link_parent s parent (p, Some q) = Inr (parent(p \<mapsto> q))"
  "parent p \<notin> {None, Some q} \<Longrightarrow> \<exists>m. link_parent s parent (p, Some q) = Inl (TraceError m)"
  by (auto simp: link_parent_def)

lemma fixed_snoc:
  assumes "fixed ls"
  shows "fixed (ls @ [(p, q)]) \<longleftrightarrow> map_of ls p \<in> {None, Some q}"
proof (cases "map_of ls p")
  case None
  then have "(p, q') \<notin> set ls" for q' by (metis map_of_eq_None_iff fst_conv image_eqI)
  with assms None show ?thesis by (auto simp: fixed_iff)
next
  case (Some r)
  then have r: "(p, r) \<in> set ls" by (rule map_of_SomeD)
  have eq: "q' = r" if "(p, q') \<in> set ls" for q'
    using assms that r by (simp add: fixed_iff)
  show ?thesis
  proof
    assume "fixed (ls @ [(p, q)])"
    with r have "q = r" by (auto simp: fixed_iff)
    with Some show "map_of ls p \<in> {None, Some q}" by simp
  next
    assume "map_of ls p \<in> {None, Some q}"
    with Some have "q = r" by simp
    with assms r show "fixed (ls @ [(p, q)])" by (auto simp: fixed_iff dest: eq)
  qed
qed

lemma map_of_nil_fun: "map_of [] = (\<lambda>_. None)"
  by (rule ext) simp

lemma map_of_snoc_same: "map_of ls p \<in> {None, Some q} \<Longrightarrow> map_of (ls @ [(p, q)]) = (map_of ls)(p \<mapsto> q)"
  by (rule ext) (auto simp: map_add_def split: option.splits)

lemma links_of_simps [simp]:
  "links_of [] = []" "links_of ((p, None) # ps) = links_of ps" "links_of ((p, Some q) # ps) = (p, q) # links_of ps"
  by (simp_all add: links_of_def map_filter_simps)

lemma link_parents:
  assumes "fixed ls"
  shows "if fixed (ls @ links_of ps)
    then foldM (link_parent s) (map_of ls) ps = Inr (map_of (ls @ links_of ps))
    else \<exists>m. foldM (link_parent s) (map_of ls) ps = Inl (TraceError m)"
  using assms
proof (induction ps arbitrary: ls)
  case (Cons e ps)
  obtain p l where e: "e = (p, l)" by (cases e)
  show ?case
  proof (cases l)
    case None
    with Cons.IH [OF Cons.prems] e show ?thesis by simp
  next
    case (Some q)
    show ?thesis
    proof (cases "map_of ls p \<in> {None, Some q}")
      case True
      then have "fixed (ls @ [(p, q)])" using Cons.prems fixed_snoc by blast
      from Cons.IH [OF this, unfolded map_of_snoc_same [OF True]] True e Some show ?thesis
        by (simp del: map_of_append)
    next
      case False
      then have "\<not> fixed ((ls @ [(p, q)]) @ links_of ps)" using Cons.prems fixed_snoc fixed_append by blast
      moreover obtain m where "link_parent s (map_of ls) (p, Some q) = Inl (TraceError m)"
        using link_parent_simps(3) [of "map_of ls" p q s] False by blast
      ultimately show ?thesis using e Some by simp
    qed
  qed
qed simp

lemma fix_parents_from:
  assumes "fixed ls"
  shows "if fixed (ls @ links holds)
    then foldM (\<lambda>parent h. foldM (link_parent (h_sequence h)) parent (h_parents h)) (map_of ls) holds
      = Inr (map_of (ls @ links holds))
    else \<exists>m. foldM (\<lambda>parent h. foldM (link_parent (h_sequence h)) parent (h_parents h)) (map_of ls) holds
      = Inl (TraceError m)"
  using assms
proof (induction holds arbitrary: ls)
  case (Cons h hs)
  note step = link_parents [OF Cons.prems, of "h_parents h" "h_sequence h"]
  show ?case
  proof (cases "fixed (ls @ links_of (h_parents h))")
    case True
    with step Cons.IH [OF True] show ?thesis by (simp add: links_def del: map_of_append)
  next
    case False
    then have "\<not> fixed ((ls @ links_of (h_parents h)) @ links hs)" using fixed_append by blast
    with False step show ?thesis by (auto simp: links_def)
  qed
qed (simp add: links_def)

lemma fix_parents_links:
  "if fixed (links holds) then fix_parents holds = Inr (map_of (links holds))
   else \<exists>m. fix_parents holds = Inl (TraceError m)"
  using fix_parents_from [of "[]" holds] unfolding fix_parents_def map_of_nil_fun append_Nil by (simp add: fixed_iff)

text \<open>One hold applied to the state observed so far.\<close>

lemma see_processes:
  assumes "distinct (map fst ps)"
  shows "foldl (see_process h) ob ps = ob
    \<lparr>o_state := (\<lambda>p. case map_of ps p of None \<Rightarrow> o_state ob p | Some (st, _) \<Rightarrow> st),
     o_owner := (\<lambda>p. case map_of ps p of None \<Rightarrow> o_owner ob p | Some (_, own) \<Rightarrow> own),
     o_reason := (if h_unlocked h then o_reason ob
       else (\<lambda>p. if map_of ps p = None then o_reason ob p else the (map_of (h_reasons h) p)))\<rparr>"
  using assms
proof (induction ps arbitrary: ob)
  case (Cons e ps)
  obtain p st own where e: "e = (p, st, own)" by (cases e)
  have "map_of ps p = None" using Cons.prems e by (auto simp: map_of_eq_None_iff)
  then show ?case using Cons e
    by (auto simp: see_process_def fun_eq_iff intro!: observation.equality split: option.splits)
qed simp

lemma see_gones:
  "foldl see_gone ob ps = ob
    \<lparr>o_state := (\<lambda>p. if p \<in> set ps then u ''Reaped'' else o_state ob p),
     o_owner := (\<lambda>p. if p \<in> set ps then None else o_owner ob p)\<rparr>"
  by (induction ps arbitrary: ob) (auto simp: see_gone_def fun_eq_iff intro!: observation.equality)

lemma see_cores:
  assumes "distinct (map fst cs)"
  shows "if list_all (\<lambda>(c, _). o_current ob c \<noteq> None) cs
    then foldM (see_core cores) ob cs = Inr (ob
      \<lparr>o_current := (\<lambda>c. case map_of cs c of None \<Rightarrow> o_current ob c | Some (cur, _) \<Rightarrow> Some cur),
       o_stands := (\<lambda>c. case map_of cs c of None \<Rightarrow> o_stands ob c | Some (_, stood) \<Rightarrow> Some stood)\<rparr>)
    else \<exists>m. foldM (see_core cores) ob cs = Inl (TraceError m)"
  using assms
proof (induction cs arbitrary: ob)
  case (Cons e cs)
  obtain c cur stood where e: "e = (c, cur, stood)" by (cases e)
  show ?case
  proof (cases "o_current ob c")
    case None
    with e show ?thesis by (simp add: see_core_def)
  next
    case (Some x)
    let ?ob = "ob\<lparr>o_current := (o_current ob)(c \<mapsto> cur), o_stands := (o_stands ob)(c \<mapsto> stood)\<rparr>"
    have step: "see_core cores ob e = Inr ?ob" using Some e by (simp add: see_core_def)
    have fresh: "map_of cs c = None" using Cons.prems e by (auto simp: map_of_eq_None_iff)
    have same: "list_all (\<lambda>(d, _). o_current ?ob d \<noteq> None) cs \<longleftrightarrow> list_all (\<lambda>(d, _). o_current ob d \<noteq> None) (e # cs)"
    proof -
      have "(\<lambda>(d, _ :: int option \<times> int option). o_current ?ob d \<noteq> None) = (\<lambda>(d, _). o_current ob d \<noteq> None)"
        using Some by (auto simp: fun_eq_iff)
      then show ?thesis using Some e by simp
    qed
    have upd: "?ob\<lparr>o_current := (\<lambda>d. case map_of cs d of None \<Rightarrow> o_current ?ob d | Some (cur, _) \<Rightarrow> Some cur),
       o_stands := (\<lambda>d. case map_of cs d of None \<Rightarrow> o_stands ?ob d | Some (_, stood) \<Rightarrow> Some stood)\<rparr>
      = ob\<lparr>o_current := (\<lambda>d. case map_of (e # cs) d of None \<Rightarrow> o_current ob d | Some (cur, _) \<Rightarrow> Some cur),
       o_stands := (\<lambda>d. case map_of (e # cs) d of None \<Rightarrow> o_stands ob d | Some (_, stood) \<Rightarrow> Some stood)\<rparr>"
      using e fresh by (auto simp: fun_eq_iff intro!: observation.equality split: option.splits)
    have "distinct (map fst cs)" using Cons.prems by simp
    from Cons.IH [OF this, of ?ob, unfolded same upd] show ?thesis by (simp add: step)
  qed
qed simp

lemma reasons_of:
  assumes "hold_wf h"
  shows "map_of (h_reasons h) p = None \<longleftrightarrow> map_of (h_processes h) p = None"
  using assms unfolding map_of_eq_None_iff hold_wf_def by (metis list.set_map)

lemma known_cores_simps [simp]:
  "known_cores cores [] \<longleftrightarrow> True"
  "known_cores cores (h # hs) \<longleftrightarrow> list_all (\<lambda>(c, _). 0 \<le> c \<and> c < cores) (h_cores h) \<and> known_cores cores hs"
  by (simp_all add: known_cores_def)

lemma see_hold_observed:
  assumes "hold_wf h"
  shows "if list_all (\<lambda>(c, _). 0 \<le> c \<and> c < cores) (h_cores h)
    then see_hold cores (observed cores holds past) h = Inr (observed cores holds (past @ [h]))
    else \<exists>m. see_hold cores (observed cores holds past) h = Inl (TraceError m)"
proof -
  let ?ob = "observed cores holds past"
  let ?seen = "foldl see_gone (foldl (see_process h) ?ob (h_processes h)) (h_gone h)"
  have reason: "reported_reason p h = (if h_unlocked h \<or> map_of (h_processes h) p = None
      then None else Some (the (map_of (h_reasons h) p)))" for p
    using reasons_of [OF assms, of p] by (auto simp: reported_reason_def)
  have seen: "?seen = ?ob\<lparr>o_state := (\<lambda>p. latest (reported_state p) (initial_state holds p) (past @ [h])),
      o_owner := (\<lambda>p. latest (reported_owner p) None (past @ [h])),
      o_reason := (\<lambda>p. latest (reported_reason p) 0 (past @ [h]))\<rparr>"
    using assms
    by (auto simp: see_gones see_processes hold_wf_def observed_def fun_eq_iff reported_state_def reported_owner_def
        reason simp del: map_of_eq_Some_iff intro!: observation.equality split: option.splits)
  have cur: "o_current ?seen c \<noteq> None \<longleftrightarrow> 0 \<le> c \<and> c < cores" for c by (simp add: seen) (simp add: observed_def)
  have d: "distinct (map fst (h_cores h))" using assms by (simp add: hold_wf_def)
  note step = see_cores [OF d, of ?seen cores, unfolded cur]
  show ?thesis
  proof (cases "list_all (\<lambda>(c, _). 0 \<le> c \<and> c < cores) (h_cores h)")
    case True
    have inside: "map_of (h_cores h) c = Some x \<Longrightarrow> 0 \<le> c \<and> c < cores" for c x
      using True by (auto simp: list_all_iff dest!: map_of_SomeD)
    let ?core = "?seen\<lparr>o_current := (\<lambda>c. case map_of (h_cores h) c of None \<Rightarrow> o_current ?seen c | Some (cur, _) \<Rightarrow> Some cur),
       o_stands := (\<lambda>c. case map_of (h_cores h) c of None \<Rightarrow> o_stands ?seen c | Some (_, stood) \<Rightarrow> Some stood)\<rparr>"
    have "?core\<lparr>o_sequence := h_sequence h, o_cpu := h_cpu h, o_locked := \<not> h_unlocked h, o_lines := h_lines h\<rparr>
      = observed cores holds (past @ [h])"
      unfolding seen by (auto simp: observed_def fun_eq_iff simp del: map_of_eq_Some_iff
          intro!: observation.equality split: option.splits dest: inside)
    moreover have "foldM (see_core cores) ?seen (h_cores h) = Inr ?core" using True step by simp
    ultimately show ?thesis using True by (simp add: see_hold_def)
  next
    case False
    with step show ?thesis by (auto simp: see_hold_def)
  qed
qed

lemma observe_observed:
  assumes "list_all hold_wf hs"
  shows "if known_cores cores hs
    then observe cores (observed cores holds past) hs
      = Inr (map (\<lambda>k. observed cores holds (past @ take k hs)) [1..<Suc (length hs)])
    else \<exists>m. observe cores (observed cores holds past) hs = Inl (TraceError m)"
  using assms
proof (induction hs arbitrary: past)
  case (Cons h hs)
  have wf: "hold_wf h" "list_all hold_wf hs" using Cons.prems by simp_all
  note step = see_hold_observed [OF wf(1), of cores holds past] and IH = Cons.IH [OF wf(2), of "past @ [h]"]
  have "map (\<lambda>k. observed cores holds (past @ take k (h # hs))) [1..<Suc (length (h # hs))]
     = observed cores holds (past @ [h])
        # map (\<lambda>k. observed cores holds ((past @ [h]) @ take k hs)) [1..<Suc (length hs)]"
  proof -
    have "[1..<Suc (length (h # hs))] = 1 # map Suc [1..<Suc (length hs)]"
      by (simp add: map_Suc_upt upt_conv_Cons del: upt_Suc)
    then show ?thesis by (simp del: upt_Suc)
  qed
  with step IH show ?case by (auto simp del: upt_Suc split: if_splits)
qed simp

text \<open>
  (C17) The observations are exactly what the report says: one per hold, in order, the
  k-th the whole state after the first k holds, where a process's state and owner are
  the latest reported (a removed process is reaped and unowned, one never reported has
  its initial state), its wait reason the latest reported under the lock, its parent
  the one link of the whole window, and a core's process and stack the latest
  reported.  Holds whose links disagree, or that name a core outside the window, are
  refused, and no others.
\<close>

theorem observations_latest:
  assumes "list_all hold_wf holds" and "holds \<noteq> []"
  shows "if fixed (links holds) \<and> known_cores cores holds
    then observations cores holds = Inr (map (\<lambda>k. observed cores holds (take k holds)) [1..<Suc (length holds)])
    else \<exists>m. observations cores holds = Inl (TraceError m)"
proof -
  have start: "observed cores holds [] = \<lparr>o_sequence = 0, o_cpu = 0, o_locked = True, o_state = initial_state holds,
        o_owner = (\<lambda>_. None), o_parent = map_of (links holds), o_reason = (\<lambda>_. 0),
        o_current = (\<lambda>core. if 0 \<le> core \<and> core < cores then Some None else None),
        o_stands = (\<lambda>core. if 0 \<le> core \<and> core < cores then Some None else None), o_lines = []\<rparr>"
    by (auto simp: observed_def fun_eq_iff)
  show ?thesis
    using fix_parents_links [of holds] observe_observed [OF assms(1), of cores holds "[]", unfolded start] assms(2)
    by (auto simp: observations_def Let_def simp del: upt_Suc split: if_splits)
qed
subsection \<open>What the parser accepts\<close>

text \<open>The hold a line belongs to.\<close>

definition line_key :: "pstr \<Rightarrow> int \<times> bool" where
  "line_key t = ((case py_int (split_ws t ! 0) of Inr n \<Rightarrow> n | Inl _ \<Rightarrow> 0), split_ws t ! 2 = u ''u'')"

definition hold_key :: "hold \<Rightarrow> int \<times> bool" where
  "hold_key h = (h_sequence h, h_unlocked h)"

definition steps_wf :: "step_dict \<Rightarrow> bool" where
  "steps_wf steps \<longleftrightarrow> distinct (map fst steps) \<and> list_all (\<lambda>(k, h). k = hold_key h \<and> hold_wf h) steps"

lemma apply_change_wf:
  assumes "apply_change t fs h = Inr h'"
  shows "hold_key h' = hold_key h \<and> h_lines h' = h_lines h \<and> h_cpu h' = h_cpu h \<and> (hold_wf h \<longrightarrow> hold_wf h')"
  using assms
  by (auto simp: apply_change_def malformed_def hold_key_def hold_wf_def distinct_update
      update_keys split: if_splits)

lemma parse_change_Inr:
  assumes "parse_change steps t = Inr steps'"
  obtains h h' cpu where "steps' = AList.update (line_key t) h' steps"
    "h = (case map_of steps (line_key t) of Some h \<Rightarrow> h | None \<Rightarrow> new_hold (fst (line_key t)) cpu (snd (line_key t)))"
    "hold_key h' = hold_key h" "h_lines h' = h_lines h @ [t]" "hold_wf h \<longrightarrow> hold_wf h'"
proof -
  define fs where "fs = split_ws t"
  from assms obtain sequence cpu where n: "py_int (fs ! 0) = Inr sequence" "py_int (fs ! 1) = Inr cpu"
    by (auto simp: parse_change_def Let_def fs_def malformed_def split: if_splits)
  have k: "line_key t = (sequence, fs ! 2 = u ''u'')" using n by (simp add: line_key_def fs_def)
  define h where "h = (case map_of steps (line_key t) of Some h \<Rightarrow> h | None \<Rightarrow> new_hold sequence cpu (fs ! 2 = u ''u''))"
  obtain h' where h': "caught t (apply_change t fs (h\<lparr>h_lines := h_lines h @ [t]\<rparr>)) = Inr h'"
    "steps' = AList.update (line_key t) h' steps"
    using assms n k by (auto simp: parse_change_def Let_def fs_def [symmetric] malformed_def h_def split: if_splits)
  then have "apply_change t fs (h\<lparr>h_lines := h_lines h @ [t]\<rparr>) = Inr h'"
    by (auto simp: caught_def malformed_def split: sum.splits py_error.splits)
  from apply_change_wf [OF this] h'(2) show ?thesis
    by (intro that [of h' h cpu]) (auto simp: h_def k new_hold_def hold_key_def hold_wf_def split: option.splits)
qed

lemma in_update:
  assumes "distinct (map fst xs)" and "(k', v') \<in> set (AList.update k v xs)"
  shows "(k', v') = (k, v) \<or> (k' \<noteq> k \<and> (k', v') \<in> set xs)"
proof -
  have "map_of (AList.update k v xs) k' = Some v'"
    using assms distinct_update [OF assms(1), of k v] by (simp add: map_of_is_SomeI)
  then show ?thesis by (auto simp: update_conv' split: if_splits dest: map_of_SomeD)
qed

lemma parse_change_wf:
  assumes "steps_wf steps" and "parse_change steps t = Inr steps'"
  shows "steps_wf steps'"
proof -
  obtain h h' cpu where c: "steps' = AList.update (line_key t) h' steps"
    "h = (case map_of steps (line_key t) of Some h \<Rightarrow> h | None \<Rightarrow> new_hold (fst (line_key t)) cpu (snd (line_key t)))"
    "hold_key h' = hold_key h" "hold_wf h \<longrightarrow> hold_wf h'"
    by (rule parse_change_Inr [OF assms(2)])
  have "hold_key h = line_key t \<and> hold_wf h"
  proof (cases "map_of steps (line_key t)")
    case None
    with c(2) have "h = new_hold (fst (line_key t)) cpu (snd (line_key t))" by simp
    then show ?thesis
      by (cases h) (auto simp: new_hold_def hold_key_def hold_wf_def)
  next
    case (Some g)
    then have "(line_key t, g) \<in> set steps" by (rule map_of_SomeD)
    with assms(1) Some c(2) show ?thesis by (auto simp: steps_wf_def list_all_iff)
  qed
  then have new: "line_key t = hold_key h' \<and> hold_wf h'" using c(3,4) by simp
  have d: "distinct (map fst steps)" using assms(1) by (simp add: steps_wf_def)
  have "k = hold_key g \<and> hold_wf g" if "(k, g) \<in> set steps'" for k g
    using in_update [OF d that [unfolded c(1)]] new assms(1) by (auto simp: steps_wf_def list_all_iff)
  then show ?thesis using distinct_update [OF d] by (auto simp: steps_wf_def list_all_iff c(1))
qed

interpretation changes: step_invariant parse_change steps_wf
  by unfold_locales (rule parse_change_wf)

lemma parse_change_lines:
  assumes "parse_change steps t = Inr steps'"
  shows "(case map_of steps' k of None \<Rightarrow> [] | Some h \<Rightarrow> h_lines h)
    = (case map_of steps k of None \<Rightarrow> [] | Some h \<Rightarrow> h_lines h) @ filter (\<lambda>t. line_key t = k) [t]"
proof -
  obtain h h' cpu where c: "steps' = AList.update (line_key t) h' steps"
    "h = (case map_of steps (line_key t) of Some h \<Rightarrow> h | None \<Rightarrow> new_hold (fst (line_key t)) cpu (snd (line_key t)))"
    "h_lines h' = h_lines h @ [t]"
    by (rule parse_change_Inr [OF assms])
  have "h_lines h = (case map_of steps (line_key t) of None \<Rightarrow> [] | Some h \<Rightarrow> h_lines h)"
    by (subst c(2)) (simp add: new_hold_def split: option.splits)
  with c(1,3) show ?thesis by (auto simp: update_conv')
qed

lemma parse_changes_lines:
  "foldM parse_change steps ts = Inr steps' \<Longrightarrow>
    (case map_of steps' k of None \<Rightarrow> [] | Some h \<Rightarrow> h_lines h)
      = (case map_of steps k of None \<Rightarrow> [] | Some h \<Rightarrow> h_lines h) @ filter (\<lambda>t. line_key t = k) ts"
proof (induction ts arbitrary: steps)
  case (Cons t ts)
  then obtain mid where "parse_change steps t = Inr mid" "foldM parse_change mid ts = Inr steps'" by auto
  with Cons.IH [of mid] parse_change_lines [of steps t mid k] show ?case by auto
qed simp

text \<open>Sorting a list of distinct keys puts it in strictly increasing order.\<close>

lemma sort_key_strict:
  fixes f :: "'a \<Rightarrow> 'k::linorder"
  assumes "distinct (map f xs)"
  shows "sorted_wrt (\<lambda>a b. f a < f b) (sort_key f xs)"
proof -
  have "mset (map f (sort_key f xs)) = mset (map f xs)" by (simp add: mset_map)
  then have "distinct (map f (sort_key f xs))" using assms mset_eq_imp_distinct_iff by blast
  then have "sorted_wrt (<) (map f (sort_key f xs))" by (simp add: strict_sorted_iff)
  then show ?thesis by (simp add: sorted_wrt_map)
qed

definition before :: "hold \<Rightarrow> hold \<Rightarrow> bool" where
  "before a b \<longleftrightarrow> (h_sequence a, \<not> h_unlocked a) < (h_sequence b, \<not> h_unlocked b)"

lemma order_steps_sorted:
  assumes "steps_wf steps"
  shows "sorted_wrt before (order_steps steps)"
proof -
  let ?f = "\<lambda>((sequence, unlocked), _ :: hold). (sequence :: int, \<not> unlocked)"
  let ?g = "\<lambda>(s :: int, b). (s, \<not> b)"
  have "inj_on ?g (set (map fst steps))" by (auto simp: inj_on_def)
  then have "distinct (map ?g (map fst steps))"
    using assms unfolding steps_wf_def distinct_map [of ?g] by blast
  moreover have "map ?g (map fst steps) = map ?f steps" by (auto simp: split_def)
  ultimately have "distinct (map ?f steps)" by metis
  then have strict: "sorted_wrt (\<lambda>a b. ?f a < ?f b) (sort_key ?f steps)" by (rule sort_key_strict)
  have "before (snd a) (snd b)" if "a \<in> set steps" "b \<in> set steps" "?f a < ?f b" for a b
  proof -
    obtain s1 b1 h1 s2 b2 h2 where ab: "a = ((s1, b1), h1)" "b = ((s2, b2), h2)" by (metis surj_pair)
    have "(s1, b1) = hold_key h1" "(s2, b2) = hold_key h2"
      using assms that(1,2) unfolding ab steps_wf_def list_all_iff by auto
    then show ?thesis using that(3) unfolding ab by (simp add: before_def hold_key_def)
  qed
  then have "sorted_wrt (\<lambda>a b. before (snd a) (snd b)) (sort_key ?f steps)"
    using sorted_wrt_mono_rel [of "sort_key ?f steps" "\<lambda>a b. ?f a < ?f b" "\<lambda>a b. before (snd a) (snd b)", OF _ strict]
    by (metis (no_types, lifting) set_sort)
  then show ?thesis by (simp add: order_steps_def sorted_wrt_map)
qed

lemma check_snapshot_Inr:
  assumes "check_snapshot cores holds = Inr slots"
  shows "holds \<noteq> [] \<and> hold_key (hd holds) = (0, False)
    \<and> sort (map fst (h_cores (hd holds))) = int_range slots \<and> cores \<le> slots"
proof -
  let ?have = "map fst (h_cores (hd holds))"
  have a: "holds \<noteq> []" "hold_key (hd holds) = (0, False)"
    using assms by (auto simp: check_snapshot_def hold_key_def split: if_splits)
  have b: "find (\<lambda>core. core \<notin> set ?have) (int_range cores) = None"
    using assms by (auto simp: check_snapshot_def Let_def split: if_splits option.splits)
  then have all: "c \<in> set ?have" if "c \<in> set (int_range cores)" for c using that by (auto simp: find_None_iff)
  have ne: "?have \<noteq> []" and srt: "sort ?have = int_range slots"
    using assms by (auto simp: check_snapshot_def Let_def split: if_splits option.splits list.splits)
  have "set (int_range slots) = set ?have" by (metis srt set_sort)
  with ne all have "set (int_range slots) \<noteq> {}" "set (int_range cores) \<subseteq> set (int_range slots)" by auto
  moreover have r: "set (int_range n) = {0..<n}" for n
    by (cases "0 \<le> n") (auto simp: int_range_def image_int_atLeastLessThan)
  ultimately have "cores \<le> slots" by (auto simp: r)
  with a srt show ?thesis by simp
qed

lemma protocol_parse_Inr:
  assumes "parse lines = Inr (slots, total_holds, holds)"
  obtains pre hdr groups ns events steps where
    "bodies protocol_prefix lines = pre @ hdr # events @ [u ''end'']"
    "startswith hdr (u ''begin '')" "list_all (\<lambda>t. \<not> startswith t (u ''begin '')) (pre @ events)"
    "digit_fields protocol_header hdr = Some groups" "mapM py_int groups = Inr ns"
    "ns ! 2 = 0" "ns ! 1 = int (length events)" "ns ! 3 = total_holds"
    "foldM parse_change [] events = Inr steps" "holds = order_steps steps"
    "check_snapshot (ns ! 0) holds = Inr slots"
proof -
  define body where "body = bodies protocol_prefix lines"
  define i where "i = begin_indices body ! 0"
  have one: "length (begin_indices body) = 1"
    using assms by (auto simp: parse_def Let_def body_def split: if_splits)
  obtain groups where g: "digit_fields protocol_header (body ! i) = Some groups"
    using assms one by (cases "digit_fields protocol_header (body ! i)") (auto simp: parse_def Let_def body_def i_def)
  obtain ns where ns: "mapM py_int groups = Inr ns"
    using assms one g by (cases "mapM py_int groups") (auto simp: parse_def Let_def body_def i_def)
  define tail where "tail = drop (i + 1) body"
  have facts: "tail \<noteq> []" "last tail = u ''end''" "ns ! 2 = 0" "int (length (butlast tail)) = ns ! 1"
    using assms one g ns by (auto simp: parse_def Let_def body_def i_def tail_def split: if_splits)
  have "bindR (foldM parse_change [] (butlast tail)) (\<lambda>steps. bindR (check_snapshot (ns ! 0) (order_steps steps))
      (\<lambda>slots. Inr (slots, ns ! 3, order_steps steps))) = Inr (slots, total_holds, holds)"
    using assms one g ns facts
    by (auto simp: parse_def Let_def body_def i_def tail_def split: if_splits)
  then obtain steps where run: "foldM parse_change [] (butlast tail) = Inr steps" "holds = order_steps steps"
    "check_snapshot (ns ! 0) holds = Inr slots" "ns ! 3 = total_holds" by auto
  note frame = window_frame [OF one i_def tail_def facts(1,2)]
  show ?thesis
    using that [of "take i body" "body ! i" "butlast tail" groups ns steps] frame g ns facts run
    by (simp add: body_def)
qed

text \<open>
  (C18) The parser accepts only a whole report: one header with nothing lost, an end
  line, as many changes as the header says.  Its holds are the changes grouped by
  sequence number and lock, each with exactly its lines in the order of the log and
  no change left out; they come in strictly increasing order, an unlocked hold before
  the locked one of its sequence number, and start with the snapshot, which has one
  line for each of the core slots 0 up to the last and covers the header's cores.
\<close>

theorem parse_holds:
  assumes "parse lines = Inr (slots, total_holds, holds)"
  shows "\<exists>pre hdr groups cores events.
    bodies protocol_prefix lines = pre @ hdr # events @ [u ''end'']
    \<and> startswith hdr (u ''begin '') \<and> list_all (\<lambda>t. \<not> startswith t (u ''begin '')) (pre @ events)
    \<and> digit_fields protocol_header hdr = Some groups
    \<and> mapM py_int groups = Inr [cores, int (length events), 0, total_holds]
    \<and> list_all (\<lambda>h. hold_wf h \<and> h_lines h = filter (\<lambda>t. line_key t = hold_key h) events) holds
    \<and> list_all (\<lambda>t. list_ex (\<lambda>h. hold_key h = line_key t) holds) events
    \<and> sorted_wrt before holds
    \<and> holds \<noteq> [] \<and> hold_key (hd holds) = (0, False)
    \<and> sort (map fst (h_cores (hd holds))) = int_range slots \<and> cores \<le> slots"
proof -
  obtain pre hdr groups ns events steps where
    frame: "bodies protocol_prefix lines = pre @ hdr # events @ [u ''end'']"
    "startswith hdr (u ''begin '')" "list_all (\<lambda>t. \<not> startswith t (u ''begin '')) (pre @ events)"
    and g: "digit_fields protocol_header hdr = Some groups" "mapM py_int groups = Inr ns"
    and n: "ns ! 2 = 0" "ns ! 1 = int (length events)" "ns ! 3 = total_holds"
    and run: "foldM parse_change [] events = Inr steps" and holds: "holds = order_steps steps"
    and snap: "check_snapshot (ns ! 0) holds = Inr slots"
    by (rule protocol_parse_Inr [OF assms])
  have "length ns = 4" using header_ints [OF g] by (simp add: protocol_header_def)
  then have ns: "ns = [ns ! 0, int (length events), 0, total_holds]"
    using n by (auto intro!: nth_equalityI simp: less_Suc_eq numeral_eq_Suc)
  have wf: "steps_wf steps" using changes.foldM_inv [OF _ run] by (simp add: steps_wf_def)
  have set: "set holds = snd ` set steps" by (simp add: holds order_steps_def)
  have key: "map_of steps (hold_key h) = Some h \<and> hold_wf h" if h: "h \<in> set holds" for h
  proof -
    from h obtain k where k: "(k, h) \<in> set steps" by (auto simp: set)
    with wf have "k = hold_key h \<and> hold_wf h" by (auto simp: steps_wf_def list_all_iff)
    with k wf show ?thesis by (auto simp: steps_wf_def)
  qed
  have lines: "h_lines h = filter (\<lambda>t. line_key t = hold_key h) events" if "h \<in> set holds" for h
    using parse_changes_lines [OF run, of "hold_key h"] key [OF that] by simp
  have every: "\<exists>h\<in>set holds. hold_key h = line_key t" if t: "t \<in> set events" for t
  proof -
    have "filter (\<lambda>t'. line_key t' = line_key t) events \<noteq> []" using t by (auto simp: filter_empty_conv)
    then obtain h where h: "map_of steps (line_key t) = Some h"
      using parse_changes_lines [OF run, of "line_key t"] by (cases "map_of steps (line_key t)") auto
    then have "(line_key t, h) \<in> set steps" by (rule map_of_SomeD)
    with wf have "line_key t = hold_key h" "h \<in> set holds" by (force simp: steps_wf_def list_all_iff set)+
    then show ?thesis by metis
  qed
  have "sorted_wrt before holds" unfolding holds by (rule order_steps_sorted [OF wf])
  moreover have "list_all (\<lambda>h. hold_wf h \<and> h_lines h = filter (\<lambda>t. line_key t = hold_key h) events) holds"
    using key lines by (simp add: list_all_iff)
  moreover have "list_all (\<lambda>t. list_ex (\<lambda>h. hold_key h = line_key t) holds) events"
    using every by (simp add: list_all_iff list_ex_iff)
  moreover have "mapM py_int groups = Inr [ns ! 0, int (length events), 0, total_holds]"
    by (subst ns [symmetric]) (rule g(2))
  ultimately show ?thesis using frame g(1) check_snapshot_Inr [OF snap]
    by (intro exI [of _ pre] exI [of _ hdr] exI [of _ groups] exI [of _ "ns ! 0"] exI [of _ events]) simp
qed

subsection \<open>A window\<close>

definition sample :: "pstr list" where
  "sample = map u [''protocol-trace: begin cores=1 stored=3 lost=0 holds=2'',
     ''protocol-trace: 0 0 l c 0 1 -'', ''protocol-trace: 0 0 l p 1 2 0 0 -'',
     ''protocol-trace: 7 0 l p 2 1 - 0 1'', ''protocol-trace: end'']"

definition sample_snapshot :: hold where
  "sample_snapshot = \<lparr>h_sequence = 0, h_cpu = 0, h_unlocked = False, h_processes = [(1, u ''Running'', Some 0)],
     h_parents = [(1, None)], h_reasons = [(1, 0)], h_gone = [], h_cores = [(0, Some 1, None)],
     h_lines = [u ''0 0 l c 0 1 -'', u ''0 0 l p 1 2 0 0 -'']\<rparr>"

definition sample_start :: hold where
  "sample_start = sample_snapshot\<lparr>h_processes := [], h_parents := [], h_reasons := [], h_lines := [u ''0 0 l c 0 1 -'']\<rparr>"

definition sample_clone :: hold where
  "sample_clone = \<lparr>h_sequence = 7, h_cpu = 0, h_unlocked = False, h_processes = [(2, u ''Ready'', None)],
     h_parents = [(2, Some 1)], h_reasons = [(2, 0)], h_gone = [], h_cores = [],
     h_lines = [u ''7 0 l p 2 1 - 0 1'']\<rparr>"

lemmas change_eval = parse_change_def apply_change_def caught_def new_hold_def model_state_def STATES_def
  opt_value_def malformed_def sample_snapshot_def sample_start_def sample_clone_def Let_def

lemma sample_changes:
  "parse_change [] (u ''0 0 l c 0 1 -'') = Inr [((0, False), sample_start)]"
  "parse_change [((0, False), sample_start)] (u ''0 0 l p 1 2 0 0 -'') = Inr [((0, False), sample_snapshot)]"
  "parse_change [((0, False), sample_snapshot)] (u ''7 0 l p 2 1 - 0 1'')
     = Inr [((0, False), sample_snapshot), ((7, False), sample_clone)]"
  by (simp_all add: change_eval text_eval)

lemma protocol_sample_body: "bodies protocol_prefix sample = [u ''begin cores=1 stored=3 lost=0 holds=2'',
    u ''0 0 l c 0 1 -'', u ''0 0 l p 1 2 0 0 -'', u ''7 0 l p 2 1 - 0 1'', u ''end'']"
  by (simp add: bodies_def sample_def protocol_prefix_def text_eval)

lemma sample_header: "digit_fields protocol_header (u ''begin cores=1 stored=3 lost=0 holds=2'')
    = Some [u ''1'', u ''3'', u ''0'', u ''2'']"
  by (simp add: protocol_header_def text_eval Let_def)

lemma sample_order:
  "order_steps [((0, False), sample_snapshot), ((7, False), sample_clone)] = [sample_snapshot, sample_clone]"
  by (simp add: order_steps_def)

lemma sample_checked: "check_snapshot 1 [sample_snapshot, sample_clone] = Inr 1"
  by (simp add: check_snapshot_def sample_snapshot_def int_range_def)

lemma protocol_sample_parse: "parse sample = Inr (1, 2, [sample_snapshot, sample_clone])"
proof -
  have b: "begin_indices [u ''begin cores=1 stored=3 lost=0 holds=2'',
    u ''0 0 l c 0 1 -'', u ''0 0 l p 1 2 0 0 -'', u ''7 0 l p 2 1 - 0 1'', u ''end''] = [0]"
    by (simp add: begin_indices_def text_eval upt_rec)
  have n: "py_int (u ''1'') = Inr 1" "py_int (u ''3'') = Inr 3" "py_int (u ''2'') = Inr 2" "py_int (u ''0'') = Inr 0"
    by (simp_all add: text_eval)
  show ?thesis unfolding parse_def protocol_sample_body
    by (simp add: b sample_header n sample_changes sample_order sample_checked Let_def numeral_eq_Suc)
qed

theorem parse_holds_witness:
  "parse sample = Inr (1, 2, [sample_snapshot, sample_clone]) \<and> (\<exists>pre hdr groups cores events.
    bodies protocol_prefix sample = pre @ hdr # events @ [u ''end'']
    \<and> startswith hdr (u ''begin '') \<and> list_all (\<lambda>t. \<not> startswith t (u ''begin '')) (pre @ events)
    \<and> digit_fields protocol_header hdr = Some groups
    \<and> mapM py_int groups = Inr [cores, int (length events), 0, 2]
    \<and> list_all (\<lambda>h. hold_wf h \<and> h_lines h = filter (\<lambda>t. line_key t = hold_key h) events)
         [sample_snapshot, sample_clone]
    \<and> list_all (\<lambda>t. list_ex (\<lambda>h. hold_key h = line_key t) [sample_snapshot, sample_clone]) events
    \<and> sorted_wrt before [sample_snapshot, sample_clone]
    \<and> [sample_snapshot, sample_clone] \<noteq> [] \<and> hold_key (hd [sample_snapshot, sample_clone]) = (0, False)
    \<and> sort (map fst (h_cores (hd [sample_snapshot, sample_clone]))) = int_range 1 \<and> cores \<le> 1)"
  by (rule conjI [OF protocol_sample_parse parse_holds [OF protocol_sample_parse]])

theorem observations_latest_witness:
  "observations 1 [sample_snapshot, sample_clone]
     = Inr [observed 1 [sample_snapshot, sample_clone] [sample_snapshot],
            observed 1 [sample_snapshot, sample_clone] [sample_snapshot, sample_clone]]"
proof -
  let ?hs = "[sample_snapshot, sample_clone]"
  have "list_all hold_wf ?hs" by (simp add: hold_wf_def sample_snapshot_def sample_clone_def)
  moreover have "fixed (links ?hs) \<and> known_cores 1 ?hs"
    by (simp add: links_def fixed_def known_cores_def sample_snapshot_def sample_clone_def)
  ultimately show ?thesis using observations_latest [of ?hs 1] by (simp add: numeral_eq_Suc)
qed

subsection \<open>The verdict\<close>

interpretation protocol_actions: required_actions ACTIONS REQUIRED
  by unfold_locales (auto simp: REQUIRED_def ACTIONS_def)

lemma protocol_check_clean:
  "check tlc uw cores holds without model = Inr ([], counts) \<longleftrightarrow>
     (\<exists>obs ans. observations cores holds = Inr obs
        \<and> run_tlc tlc cores (all_pids holds) obs without model 0 = Inr ans
        \<and> search_word uw (u ''Invariant '') (u '' is violated'') ans = Some (u ''TraceUnfinished'')
        \<and> counts = count_actions ACTIONS (behaviour uw ans))"
    (is "?clean \<longleftrightarrow> ?consumed")
proof
  assume ?clean
  then show ?consumed by (auto simp: check_def Let_def split: option.splits if_splits)
next
  assume ?consumed
  then show ?clean by (elim exE conjE) (simp add: check_def)
qed

lemma protocol_verdict_pass:
  "fst (verdict cores n holds without (errors, counts)) = 0
     \<longleftrightarrow> errors = [] \<and> unseen_steps REQUIRED without counts = []"
  by (auto simp: verdict_def Let_def)

text \<open>
  (C19) The script exits 0 exactly when its options are valid, the log holds one whole
  window the parser and the bookkeeping accept, TLC consumed the trace they wrote (the
  first invariant it reports violated is \<open>TraceUnfinished\<close>), and the behaviour TLC printed
  takes every step the probe must make, the action dropped by \<open>--without\<close> apart.
\<close>

theorem protocol_passes_iff:
  "(\<exists>out. main tlc uw lines without items = Inr (0, out)) \<longleftrightarrow>
     (\<exists>model cores n holds obs ans. model_items MODEL_CONSTANTS items = Inr model
        \<and> parse (map (rstrip [13, 10]) lines) = Inr (cores, n, holds)
        \<and> observations cores holds = Inr obs
        \<and> run_tlc tlc cores (all_pids holds) obs without model 0 = Inr ans
        \<and> search_word uw (u ''Invariant '') (u '' is violated'') ans = Some (u ''TraceUnfinished'')
        \<and> list_all (\<lambda>step. without \<in> Some ` set step
             \<or> list_ex (\<lambda>st. act_name st \<in> set step) (behaviour uw ans)) REQUIRED)"
    (is "?pass \<longleftrightarrow> ?conds")
proof
  assume ?pass
  then obtain model cores n holds r out where model: "model_items MODEL_CONSTANTS items = Inr model"
    and p: "parse (map (rstrip [13, 10]) lines) = Inr (cores, n, holds)"
    and r: "check tlc uw cores holds without model = Inr r" and v: "verdict cores n holds without r = (0, out)"
    by (auto simp: main_def split: sum.splits py_error.splits prod.splits)
  obtain errors counts where ec: "r = (errors, counts)" by (cases r)
  have ok: "errors = []" "unseen_steps REQUIRED without counts = []"
    using protocol_verdict_pass [of cores n holds without errors counts] v ec by auto
  with r ec obtain obs ans where "observations cores holds = Inr obs"
    "run_tlc tlc cores (all_pids holds) obs without model 0 = Inr ans"
    "search_word uw (u ''Invariant '') (u '' is violated'') ans = Some (u ''TraceUnfinished'')"
    "counts = count_actions ACTIONS (behaviour uw ans)" using protocol_check_clean by blast
  with model p ok(2) show ?conds using protocol_actions.unseen_counts [of without "behaviour uw ans"] by blast
next
  assume ?conds
  then obtain model cores n holds obs ans where model: "model_items MODEL_CONSTANTS items = Inr model"
    and p: "parse (map (rstrip [13, 10]) lines) = Inr (cores, n, holds)"
    and o: "observations cores holds = Inr obs" "run_tlc tlc cores (all_pids holds) obs without model 0 = Inr ans"
      "search_word uw (u ''Invariant '') (u '' is violated'') ans = Some (u ''TraceUnfinished'')"
    and seen: "unseen_steps REQUIRED without (count_actions ACTIONS (behaviour uw ans)) = []"
    using protocol_actions.unseen_counts [of without] by blast
  let ?r = "([], count_actions ACTIONS (behaviour uw ans))"
  have "check tlc uw cores holds without model = Inr ?r" using o protocol_check_clean by blast
  moreover have "fst (verdict cores n holds without ?r) = 0" using seen protocol_verdict_pass by blast
  ultimately show ?pass using model p by (auto simp: main_def intro!: exI prod_eqI)
qed

subsection \<open>Reports the parser does not refuse\<close>

text \<open>
  Two malformed reports end in an uncaught \<open>ValueError\<close>: a sequence number written with a
  digit \<open>int\<close> does not read, outside the \<open>try\<close>, and a window of no core.
\<close>

lemma superscript_sequence:
  "parse_change steps (178 # u '' 0 l g 1 0 0'') = Inl (ValueError (u ''invalid literal for int()''))"
proof -
  have "decimal_value 178 = None" by (simp add: decimal_value_latin)
  then show ?thesis
    by (simp add: parse_change_def text_eval Let_def isdigit_char_def digit_extras_def)
qed


end
