(* ===== verification/Regex.thy ===== *)
theory Regex
  imports Text
begin

section \<open>Regular expressions\<close>

text \<open>
  Python's \<open>re\<close>, for the patterns the scripts use.  A pattern is a value of \<open>regex\<close>
  written out constructor by constructor; \<open>matches\<close> lists every way it matches at a
  position in the order a backtracking matcher tries them, so the match Python
  returns is the first.  A position is the text before it, reversed, and the text
  after it, with the groups captured so far.  No pattern repeats a body that can
  match nothing, and none used for scanning or substitution matches the empty text.
\<close>

subsection \<open>Patterns\<close>

datatype citem = One nat | Span nat nat | CDigit | CSpace | CWord

datatype chars = Any | AnyS | Of "citem list" | NotOf "citem list"

fun citem_has :: "(nat \<Rightarrow> bool) \<Rightarrow> nat \<Rightarrow> citem \<Rightarrow> bool" where
  "citem_has uw c (One d) \<longleftrightarrow> c = d"
| "citem_has uw c (Span a b) \<longleftrightarrow> a \<le> c \<and> c \<le> b"
| "citem_has uw c CDigit \<longleftrightarrow> is_decimal c"
| "citem_has uw c CSpace \<longleftrightarrow> isspace_char c"
| "citem_has uw c CWord \<longleftrightarrow> is_word uw c"

text \<open>\<open>.\<close>, \<open>.\<close> under \<open>re.S\<close>, \<open>[...]\<close> and \<open>[^...]\<close>.\<close>

fun chars_has :: "(nat \<Rightarrow> bool) \<Rightarrow> chars \<Rightarrow> nat \<Rightarrow> bool" where
  "chars_has uw Any c \<longleftrightarrow> c \<noteq> 10"
| "chars_has uw AnyS c \<longleftrightarrow> True"
| "chars_has uw (Of is) c \<longleftrightarrow> list_ex (citem_has uw c) is"
| "chars_has uw (NotOf is) c \<longleftrightarrow> \<not> list_ex (citem_has uw c) is"

datatype regex =
    Eps
  | Chr chars
  | Seq regex regex
  | Alt regex regex
  | Star regex             \<comment> \<open>greedy\<close>
  | Lazy regex             \<comment> \<open>\<open>*?\<close>\<close>
  | Group nat regex
  | Back nat               \<comment> \<open>\<open>\1\<close>\<close>
  | Start                  \<comment> \<open>\<open>^\<close>\<close>
  | LineStart              \<comment> \<open>\<open>^\<close> under \<open>re.M\<close>\<close>
  | EndLF                  \<comment> \<open>\<open>$\<close>: the end, or before a final line feed\<close>
  | LineEnd                \<comment> \<open>\<open>$\<close> under \<open>re.M\<close>\<close>
  | TextEnd                \<comment> \<open>\<open>\Z\<close>\<close>
  | NotAfter chars         \<comment> \<open>\<open>(?<![...])\<close>\<close>

definition Lit :: "pstr \<Rightarrow> regex" where
  "Lit s = foldr (\<lambda>c r. Seq (Chr (Of [One c])) r) s Eps"

definition Plus :: "regex \<Rightarrow> regex" where
  "Plus r = Seq r (Star r)"

definition Opt :: "regex \<Rightarrow> regex" where
  "Opt r = Alt r Eps"

definition seqs :: "regex list \<Rightarrow> regex" where
  "seqs rs = foldr Seq rs Eps"

text \<open>\<open>r{m,n}\<close>.\<close>

fun upto_times :: "nat \<Rightarrow> regex \<Rightarrow> regex" where
  "upto_times 0 r = Eps"
| "upto_times (Suc n) r = Opt (Seq r (upto_times n r))"

definition Repeat :: "nat \<Rightarrow> nat \<Rightarrow> regex \<Rightarrow> regex" where
  "Repeat m n r = Seq (seqs (replicate m r)) (upto_times (n - m) r)"

abbreviation digits :: regex where
  "digits \<equiv> Plus (Chr (Of [CDigit]))"

subsection \<open>Matching\<close>

type_synonym mstate = "pstr \<times> pstr \<times> (nat \<times> pstr) list"

definition rest :: "mstate \<Rightarrow> nat" where
  "rest s = length (fst (snd s))"

definition consumed :: "pstr \<Rightarrow> pstr \<Rightarrow> pstr" where
  "consumed pre pre' = rev (take (length pre' - length pre) pre')"

function matches :: "(nat \<Rightarrow> bool) \<Rightarrow> regex \<Rightarrow> mstate \<Rightarrow> mstate list" where
  "matches uw Eps s = [s]"
| "matches uw (Chr cs) s = (case s of (pre, post, g) \<Rightarrow>
     (case post of [] \<Rightarrow> [] | c # post' \<Rightarrow> if chars_has uw cs c then [(c # pre, post', g)] else []))"
| "matches uw (Seq a b) s = concat (map (matches uw b) (matches uw a s))"
| "matches uw (Alt a b) s = matches uw a s @ matches uw b s"
| "matches uw (Star r) s =
     concat (map (\<lambda>s'. if rest s' < rest s then matches uw (Star r) s' else []) (matches uw r s)) @ [s]"
| "matches uw (Lazy r) s =
     s # concat (map (\<lambda>s'. if rest s' < rest s then matches uw (Lazy r) s' else []) (matches uw r s))"
| "matches uw (Group n r) s = (case s of (pre, _, _) \<Rightarrow>
     map (\<lambda>(pre', post', g). (pre', post', (n, consumed pre pre') # g)) (matches uw r s))"
| "matches uw (Back n) s = (case s of (pre, post, g) \<Rightarrow>
     (case map_of g n of
        None \<Rightarrow> []
      | Some w \<Rightarrow> if startswith post w then [(rev w @ pre, drop (length w) post, g)] else []))"
| "matches uw Start s = (if fst s = [] then [s] else [])"
| "matches uw LineStart s = (if fst s = [] \<or> hd (fst s) = 10 then [s] else [])"
| "matches uw EndLF s = (if fst (snd s) = [] \<or> fst (snd s) = [10] then [s] else [])"
| "matches uw LineEnd s = (if fst (snd s) = [] \<or> hd (fst (snd s)) = 10 then [s] else [])"
| "matches uw TextEnd s = (if fst (snd s) = [] then [s] else [])"
| "matches uw (NotAfter cs) s = (if fst s \<noteq> [] \<and> chars_has uw cs (hd (fst s)) then [] else [s])"
  by pat_completeness auto
termination
  by (relation "measures [\<lambda>(uw, r, s). size r, \<lambda>(uw, r, s). rest s]") auto

subsection \<open>The calls\<close>

text \<open>A match object: what is before it, the text it matched, its groups, what is after it.\<close>

record rmatch =
  m_before :: pstr
  m_text :: pstr
  m_groups :: "(nat \<times> pstr) list"
  m_after :: pstr

definition group :: "rmatch \<Rightarrow> nat \<Rightarrow> pstr option" where
  "group m n = map_of (m_groups m) n"

definition group_text :: "rmatch \<Rightarrow> nat \<Rightarrow> pstr" where
  "group_text m n = (case group m n of None \<Rightarrow> [] | Some w \<Rightarrow> w)"

definition first_match :: "pstr \<Rightarrow> mstate list \<Rightarrow> rmatch option" where
  "first_match pre ms = (case ms of [] \<Rightarrow> None
     | (pre', post', g) # _ \<Rightarrow>
         Some \<lparr>m_before = rev pre, m_text = consumed pre pre', m_groups = g, m_after = post'\<rparr>)"

definition match_at :: "(nat \<Rightarrow> bool) \<Rightarrow> regex \<Rightarrow> pstr \<Rightarrow> pstr \<Rightarrow> rmatch option" where
  "match_at uw r pre post = first_match pre (matches uw r (pre, post, []))"

definition re_match :: "(nat \<Rightarrow> bool) \<Rightarrow> regex \<Rightarrow> pstr \<Rightarrow> rmatch option" where
  "re_match uw r s = match_at uw r [] s"

definition re_fullmatch :: "(nat \<Rightarrow> bool) \<Rightarrow> regex \<Rightarrow> pstr \<Rightarrow> rmatch option" where
  "re_fullmatch uw r s = first_match [] (filter (\<lambda>m. rest m = 0) (matches uw r ([], s, [])))"

fun search_from :: "(nat \<Rightarrow> bool) \<Rightarrow> regex \<Rightarrow> pstr \<Rightarrow> pstr \<Rightarrow> rmatch option" where
  "search_from uw r pre post = (case match_at uw r pre post of
     Some m \<Rightarrow> Some m
   | None \<Rightarrow> (case post of [] \<Rightarrow> None | c # cs \<Rightarrow> search_from uw r (c # pre) cs))"

definition re_search :: "(nat \<Rightarrow> bool) \<Rightarrow> regex \<Rightarrow> pstr \<Rightarrow> rmatch option" where
  "re_search uw r s = search_from uw r [] s"

text \<open>The text cut into its matches and the characters between them.\<close>

function pieces :: "(nat \<Rightarrow> bool) \<Rightarrow> regex \<Rightarrow> pstr \<Rightarrow> pstr \<Rightarrow> (nat + rmatch) list" where
  "pieces uw r pre post = (case match_at uw r pre post of
     Some m \<Rightarrow>
       if length (m_after m) < length post
       then Inr m # pieces uw r (rev (m_text m) @ pre) (m_after m)
       else (case post of [] \<Rightarrow> [Inr m] | c # cs \<Rightarrow> Inr m # Inl c # pieces uw r (c # pre) cs)
   | None \<Rightarrow> (case post of [] \<Rightarrow> [] | c # cs \<Rightarrow> Inl c # pieces uw r (c # pre) cs))"
  by pat_completeness auto
termination
  by (relation "measure (\<lambda>(uw, r, pre, post). length post)") auto

declare matches.simps(5,6) [simp del] pieces.simps [simp del] search_from.simps [simp del]

fun sub_piece :: "(rmatch \<Rightarrow> pstr) \<Rightarrow> nat + rmatch \<Rightarrow> pstr" where
  "sub_piece f (Inl c) = [c]"
| "sub_piece f (Inr m) = f m"

fun match_piece :: "nat + rmatch \<Rightarrow> rmatch list" where
  "match_piece (Inl c) = []"
| "match_piece (Inr m) = [m]"

definition re_sub :: "(nat \<Rightarrow> bool) \<Rightarrow> regex \<Rightarrow> (rmatch \<Rightarrow> pstr) \<Rightarrow> pstr \<Rightarrow> pstr" where
  "re_sub uw r f s = concat (map (sub_piece f) (pieces uw r [] s))"

definition re_findall :: "(nat \<Rightarrow> bool) \<Rightarrow> regex \<Rightarrow> pstr \<Rightarrow> rmatch list" where
  "re_findall uw r s = concat (map match_piece (pieces uw r [] s))"

text \<open>\<open>re.sub\<close> with \<open>count=1\<close>.\<close>

definition re_sub_once :: "(nat \<Rightarrow> bool) \<Rightarrow> regex \<Rightarrow> (rmatch \<Rightarrow> pstr) \<Rightarrow> pstr \<Rightarrow> pstr" where
  "re_sub_once uw r f s = (case re_search uw r s of None \<Rightarrow> s | Some m \<Rightarrow> m_before m @ f m @ m_after m)"

text \<open>\<open>re.split\<close>, for a pattern without groups and for one that is a group.\<close>

fun split_pieces :: "pstr \<Rightarrow> (nat + rmatch) list \<Rightarrow> pstr list" where
  "split_pieces cur [] = [cur]"
| "split_pieces cur (Inl c # ps) = split_pieces (cur @ [c]) ps"
| "split_pieces cur (Inr m # ps) = cur # split_pieces [] ps"

definition re_split :: "(nat \<Rightarrow> bool) \<Rightarrow> regex \<Rightarrow> pstr \<Rightarrow> pstr list" where
  "re_split uw r s = split_pieces [] (pieces uw r [] s)"

fun split_keep :: "pstr \<Rightarrow> (nat + rmatch) list \<Rightarrow> pstr list" where
  "split_keep cur [] = [cur]"
| "split_keep cur (Inl c # ps) = split_keep (cur @ [c]) ps"
| "split_keep cur (Inr m # ps) = cur # m_text m # split_keep [] ps"

definition re_split_keep :: "(nat \<Rightarrow> bool) \<Rightarrow> regex \<Rightarrow> pstr \<Rightarrow> pstr list" where
  "re_split_keep uw r s = split_keep [] (pieces uw r [] s)"

subsection \<open>What a match is\<close>

text \<open>A match consumes a prefix of the text and moves it before the position.\<close>

lemma matches_star:
  "s' \<in> set (matches uw (Star r) s) \<longleftrightarrow>
     s' = s \<or> (\<exists>m\<in>set (matches uw r s). rest m < rest s \<and> s' \<in> set (matches uw (Star r) m))"
  by (subst matches.simps) (auto split: if_splits)

lemma matches_lazy:
  "s' \<in> set (matches uw (Lazy r) s) \<longleftrightarrow>
     s' = s \<or> (\<exists>m\<in>set (matches uw r s). rest m < rest s \<and> s' \<in> set (matches uw (Lazy r) m))"
  by (subst matches.simps) (auto split: if_splits)

text \<open>Every character the pattern can match has the property.\<close>

fun only :: "(nat \<Rightarrow> bool) \<Rightarrow> regex \<Rightarrow> (nat \<Rightarrow> bool) \<Rightarrow> bool" where
  "only uw (Chr cs) P \<longleftrightarrow> (\<forall>c. chars_has uw cs c \<longrightarrow> P c)"
| "only uw (Seq a b) P \<longleftrightarrow> only uw a P \<and> only uw b P"
| "only uw (Alt a b) P \<longleftrightarrow> only uw a P \<and> only uw b P"
| "only uw (Star r) P \<longleftrightarrow> only uw r P"
| "only uw (Lazy r) P \<longleftrightarrow> only uw r P"
| "only uw (Group n r) P \<longleftrightarrow> only uw r P"
| "only uw (Back n) P \<longleftrightarrow> (\<forall>c. P c)"
| "only uw _ P \<longleftrightarrow> True"

text \<open>From one position to another, over characters that have the property.\<close>

definition consumes :: "(nat \<Rightarrow> bool) \<Rightarrow> mstate \<Rightarrow> mstate \<Rightarrow> bool" where
  "consumes P s s' \<longleftrightarrow> (\<exists>w. fst s' = rev w @ fst s \<and> fst (snd s) = w @ fst (snd s') \<and> list_all P w)"

lemma consumes_refl [simp]: "consumes P s s"
  unfolding consumes_def by (intro exI [of _ "[]"]) simp

lemma consumes_trans [trans]:
  assumes "consumes P s m" and "consumes P m s'"
  shows "consumes P s s'"
proof -
  from assms obtain w v where "fst m = rev w @ fst s" "fst (snd s) = w @ fst (snd m)" "list_all P w"
    "fst s' = rev v @ fst m" "fst (snd m) = v @ fst (snd s')" "list_all P v" by (auto simp: consumes_def)
  then show ?thesis unfolding consumes_def by (intro exI [of _ "w @ v"]) simp
qed

lemma matches_only: "s' \<in> set (matches uw r s) \<Longrightarrow> only uw r P \<Longrightarrow> consumes P s s'"
proof (induction uw r s arbitrary: s' rule: matches.induct)
  case (2 uw cs s)
  then show ?case unfolding consumes_def
    by (intro exI [of _ "take 1 (fst (snd s))"]) (auto split: prod.splits list.splits if_splits)
next
  case (3 uw a b s)
  then obtain m where "m \<in> set (matches uw a s)" "s' \<in> set (matches uw b m)" by auto
  with 3 have "consumes P s m" "consumes P m s'" by auto
  then show ?case by (rule consumes_trans)
next
  case (5 uw r s)
  show ?case
  proof (cases "s' = s")
    case False
    with 5(3) obtain m where m: "m \<in> set (matches uw r s)" "rest m < rest s" "s' \<in> set (matches uw (Star r) m)"
      using matches_star [of s' uw r s] by blast
    then show ?thesis using 5(1) [of m] 5(2) [of m s'] 5(4) consumes_trans [of P s m s'] by simp
  qed simp
next
  case (6 uw r s)
  show ?case
  proof (cases "s' = s")
    case False
    with 6(3) obtain m where m: "m \<in> set (matches uw r s)" "rest m < rest s" "s' \<in> set (matches uw (Lazy r) m)"
      using matches_lazy [of s' uw r s] by blast
    then show ?thesis using 6(1) [of m] 6(2) [of m s'] 6(4) consumes_trans [of P s m s'] by simp
  qed simp
next
  case (7 uw n r s)
  then show ?case by (auto simp: consumes_def split: prod.splits)
next
  case (8 uw n s)
  obtain pre post g where s: "s = (pre, post, g)" by (cases s)
  with 8 obtain w where "map_of g n = Some w" "startswith post w" "s' = (rev w @ pre, drop (length w) post, g)"
    by (auto split: option.splits if_splits)
  moreover have "w @ drop (length w) post = post"
    using \<open>startswith post w\<close> append_take_drop_id [of "length w" post] by (simp add: startswith_def)
  ultimately show ?case using s 8(2) unfolding consumes_def
    by (intro exI [of _ w]) (simp add: list_all_iff)
qed (auto split: if_splits)

lemma only_all: "only uw r (\<lambda>_. True)"
  by (induction r) auto

lemma matches_consume:
  assumes "(pre', post', g') \<in> set (matches uw r (pre, post, g))"
  shows "\<exists>w. pre' = rev w @ pre \<and> post = w @ post'"
  using matches_only [OF assms only_all] by (auto simp: consumes_def)

lemma consumed_append [simp]: "consumed pre (rev w @ pre) = w"
  by (simp add: consumed_def)

lemma first_match_None: "first_match pre ms = None \<longleftrightarrow> ms = []"
  by (auto simp: first_match_def split: list.splits)

lemma re_match_some: "re_match uw r s \<noteq> None \<longleftrightarrow> (\<exists>m. m \<in> set (matches uw r ([], s, [])))"
  unfolding re_match_def match_at_def first_match_None by (metis all_not_in_conv set_empty)

lemma re_fullmatch_some: "re_fullmatch uw r s \<noteq> None \<longleftrightarrow> (\<exists>m. m \<in> set (matches uw r ([], s, [])) \<and> rest m = 0)"
  by (auto simp: re_fullmatch_def first_match_None filter_empty_conv)

lemma matches_seq_assoc: "matches uw (Seq a (Seq b r)) s = matches uw (Seq (Seq a b) r) s"
proof -
  have "concat (map (\<lambda>x. concat (map f (g x))) xs) = concat (map f (concat (map g xs)))"
    for f :: "mstate \<Rightarrow> mstate list" and g xs by (induction xs) auto
  moreover have "matches uw (Seq b r) = (\<lambda>x. concat (map (matches uw r) (matches uw b x)))" by (rule ext) simp
  ultimately show ?thesis by (simp only: matches.simps(3))
qed

lemma matches_upto_times: "s' \<in> set (matches uw (upto_times n (Chr cs)) s) \<Longrightarrow> rest s \<le> rest s' + n"
proof (induction n arbitrary: s)
  case (Suc n)
  obtain pre post g where s: "s = (pre, post, g)" by (cases s)
  show ?case
  proof (cases "s' = s")
    case False
    with Suc.prems s obtain c cs' where "post = c # cs'" "s' \<in> set (matches uw (upto_times n (Chr cs)) (c # pre, cs', g))"
      by (auto simp: Opt_def split: list.splits if_splits)
    with Suc.IH [of "(c # pre, cs', g)"] s show ?thesis by (simp add: rest_def)
  qed simp
qed simp

lemma match_at_text:
  assumes "match_at uw r pre post = Some m"
  shows "post = m_text m @ m_after m" and "m_before m = rev pre"
proof -
  from assms obtain pre' post' g ms where ms: "matches uw r (pre, post, []) = (pre', post', g) # ms"
    and m: "m = \<lparr>m_before = rev pre, m_text = consumed pre pre', m_groups = g, m_after = post'\<rparr>"
    by (auto simp: match_at_def first_match_def split: list.splits)
  then have "(pre', post', g) \<in> set (matches uw r (pre, post, []))" by simp
  then obtain w where "pre' = rev w @ pre" "post = w @ post'" using matches_consume by blast
  with m show "post = m_text m @ m_after m" and "m_before m = rev pre" by simp_all
qed

text \<open>Substitution keeps what it does not match, and the pieces are the whole text.\<close>

fun piece_text :: "nat + rmatch \<Rightarrow> pstr" where
  "piece_text (Inl c) = [c]"
| "piece_text (Inr m) = m_text m"

lemma pieces_text: "concat (map piece_text (pieces uw r pre post)) = post"
proof (induction uw r pre post rule: pieces.induct)
  case (1 uw r pre post)
  show ?case
  proof (cases "match_at uw r pre post")
    case None
    with 1(1) [OF None] show ?thesis by (subst pieces.simps) (auto split: list.splits)
  next
    case (Some m)
    note t = match_at_text(1) [OF Some]
    show ?thesis
    proof (cases "length (m_after m) < length post")
      case True
      with 1(2) [OF Some True] Some t show ?thesis by (subst pieces.simps) simp
    next
      case False
      with t have "m_text m = []" by (cases "m_text m") auto
      with 1(3) [OF Some False] Some False show ?thesis
        by (subst pieces.simps) (auto split: list.splits)
    qed
  qed
qed

subsection \<open>Runs and literals\<close>

lemma matches_star_chars:
  "matches uw (Star (Chr cs)) (pre, post, g)
    = map (\<lambda>k. (rev (take k post) @ pre, drop k post, g)) (rev [0..<Suc (length (takeWhile (chars_has uw cs) post))])"
proof (induction post arbitrary: pre)
  case (Cons c post)
  show ?case
  proof (cases "chars_has uw cs c")
    case True
    let ?n = "length (takeWhile (chars_has uw cs) post)"
    have "rev [0..<Suc (Suc ?n)] = map Suc (rev [0..<Suc ?n]) @ [0]"
      by (simp only: rev_map [symmetric] map_Suc_upt) (simp add: upt_conv_Cons del: upt_Suc)
    with True show ?thesis
      by (subst matches.simps) (simp add: Cons.IH rest_def comp_def del: upt_Suc)
  qed (simp add: matches.simps(5) rest_def)
qed (simp add: matches.simps(5) rest_def)

lemma matches_lazy_any:
  "matches uw (Lazy (Chr AnyS)) (pre, [], g) = [(pre, [], g)]"
  "matches uw (Lazy (Chr AnyS)) (pre, c # post, g) = (pre, c # post, g) # matches uw (Lazy (Chr AnyS)) (c # pre, post, g)"
  by (simp_all add: matches.simps(6) [of uw "Chr AnyS" "(pre, _, g)"] rest_def)

lemma matches_lit:
  "matches uw (Lit w) (pre, post, g) = (if startswith post w then [(rev w @ pre, drop (length w) post, g)] else [])"
proof (induction w arbitrary: pre post)
  case (Cons c w)
  then show ?case by (cases post) (auto simp: Lit_def startswith_def)
qed (simp add: Lit_def startswith_def)

lemma match_at_chr:
  "match_at uw (Chr cs) pre [] = None"
  "match_at uw (Chr cs) pre (c # post) = (if chars_has uw cs c
     then Some \<lparr>m_before = rev pre, m_text = [c], m_groups = [], m_after = post\<rparr> else None)"
  by (simp_all add: match_at_def first_match_def consumed_def)

lemma match_at_plus:
  "match_at uw (Plus (Chr cs)) pre [] = None"
  "match_at uw (Plus (Chr cs)) pre (c # post) = (if chars_has uw cs c
     then Some \<lparr>m_before = rev pre, m_text = c # takeWhile (chars_has uw cs) post, m_groups = [],
       m_after = dropWhile (chars_has uw cs) post\<rparr> else None)"
proof -
  show "match_at uw (Plus (Chr cs)) pre [] = None" by (simp add: match_at_def first_match_def Plus_def)
  let ?n = "length (takeWhile (chars_has uw cs) post)"
  have "rev [0..<Suc ?n] = ?n # rev [0..<?n]" by simp
  moreover have "consumed pre (rev w @ c # pre) = c # w" for w using consumed_append [of pre "c # w"] by simp
  ultimately show "match_at uw (Plus (Chr cs)) pre (c # post) = (if chars_has uw cs c
     then Some \<lparr>m_before = rev pre, m_text = c # takeWhile (chars_has uw cs) post, m_groups = [],
       m_after = dropWhile (chars_has uw cs) post\<rparr> else None)"
    by (simp add: match_at_def first_match_def Plus_def matches_star_chars takeWhile_eq_take [symmetric]
        dropWhile_eq_drop [symmetric] del: upt_Suc)
qed

lemma matches_seq_lit:
  "matches uw (Seq (Lit w) r) (pre, post, g)
    = (if startswith post w then matches uw r (rev w @ pre, drop (length w) post, g) else [])"
  by (simp add: matches_lit)

lemma match_at_lit:
  assumes "match_at uw (Seq (Lit w) r) pre post = Some m"
  shows "startswith (m_text m) w"
proof -
  from assms obtain pre' post' g ms where ms: "matches uw (Seq (Lit w) r) (pre, post, []) = (pre', post', g) # ms"
    and m: "m_text m = consumed pre pre'"
    by (auto simp: match_at_def first_match_def simp del: matches.simps split: list.splits)
  then have "(pre', post', g) \<in> set (matches uw r (rev w @ pre, drop (length w) post, []))"
    unfolding matches_seq_lit by (metis list.set_intros(1) empty_iff empty_set)
  then obtain v where "pre' = rev v @ rev w @ pre" using matches_consume by blast
  then have "pre' = rev (w @ v) @ pre" by simp
  then have "m_text m = w @ v" unfolding m by (simp only: consumed_append)
  then show ?thesis by (simp add: startswith_def)
qed

end
