(* ===== verification/Source_Scan.thy ===== *)
theory Source_Scan
  imports Regex
begin

section \<open>Source scanning\<close>

text \<open>
  \<open>scripts/source_scan.py\<close>, which the source checks share: the cache of per-file
  scans, the function header pattern, the blanking of comments and literals of
  Takibi sources by one regular expression, and of comments of shell text by a
  scanning loop.  Beside it, the rules of \<open>lib/lexer.mll\<close> for comments and literals,
  which the regular expression is meant to mirror.  None of these patterns but the
  function header has \<open>\w\<close>, so they are matched with the empty table of word
  characters.  \<open>py_code_only\<close>, which asks Python's own tokenizer, is not modelled.
\<close>

subsection \<open>The cache\<close>

text \<open>
  \<open>per_file\<close>: a result is kept under its arguments, and one that is not frozen is
  refused.  A call that raises leaves the cache as it was.
\<close>

datatype 'e scan_error = Raised 'e | NotHashable

definition checked :: "('a \<Rightarrow> 'e + 'b) \<Rightarrow> ('b \<Rightarrow> bool) \<Rightarrow> 'a \<Rightarrow> 'e scan_error + 'b" where
  "checked f frozen args = (case f args of
     Inl e \<Rightarrow> Inl (Raised e)
   | Inr result \<Rightarrow> if frozen result then Inr result else Inl NotHashable)"

definition per_file ::
  "('a \<Rightarrow> 'e + 'b) \<Rightarrow> ('b \<Rightarrow> bool) \<Rightarrow> ('a \<rightharpoonup> 'b) \<Rightarrow> 'a \<Rightarrow> ('e scan_error + 'b) \<times> ('a \<rightharpoonup> 'b)" where
  "per_file f frozen cache args = (case cache args of
     Some result \<Rightarrow> (Inr result, cache)
   | None \<Rightarrow> (case checked f frozen args of
                Inl e \<Rightarrow> (Inl e, cache)
              | Inr result \<Rightarrow> (Inr result, cache(args \<mapsto> result))))"

fun calls :: "('a \<Rightarrow> 'e + 'b) \<Rightarrow> ('b \<Rightarrow> bool) \<Rightarrow> ('a \<rightharpoonup> 'b) \<Rightarrow> 'a list \<Rightarrow> ('e scan_error + 'b) list" where
  "calls f frozen cache [] = []"
| "calls f frozen cache (a # as) = (case per_file f frozen cache a of (r, cache') \<Rightarrow> r # calls f frozen cache' as)"

subsection \<open>Function headers\<close>

definition HEADER_PRIVATE :: regex where
  "HEADER_PRIVATE = Opt (Seq (Lit (u ''private'')) (Plus (Chr (Of [CSpace]))))"

definition HEADER_REST :: regex where
  "HEADER_REST = seqs [Opt (Seq (Alt (Lit (u ''inline'')) (Lit (u ''noinline''))) (Plus (Chr (Of [CSpace])))),
     Lit (u ''fn''), Plus (Chr (Of [CSpace]))]"

definition function_header :: "regex \<Rightarrow> regex \<Rightarrow> bool \<Rightarrow> regex" where
  "function_header name suffix public_only =
     seqs [LineStart, Star (Chr (Of [One 32, One 9])), if public_only then Eps else HEADER_PRIVATE,
       HEADER_REST, Group 1 name, suffix]"

definition header_is_private :: "rmatch \<Rightarrow> bool" where
  "header_is_private m \<longleftrightarrow> startswith (dropWhile isspace_char (m_text m)) (u ''private'')"

subsection \<open>Takibi sources\<close>

abbreviation no_words :: "nat \<Rightarrow> bool" where
  "no_words \<equiv> \<lambda>_. False"

abbreviation chr_is :: "nat \<Rightarrow> regex" where
  "chr_is c \<equiv> Chr (Of [One c])"

definition STRING_ITEM :: regex where
  "STRING_ITEM = Alt (Seq (chr_is 92) (Chr AnyS)) (Chr (NotOf [One 34, One 92]))"

definition STRING_TOKEN :: regex where
  "STRING_TOKEN = seqs [chr_is 34, Star STRING_ITEM, chr_is 34]"

definition CHAR_TOKEN :: regex where
  "CHAR_TOKEN = seqs [chr_is 39, Alt (Seq (chr_is 92) (Chr AnyS)) (Chr (NotOf [One 39, One 92, One 10])), chr_is 39]"

definition LINE_TOKEN :: regex where
  "LINE_TOKEN = Seq (Lit [47, 47]) (Star (Chr (NotOf [One 10])))"

definition BLOCK_TOKEN :: regex where
  "BLOCK_TOKEN = seqs [Lit [47, 42], Lazy (Chr AnyS), Alt (Lit [42, 47]) TextEnd]"

definition TKB_TOKEN :: regex where
  "TKB_TOKEN = Alt STRING_TOKEN (Alt CHAR_TOKEN (Alt LINE_TOKEN BLOCK_TOKEN))"

definition blanked :: "pstr \<Rightarrow> pstr" where
  "blanked s = re_sub no_words (Chr (NotOf [One 10])) (\<lambda>_. [32]) s"

definition is_comment :: "pstr \<Rightarrow> bool" where
  "is_comment token \<longleftrightarrow> startswith token [47, 47] \<or> startswith token [47, 42]"

definition blank_token :: "rmatch \<Rightarrow> pstr" where
  "blank_token m = (if is_comment (m_text m) then blanked (m_text m) else m_text m)"

definition code_only :: "pstr \<Rightarrow> pstr" where
  "code_only s = re_sub no_words TKB_TOKEN blank_token s"

definition code_skeleton :: "pstr \<Rightarrow> pstr" where
  "code_skeleton s = re_sub no_words TKB_TOKEN (\<lambda>m. blanked (m_text m)) s"

definition unspaced :: "pstr \<Rightarrow> pstr" where
  "unspaced s = re_sub no_words (Plus (Chr (Of [CSpace]))) (\<lambda>_. []) s"

fun compact_loop :: "pstr \<Rightarrow> nat \<Rightarrow> rmatch list \<Rightarrow> pstr" where
  "compact_loop s position [] = unspaced (drop position s)"
| "compact_loop s position (m # ms) =
     unspaced (pslice s position (length (m_before m)))
     @ (if is_comment (m_text m) then [] else m_text m)
     @ compact_loop s (length (m_before m) + length (m_text m)) ms"

definition compact :: "pstr \<Rightarrow> pstr" where
  "compact s = compact_loop s 0 (re_findall no_words TKB_TOKEN s)"

subsection \<open>Shell text\<close>

definition SH_HEREDOC :: regex where
  "SH_HEREDOC = seqs [Lit (u ''<<''), Opt (chr_is 45), Star (Chr (Of [CSpace])),
     Group 1 (Opt (Chr (Of [One 39, One 34]))),
     Group 2 (Seq (Chr (Of [Span 65 90, Span 97 122, One 95]))
       (Star (Chr (Of [Span 65 90, Span 97 122, One 95, Span 48 57])))),
     Back 1]"

text \<open>\<open>text.find("\n", index)\<close>, or the end.\<close>

definition line_end :: "pstr \<Rightarrow> nat \<Rightarrow> nat" where
  "line_end s i = i + length (takeWhile (\<lambda>c. c \<noteq> 10) (drop i s))"

text \<open>The \<open>while\<close> loop that skips one here-document, and the loop over the pending ones.\<close>

function skip_doc :: "pstr \<Rightarrow> bool \<Rightarrow> pstr \<Rightarrow> nat \<Rightarrow> nat" where
  "skip_doc s strip_tabs word i =
     (if i < length s then
        (let e = line_end s i; line = pslice s i e in
         if (if strip_tabs then dropWhile (\<lambda>c. c = 9) line else line) = word then e + 1
         else skip_doc s strip_tabs word (e + 1))
      else i)"
  by pat_completeness auto
termination
  by (relation "measure (\<lambda>(s, strip_tabs, word, i). length s - i)") (auto simp: line_end_def)

declare skip_doc.simps [simp del]

definition skip_docs :: "pstr \<Rightarrow> (bool \<times> pstr) list \<Rightarrow> nat \<Rightarrow> nat" where
  "skip_docs s docs i = foldl (\<lambda>i (strip_tabs, word). skip_doc s strip_tabs word i) i docs"

definition blank_span :: "pstr \<Rightarrow> nat \<Rightarrow> nat \<Rightarrow> pstr" where
  "blank_span out i e = take i out @ replicate (e - i) 32 @ drop e out"

lemma line_end_ge: "i \<le> line_end s i"
  by (simp add: line_end_def)

lemma line_end_gt: "i < length s \<Longrightarrow> s ! i \<noteq> 10 \<Longrightarrow> i < line_end s i"
  by (simp add: line_end_def Cons_nth_drop_Suc [symmetric])

lemma skip_doc_ge: "i \<le> skip_doc s strip_tabs word i"
proof (induction s strip_tabs word i rule: skip_doc.induct)
  case (1 s strip_tabs word i)
  show ?case
  proof (cases "i < length s")
    case True
    with 1 [OF True refl refl] line_end_ge [of i s] show ?thesis
      by (subst skip_doc.simps) (auto simp: Let_def)
  qed (simp add: skip_doc.simps)
qed

lemma skip_docs_ge: "i \<le> skip_docs s docs i"
proof (induction docs arbitrary: i)
  case (Cons d docs)
  then show ?case using skip_doc_ge [of i s "fst d" "snd d"] order_trans
    by (cases d) (simp add: skip_docs_def, blast)
qed (simp add: skip_docs_def)

lemma heredoc_nonempty:
  assumes "match_at no_words SH_HEREDOC pre post = Some m"
  shows "m_text m \<noteq> []"
proof -
  have "startswith (m_text m) (u ''<<'')"
    using assms unfolding SH_HEREDOC_def seqs_def by (simp only: foldr.simps o_def match_at_lit)
  then show ?thesis by (auto simp: startswith_def)
qed

lemma heredoc_progress:
  assumes "match_at no_words SH_HEREDOC pre post = Some m" and "i < length s"
  shows "length s - (i + length (m_text m)) < length s - i"
  using heredoc_nonempty [OF assms(1)] assms(2) by (cases "m_text m") auto

lemma skip_docs_progress: "i < length s \<Longrightarrow> length s - skip_docs s docs (Suc i) < length s - i"
  using skip_docs_ge [of "Suc i" s docs] by linarith

lemma line_end_progress: "i < length s \<Longrightarrow> s ! i \<noteq> 10 \<Longrightarrow> length s - line_end s i < length s - i"
  using line_end_gt [of i s] by linarith

function sh_loop :: "pstr \<Rightarrow> nat \<Rightarrow> nat option \<Rightarrow> bool \<Rightarrow> (bool \<times> pstr) list \<Rightarrow> pstr \<Rightarrow> pstr" where
  "sh_loop s i quote line_start docs out =
     (if length s \<le> i then out
      else let c = s ! i in
      if c = 10 then
        (if quote = None \<and> docs \<noteq> [] then sh_loop s (skip_docs s docs (i + 1)) quote True [] out
         else sh_loop s (i + 1) quote True docs out)
      else if quote = Some 39 then sh_loop s (i + 1) (if c = 39 then None else quote) False docs out
      else if quote = Some 34 then
        (if c = 92 then sh_loop s (i + 2) quote False docs out
         else sh_loop s (i + 1) (if c = 34 then None else quote) False docs out)
      else if c = 92 then sh_loop s (i + 2) quote False docs out
      else if c \<in> {39, 34} then sh_loop s (i + 1) (Some c) False docs out
      else if c = 60 \<and> startswith (drop i s) (u ''<<'') then
        (case match_at no_words SH_HEREDOC (rev (take i s)) (drop i s) of
           Some m \<Rightarrow> sh_loop s (i + length (m_text m)) quote False
             (docs @ [(startswith (m_text m) (u ''<<-''), group_text m 2)]) out
         | None \<Rightarrow> sh_loop s (i + 1) quote False docs out)
      else if c = 35 \<and> (line_start \<or> s ! (i - 1) \<in> set ([32, 9] @ u '';&|()<>'')) then
        sh_loop s (line_end s i) quote line_start docs (blank_span out i (line_end s i))
      else sh_loop s (i + 1) quote False docs out)"
  by pat_completeness auto
termination
  by (relation "measure (\<lambda>(s, i, quote, line_start, docs, out). length s - i)")
    (auto simp: not_le skip_docs_progress line_end_progress intro: heredoc_progress)

declare sh_loop.simps [simp del]

definition sh_code_only :: "pstr \<Rightarrow> pstr" where
  "sh_code_only s = sh_loop s 0 None True [] s"

end
