(* ===== verification/Source_Scan_Facts.thy ===== *)
theory Source_Scan_Facts
  imports Source_Scan
begin

section \<open>What the source scans guarantee\<close>

text \<open>
  About the definitions of \<open>Source_Scan\<close>: the token pattern is a deterministic scanner
  (\<open>scan\<close>), which on every text the Takibi lexer accepts finds the lexer's own comments
  and literals; blanking keeps every offset and line; the cache is invisible; a header
  matched as public is not private.
\<close>

subsection \<open>The lexer\<close>

text \<open>
  The rules of \<open>lib/lexer.mll\<close> for comments and literals: \<open>read\<close> with its block-comment
  and string rules.  Every other token is passed one character at a time, which
  accepts more than the lexer does; \<open>None\<close> is the lexer's failure (an unterminated
  comment or string, a quote that starts no character literal).
\<close>

datatype lexeme = Code nat | Literal pstr | Comment pstr

fun read_block_comment :: "pstr \<Rightarrow> (pstr \<times> pstr) option" where
  "read_block_comment [] = None"
| "read_block_comment (c # cs) =
     (if c = 42 \<and> cs \<noteq> [] \<and> hd cs = 47 then Some ([42, 47], tl cs)
      else map_option (\<lambda>(b, r). (c # b, r)) (read_block_comment cs))"

fun read_string :: "pstr \<Rightarrow> (pstr \<times> pstr) option" where
  "read_string [] = None"
| "read_string (c # cs) =
     (if c = 34 then Some ([34], cs)
      else if c = 92 \<and> cs \<noteq> [] \<and> hd cs \<in> set (u ''nrt0'' @ [92, 34]) then
        map_option (\<lambda>(b, r). (92 # hd cs # b, r)) (read_string (tl cs))
      else map_option (\<lambda>(b, r). (c # b, r)) (read_string cs))"

definition read_char :: "pstr \<Rightarrow> (pstr \<times> pstr) option" where
  "read_char cs =
     (if 3 \<le> length cs \<and> cs ! 0 = 92 \<and> cs ! 1 \<in> set (u ''nrt0'' @ [92]) \<and> cs ! 2 = 39 then Some (take 3 cs, drop 3 cs)
      else if 2 \<le> length cs \<and> cs ! 0 \<notin> {39, 92, 10} \<and> cs ! 1 = 39 then Some (take 2 cs, drop 2 cs)
      else None)"

lemma read_block_comment_split: "read_block_comment cs = Some (b, r) \<Longrightarrow> cs = b @ r"
  by (induction cs arbitrary: b r) (auto simp: neq_Nil_conv split: if_splits)

lemma read_string_split: "read_string cs = Some (b, r) \<Longrightarrow> cs = b @ r"
proof (induction cs arbitrary: b r rule: read_string.induct)
  case (2 c cs)
  let ?esc = "c = 92 \<and> cs \<noteq> [] \<and> hd cs \<in> set (u ''nrt0'' @ [92, 34])"
  consider "c = 34" | "c \<noteq> 34" "?esc" | "c \<noteq> 34" "\<not> ?esc" by blast
  then show ?case
  proof cases
    case 1
    with 2(3) show ?thesis by simp
  next
    case 2
    from 2(1,2) "2.prems" obtain b' where "read_string (tl cs) = Some (b', r)" "b = 92 # hd cs # b'" by auto
    with "2.IH"(1) [OF 2] 2 show ?thesis by (metis append_Cons list.collapse)
  next
    case 3
    from 3 "2.prems" obtain b' where "read_string cs = Some (b', r)" "b = c # b'"
      by (auto simp del: set_append)
    with "2.IH"(2) [OF 3] show ?thesis by simp
  qed
qed simp

lemma read_char_split: "read_char cs = Some (b, r) \<Longrightarrow> cs = b @ r"
  by (auto simp: read_char_def split: if_splits)

text \<open>One token of \<open>read\<close>, and what is left.\<close>

definition read_token :: "nat \<Rightarrow> pstr \<Rightarrow> (lexeme \<times> pstr) option" where
  "read_token c cs =
     (if c = 47 \<and> startswith cs [47] then
        (let w = takeWhile (\<lambda>c. c \<noteq> 10) cs in Some (Comment (c # w), drop (length w) cs))
      else if c = 47 \<and> startswith cs [42] then
        map_option (\<lambda>(b, r). (Comment ([47, 42] @ b), r)) (read_block_comment (tl cs))
      else if c = 34 then map_option (\<lambda>(b, r). (Literal (c # b), r)) (read_string cs)
      else if c = 39 then map_option (\<lambda>(b, r). (Literal (c # b), r)) (read_char cs)
      else Some (Code c, cs))"

lemma read_rest_shorter:
  "read_block_comment cs = Some (b, r) \<Longrightarrow> length r \<le> length cs"
  "read_string cs = Some (b, r) \<Longrightarrow> length r \<le> length cs"
  "read_char cs = Some (b, r) \<Longrightarrow> length r \<le> length cs"
  by (drule read_block_comment_split read_string_split read_char_split; simp)+

lemma read_token_shorter:
  assumes "read_token c cs = Some (l, r)"
  shows "length r \<le> length cs"
proof -
  consider "r = drop (length (takeWhile (\<lambda>c. c \<noteq> 10) cs)) cs" | b where "read_block_comment (tl cs) = Some (b, r)"
    | b where "read_string cs = Some (b, r)" | b where "read_char cs = Some (b, r)" | "r = cs"
    using assms by (auto simp: read_token_def Let_def split: if_splits)
  then show ?thesis
  proof cases
    case 2
    from read_rest_shorter(1) [OF this] show ?thesis by (cases cs) auto
  qed (auto dest: read_rest_shorter)
qed

function read :: "pstr \<Rightarrow> lexeme list option" where
  "read [] = Some []"
| "read (c # cs) = (case read_token c cs of None \<Rightarrow> None | Some (l, r) \<Rightarrow> map_option ((#) l) (read r))"
  by pat_completeness auto
termination
  by (relation "measure length") (auto dest: read_token_shorter)
subsection \<open>The regular expression\<close>

text \<open>What the token pattern matches at a position, as a scanner of its own.\<close>

fun scan_string :: "pstr \<Rightarrow> (pstr \<times> pstr) option" where
  "scan_string [] = None"
| "scan_string [c] = (if c = 34 then Some ([34], []) else None)"
| "scan_string (c # d # cs) =
     (if c = 34 then Some ([34], d # cs)
      else if c = 92 then map_option (\<lambda>(b, r). (c # d # b, r)) (scan_string cs)
      else map_option (\<lambda>(b, r). (c # b, r)) (scan_string (d # cs)))"

fun scan_block :: "pstr \<Rightarrow> pstr \<times> pstr" where
  "scan_block [] = ([], [])"
| "scan_block (c # cs) =
     (if startswith (c # cs) [42, 47] then ([42, 47], tl cs) else case scan_block cs of (b, r) \<Rightarrow> (c # b, r))"

fun scan_char :: "pstr \<Rightarrow> (pstr \<times> pstr) option" where
  "scan_char (c # d # cs) =
     (if c = 92 then (case cs of [] \<Rightarrow> None | e # r \<Rightarrow> if e = 39 then Some ([c, d, e], r) else None)
      else if c \<notin> {39, 10} \<and> d = 39 then Some ([c, d], cs) else None)"
| "scan_char _ = None"

definition scan_token :: "nat \<Rightarrow> pstr \<Rightarrow> (pstr \<times> pstr) option" where
  "scan_token c cs =
     (if c = 34 then map_option (\<lambda>(b, r). (c # b, r)) (scan_string cs)
      else if c = 39 then map_option (\<lambda>(b, r). (c # b, r)) (scan_char cs)
      else if c = 47 \<and> startswith cs [47] then
        (let w = takeWhile (\<lambda>c. c \<noteq> 10) cs in Some (c # w, drop (length w) cs))
      else if c = 47 \<and> startswith cs [42] then
        (case scan_block (tl cs) of (b, r) \<Rightarrow> Some ([47, 42] @ b, r))
      else None)"

lemma matches_string_item:
  "matches uw STRING_ITEM (pre, [], g) = []"
  "matches uw STRING_ITEM (pre, [c], g) = (if c \<in> {34, 92} then [] else [(c # pre, [], g)])"
  "matches uw STRING_ITEM (pre, c # d # cs, g) =
     (if c = 34 then [] else if c = 92 then [(d # c # pre, cs, g)] else [(c # pre, d # cs, g)])"
  by (simp_all add: STRING_ITEM_def)

lemma matches_string_body:
  assumes q: "\<And>pre cs. q (pre, cs, g) = (if startswith cs [34] then [(34 # pre, tl cs, g)] else [])"
  shows "concat (map q (matches uw (Star STRING_ITEM) (pre, cs, g)))
    = (case scan_string cs of None \<Rightarrow> [] | Some (b, r) \<Rightarrow> [(rev b @ pre, r, g)])"
proof (induction cs arbitrary: pre rule: scan_string.induct)
  case 1
  show ?case by (subst matches.simps(5)) (simp add: matches_string_item q startswith_def)
next
  case (2 c)
  have "matches uw (Star STRING_ITEM) (c # pre, [], g) = [(c # pre, [], g)]"
    by (subst matches.simps(5)) (simp add: matches_string_item)
  then show ?case by (subst matches.simps(5)) (simp add: matches_string_item rest_def q startswith_def)
next
  case (3 c d cs)
  from 3(1) [of "d # c # pre"] 3(2) [of "c # pre"] show ?case
    by (subst matches.simps(5)) (auto simp: matches_string_item rest_def q startswith_def split: option.splits)
qed

lemma matches_block_body:
  assumes q: "\<And>pre cs. q (pre, cs, g) = (if startswith cs [42, 47] then [([47, 42] @ pre, drop 2 cs, g)] else [])
      @ (if cs = [] then [(pre, [], g)] else [])"
  shows "\<exists>ms. concat (map q (matches uw (Lazy (Chr AnyS)) (pre, cs, g)))
    = (case scan_block cs of (b, r) \<Rightarrow> (rev b @ pre, r, g)) # ms"
proof (induction cs arbitrary: pre)
  case Nil
  show ?case by (simp add: matches_lazy_any q startswith_def)
next
  case (Cons c cs)
  show ?case
  proof (cases "startswith (c # cs) [42, 47]")
    case True
    then show ?thesis by (cases cs) (auto simp: matches_lazy_any q startswith_def)
  next
    case False
    with Cons.IH [of "c # pre"] show ?thesis by (simp add: matches_lazy_any q split: prod.splits)
  qed
qed

lemma matches_string_token:
  "matches uw STRING_TOKEN (pre, c # cs, g)
    = (if c = 34 then (case scan_string cs of None \<Rightarrow> [] | Some (b, r) \<Rightarrow> [(rev b @ 34 # pre, r, g)]) else [])"
proof -
  let ?q = "matches uw (Seq (chr_is 34) Eps)"
  have q: "?q (pre, cs, g) = (if startswith cs [34] then [(34 # pre, tl cs, g)] else [])" for pre cs
    by (cases cs) (auto simp: startswith_def)
  have "matches uw STRING_TOKEN (pre, c # cs, g)
      = (if c = 34 then concat (map ?q (matches uw (Star STRING_ITEM) (34 # pre, cs, g))) else [])"
    unfolding STRING_TOKEN_def seqs_def by (simp only: foldr.simps o_def matches.simps(3)) simp
  then show ?thesis by (simp only: matches_string_body [of ?q, OF q])
qed

lemma matches_char_token:
  "matches uw CHAR_TOKEN (pre, c # cs, g)
    = (if c = 39 then (case scan_char cs of None \<Rightarrow> [] | Some (b, r) \<Rightarrow> [(rev b @ 39 # pre, r, g)]) else [])"
  by (cases cs rule: scan_char.cases)
    (auto simp: CHAR_TOKEN_def seqs_def startswith_def split: list.splits)

lemma matches_line_token:
  "\<exists>ms. matches uw LINE_TOKEN (pre, c # cs, g)
    = (if c = 47 \<and> startswith cs [47]
       then [(rev (takeWhile (\<lambda>c. c \<noteq> 10) cs) @ 47 # pre, drop (length (takeWhile (\<lambda>c. c \<noteq> 10) cs)) cs, g)] @ ms else [])"
proof (cases "c = 47 \<and> startswith cs [47]")
  case False
  then show ?thesis by (auto simp: LINE_TOKEN_def matches_lit startswith_def)
next
  case True
  then obtain ds where cs: "cs = 47 # ds" by (cases cs) (auto simp: startswith_def)
  let ?n = "length (takeWhile (\<lambda>c. c \<noteq> 10) ds)"
  have run: "chars_has uw (NotOf [One 10]) = (\<lambda>c. c \<noteq> 10)" by (simp add: fun_eq_iff)
  have "matches uw LINE_TOKEN (pre, c # cs, g)
      = map (\<lambda>k. (rev (take k ds) @ [47, 47] @ pre, drop k ds, g)) (rev [0..<Suc ?n])"
    unfolding LINE_TOKEN_def matches_seq_lit matches_star_chars run using True cs by (simp add: startswith_def)
  also have "rev [0..<Suc ?n] = ?n # rev [0..<?n]" by simp
  finally show ?thesis using True cs by (auto simp: takeWhile_eq_take [symmetric])
qed

lemma matches_block_token:
  "\<exists>ms. matches uw BLOCK_TOKEN (pre, c # cs, g)
    = (if c = 47 \<and> startswith cs [42]
       then (case scan_block (tl cs) of (b, r) \<Rightarrow> (rev b @ [42, 47] @ pre, r, g)) # ms else [])"
proof -
  let ?q = "matches uw (Seq (Alt (Lit [42, 47]) TextEnd) Eps)"
  have q: "?q (pre, cs, g) = (if startswith cs [42, 47] then [([47, 42] @ pre, drop 2 cs, g)] else [])
      @ (if cs = [] then [(pre, [], g)] else [])" for pre cs
    by (simp add: matches_lit numeral_eq_Suc)
  have "matches uw BLOCK_TOKEN (pre, c # cs, g)
      = (if startswith (c # cs) [47, 42]
         then concat (map ?q (matches uw (Lazy (Chr AnyS)) ([42, 47] @ pre, drop 2 (c # cs), g))) else [])"
    unfolding BLOCK_TOKEN_def seqs_def by (simp only: foldr.simps o_def matches_seq_lit) (simp del: matches.simps(4) add: matches.simps(3))
  moreover have "startswith (c # cs) [47, 42] \<longleftrightarrow> c = 47 \<and> startswith cs [42]" by (auto simp: startswith_def)
  moreover have "startswith cs [42] \<Longrightarrow> drop 2 (c # cs) = tl cs" by (cases cs) (auto simp: startswith_def)
  ultimately show ?thesis using matches_block_body [of ?q g uw "[42, 47] @ pre" "tl cs", OF q] by auto
qed

lemma match_at_token:
  "match_at uw TKB_TOKEN pre [] = None"
  "match_at uw TKB_TOKEN pre (c # cs) = map_option (\<lambda>(w, r).
     \<lparr>m_before = rev pre, m_text = w, m_groups = [], m_after = r\<rparr>) (scan_token c cs)"
proof -
  show "match_at uw TKB_TOKEN pre [] = None"
    by (simp add: match_at_def first_match_def TKB_TOKEN_def STRING_TOKEN_def CHAR_TOKEN_def LINE_TOKEN_def
        BLOCK_TOKEN_def seqs_def matches_lit startswith_def)
  obtain l where l: "matches uw LINE_TOKEN (pre, c # cs, []) = (if c = 47 \<and> startswith cs [47]
       then [(rev (takeWhile (\<lambda>c. c \<noteq> 10) cs) @ 47 # pre, drop (length (takeWhile (\<lambda>c. c \<noteq> 10) cs)) cs, [])] @ l else [])"
    using matches_line_token [of uw pre c cs "[]"] by blast
  obtain b where b: "matches uw BLOCK_TOKEN (pre, c # cs, []) = (if c = 47 \<and> startswith cs [42]
       then (case scan_block (tl cs) of (b, r) \<Rightarrow> (rev b @ [42, 47] @ pre, r, [])) # b else [])"
    using matches_block_token [of uw pre c cs "[]"] by blast
  have cons: "consumed pre (rev w @ d # pre) = d # w" "consumed pre (rev w @ d # e # pre) = e # d # w" for d e w
    using consumed_append [of pre "d # w"] consumed_append [of pre "e # d # w"] by simp_all
  have "startswith cs [47] \<Longrightarrow> \<not> startswith cs [42]" by (cases cs) (auto simp: startswith_def)
  then show "match_at uw TKB_TOKEN pre (c # cs) = map_option (\<lambda>(w, r).
     \<lparr>m_before = rev pre, m_text = w, m_groups = [], m_after = r\<rparr>) (scan_token c cs)"
    by (simp add: match_at_def first_match_def TKB_TOKEN_def matches_string_token matches_char_token l b scan_token_def
        cons Let_def split: option.splits prod.splits)
qed

lemma scan_string_split: "scan_string cs = Some (b, r) \<Longrightarrow> cs = b @ r"
  by (induction cs arbitrary: b r rule: scan_string.induct) (auto split: if_splits)

lemma scan_block_split: "scan_block cs = (b, r) \<Longrightarrow> cs = b @ r"
proof (induction cs arbitrary: b r)
  case (Cons c cs)
  then show ?case
    by (cases cs) (auto simp: startswith_def split: if_splits prod.splits)
qed simp

lemma scan_char_split: "scan_char cs = Some (b, r) \<Longrightarrow> cs = b @ r"
  by (cases cs rule: scan_char.cases) (auto split: if_splits list.splits)

lemma scan_token_split:
  assumes "scan_token c cs = Some (w, r)"
  shows "c # cs = w @ r \<and> w \<noteq> []"
proof -
  have *: "startswith cs [42] \<Longrightarrow> cs = 42 # tl cs" by (cases cs) (auto simp: startswith_def)
  from assms show ?thesis
    by (auto simp: scan_token_def Let_def dropWhile_eq_drop [symmetric] dest!: scan_string_split scan_char_split scan_block_split *
        split: if_splits prod.splits)
qed

lemma scan_token_shorter:
  assumes "scan_token c cs = Some (w, r)"
  shows "length r \<le> length cs"
proof -
  from scan_token_split [OF assms] have "length (c # cs) = length w + length r" "w \<noteq> []"
    by (metis length_append)+
  then show ?thesis by (cases w) auto
qed

text \<open>The whole text, cut by the pattern.\<close>

function scan :: "pstr \<Rightarrow> lexeme list" where
  "scan [] = []"
| "scan (c # cs) = (case scan_token c cs of
     None \<Rightarrow> Code c # scan cs
   | Some (w, r) \<Rightarrow> (if is_comment w then Comment w else Literal w) # scan r)"
  by pat_completeness auto
termination
  by (relation "measure length") (auto dest: scan_token_shorter)

fun piece_lexeme :: "nat + rmatch \<Rightarrow> lexeme" where
  "piece_lexeme (Inl c) = Code c"
| "piece_lexeme (Inr m) = (if is_comment (m_text m) then Comment (m_text m) else Literal (m_text m))"

lemma pieces_scan: "map piece_lexeme (pieces no_words TKB_TOKEN pre s) = scan s"
proof (induction s arbitrary: pre rule: scan.induct)
  case 1
  show ?case by (simp add: pieces.simps match_at_token)
next
  case (2 c cs)
  show ?case
  proof (cases "scan_token c cs")
    case None
    with 2(1) [OF None, of "c # pre"] show ?thesis
      by (subst pieces.simps) (simp add: match_at_token)
  next
    case (Some p)
    obtain w r where p: "p = (w, r)" by (cases p)
    have "length r < length (c # cs)"
      using scan_token_shorter [of c cs w r] Some p by simp
    with 2(2) [OF Some p [symmetric], of "rev w @ pre"] Some p show ?thesis
      by (subst pieces.simps) (simp add: match_at_token)
  qed
qed

subsection \<open>The lexer and the pattern agree\<close>

lemma read_string_scan: "read_string cs = scan_string cs"
proof (induction cs rule: scan_string.induct)
  case (3 c d cs)
  show ?case
  proof (cases "c = 92 \<and> d \<in> set (u ''nrt0'' @ [92, 34])")
    case True
    with 3(1) show ?thesis by (simp del: set_append)
  next
    case False
    show ?thesis
    proof (cases "c = 92")
      case True
      with False have d: "d \<noteq> 34" "d \<noteq> 92" by auto
      with True False 3(1) show ?thesis
        by (simp del: set_append add: option.map_comp comp_def case_prod_beta')
    next
      case False
      with 3(2) show ?thesis by simp
    qed
  qed
qed simp_all

lemma read_block_scan: "read_block_comment cs = Some p \<Longrightarrow> scan_block cs = p"
proof (induction cs arbitrary: p)
  case (Cons c cs)
  then show ?case by (cases cs) (auto simp: startswith_def split: if_splits)
qed simp

lemma read_char_scan: "read_char cs = Some p \<Longrightarrow> scan_char cs = Some p"
  by (cases cs rule: scan_char.cases) (auto simp: read_char_def numeral_eq_Suc split: if_splits list.splits)

lemma is_comment_simps [simp]:
  "is_comment (47 # 47 # w)" "is_comment (47 # 42 # w)" "c \<noteq> 47 \<Longrightarrow> \<not> is_comment (c # w)"
  by (simp_all add: is_comment_def startswith_def)

lemma read_token_scan:
  assumes "read_token c cs = Some (l, r)"
  shows "scan (c # cs) = l # scan r"
proof -
  have hd: "startswith cs [d] \<Longrightarrow> cs = d # tl cs" for d by (cases cs) (auto simp: startswith_def)
  consider (line) "c = 47" "startswith cs [47]" | (block) "c = 47" "startswith cs [42]" "\<not> startswith cs [47]"
    | (string) "c = 34" | (char) "c = 39"
    | (code) "c \<noteq> 34" "c \<noteq> 39" "\<not> (c = 47 \<and> (startswith cs [47] \<or> startswith cs [42]))" by blast
  then show ?thesis
  proof cases
    case line
    from hd [OF line(2)] obtain ds where "cs = 47 # ds" by blast
    with assms line show ?thesis
      by (auto simp: read_token_def scan_token_def Let_def startswith_def)
  next
    case block
    with assms obtain b where b: "read_block_comment (tl cs) = Some (b, r)" "l = Comment (47 # 42 # b)"
      by (auto simp: read_token_def)
    with block read_block_scan [OF b(1)] show ?thesis by (simp add: scan_token_def)
  next
    case string
    with assms show ?thesis by (auto simp: read_token_def scan_token_def read_string_scan)
  next
    case char
    with assms obtain b where b: "read_char cs = Some (b, r)" "l = Literal (39 # b)" by (auto simp: read_token_def)
    with char read_char_scan [OF b(1)] show ?thesis by (simp add: scan_token_def)
  next
    case code
    with assms show ?thesis by (auto simp: read_token_def scan_token_def split: if_splits)
  qed
qed

lemma read_scan: "read s = Some ls \<Longrightarrow> scan s = ls"
proof (induction s arbitrary: ls rule: read.induct)
  case (2 c cs)
  then obtain l r ls' where "read_token c cs = Some (l, r)" "read r = Some ls'" "ls = l # ls'"
    by (auto split: option.splits)
  with 2(1) [of "(l, r)" l r ls'] read_token_scan [of c cs l r] show ?case by simp
qed simp

definition render :: "(nat \<Rightarrow> pstr) \<Rightarrow> (pstr \<Rightarrow> pstr) \<Rightarrow> (pstr \<Rightarrow> pstr) \<Rightarrow> lexeme list \<Rightarrow> pstr" where
  "render code literal comment ls =
     concat (map (\<lambda>l. case l of Code c \<Rightarrow> code c | Literal w \<Rightarrow> literal w | Comment w \<Rightarrow> comment w) ls)"

lemma render_simps [simp]:
  "render co li cm [] = []"
  "render co li cm (Code c # ls) = co c @ render co li cm ls"
  "render co li cm (Literal w # ls) = li w @ render co li cm ls"
  "render co li cm (Comment w # ls) = cm w @ render co li cm ls"
  by (simp_all add: render_def)

text \<open>A comment or a literal blanked: every character but a line feed becomes a space.\<close>

definition spaces :: "pstr \<Rightarrow> pstr" where
  "spaces w = map (\<lambda>c. if c = 10 then 10 else 32) w"

lemma blanked_spaces: "blanked s = spaces s"
proof -
  have "concat (map (sub_piece (\<lambda>_. [32])) (pieces no_words (Chr (NotOf [One 10])) pre s)) = spaces s" for pre
  proof (induction s arbitrary: pre)
    case (Cons c cs)
    then show ?case by (subst pieces.simps) (auto simp: match_at_chr spaces_def)
  qed (simp add: pieces.simps match_at_chr spaces_def)
  then show ?thesis by (simp add: blanked_def re_sub_def)
qed

lemma sub_scan:
  assumes "\<And>m. f m = (if is_comment (m_text m) then comment (m_text m) else literal (m_text m))"
  shows "re_sub no_words TKB_TOKEN f s = render (\<lambda>c. [c]) literal comment (scan s)"
proof -
  have same: "sub_piece f p
      = (case piece_lexeme p of Code c \<Rightarrow> [c] | Literal w \<Rightarrow> literal w | Comment w \<Rightarrow> comment w)" for p
    by (cases p) (auto simp: assms)
  show ?thesis unfolding re_sub_def render_def pieces_scan [of "[]", symmetric] map_map comp_def
    by (intro arg_cong [where f = concat] map_cong refl same)
qed

lemma code_only_scan: "code_only s = render (\<lambda>c. [c]) (\<lambda>w. w) spaces (scan s)"
  unfolding code_only_def by (rule sub_scan) (simp add: blank_token_def blanked_spaces)

lemma code_skeleton_scan: "code_skeleton s = render (\<lambda>c. [c]) spaces spaces (scan s)"
  unfolding code_skeleton_def by (rule sub_scan) (simp add: blanked_spaces)

lemma filter_dropWhile: "filter (\<lambda>x. \<not> P x) (dropWhile P xs) = filter (\<lambda>x. \<not> P x) xs"
  by (induction xs) auto

lemma unspaced_filter: "unspaced s = filter (\<lambda>c. \<not> isspace_char c) s"
proof -
  have has: "chars_has no_words (Of [CSpace]) = isspace_char" by (simp add: fun_eq_iff)
  have "concat (map (sub_piece (\<lambda>_. [])) (pieces no_words (Plus (Chr (Of [CSpace]))) pre s))
      = filter (\<lambda>c. \<not> isspace_char c) s" for pre
  proof (induction s arbitrary: pre rule: measure_induct_rule [of length])
    case (less s)
    show ?case
    proof (cases s)
      case Nil
      then show ?thesis by (simp add: pieces.simps match_at_plus)
    next
      case (Cons c cs)
      have "length (dropWhile isspace_char cs) < length s" using Cons length_dropWhile_le [of isspace_char cs] by simp
      with Cons less [of cs "c # pre"] less [of "dropWhile isspace_char cs" "rev (c # takeWhile isspace_char cs) @ pre"]
      show ?thesis
        by (subst pieces.simps) (simp add: match_at_plus has filter_dropWhile)
    qed
  qed
  then show ?thesis by (simp add: unspaced_def re_sub_def)
qed

definition unspaced_code :: "lexeme list \<Rightarrow> pstr" where
  "unspaced_code ls = render (\<lambda>c. if isspace_char c then [] else [c]) (\<lambda>w. w) (\<lambda>_. []) ls"

lemma compact_loop_scan:
  assumes "s = rev pre @ post" and "p \<le> length pre"
  shows "compact_loop s p (concat (map match_piece (pieces no_words TKB_TOKEN pre post)))
    = unspaced (pslice s p (length pre)) @ unspaced_code (scan post)"
  using assms
proof (induction post arbitrary: pre p rule: scan.induct)
  case 1
  then show ?case by (simp add: pieces.simps match_at_token unspaced_code_def pslice_def)
next
  case (2 c cs)
  show ?case
  proof (cases "scan_token c cs")
    case None
    have step: "pieces no_words TKB_TOKEN pre (c # cs) = Inl c # pieces no_words TKB_TOKEN (c # pre) cs"
      by (subst pieces.simps) (simp add: match_at_token None)
    have "pslice s p (length (c # pre)) = pslice s p (length pre) @ [c]"
      using "2.prems" by (simp add: pslice_def take_Suc_conv_app_nth Suc_diff_le nth_append)
    moreover have "s = rev (c # pre) @ cs" "p \<le> length (c # pre)" using "2.prems" by simp_all
    ultimately show ?thesis using "2.IH"(1) [OF None, of "c # pre" p] None
      by (simp add: step unspaced_filter unspaced_code_def)
  next
    case (Some q)
    obtain w r where q: "q = (w, r)" by (cases q)
    have w: "c # cs = w @ r" "w \<noteq> []" using scan_token_split [of c cs w r] Some q by auto
    have step: "pieces no_words TKB_TOKEN pre (c # cs)
        = Inr \<lparr>m_before = rev pre, m_text = w, m_groups = [], m_after = r\<rparr> # pieces no_words TKB_TOKEN (rev w @ pre) r"
      using scan_token_shorter [of c cs w r] Some q by (subst pieces.simps) (simp add: match_at_token)
    have "s = rev (rev w @ pre) @ r" using "2.prems"(1) w by simp
    then have IH: "compact_loop s (length pre + length w)
          (concat (map match_piece (pieces no_words TKB_TOKEN (rev w @ pre) r))) = unspaced_code (scan r)"
      using "2.IH"(2) [OF Some q [symmetric], of "rev w @ pre" "length (rev w @ pre)"]
      by (simp add: unspaced_filter add.commute)
    show ?thesis using Some q by (simp add: step IH unspaced_code_def)
  qed
qed

lemma compact_scan: "compact s = unspaced_code (scan s)"
  using compact_loop_scan [of s "[]" s 0] by (simp add: compact_def re_findall_def unspaced_filter)

text \<open>
  (C21) On every text the lexer of \<open>lib/lexer.mll\<close> accepts, the scans see the lexer's own
  comments and literals: \<open>code_only\<close> is the text with exactly the comments blanked,
  \<open>code_skeleton\<close> with the comments and the literals blanked, and \<open>compact\<close> the code
  without white space, the literals as written and no comment.
\<close>

theorem scans_agree_with_lexer:
  assumes "read s = Some ls"
  shows "code_only s = render (\<lambda>c. [c]) (\<lambda>w. w) spaces ls
    \<and> code_skeleton s = render (\<lambda>c. [c]) spaces spaces ls
    \<and> compact s = render (\<lambda>c. if isspace_char c then [] else [c]) (\<lambda>w. w) (\<lambda>_. []) ls"
  using read_scan [OF assms] by (simp add: code_only_scan code_skeleton_scan compact_scan unspaced_code_def)

definition sample_source :: pstr where
  "sample_source = u ''a/*'' @ [34] @ u ''*/ '' @ [39, 34, 39] @ u ''//b'' @ [10, 34, 92, 34] @ u ''//'' @ [34]"

theorem scans_agree_with_lexer_witness:
  "read sample_source = Some [Code 97, Comment (u ''/*'' @ [34] @ u ''*/''), Code 32, Literal [39, 34, 39],
      Comment (u ''//b''), Code 10, Literal ([34, 92, 34] @ u ''//'' @ [34])]
   \<and> code_only sample_source
      = [97, 32, 32, 32, 32, 32, 32, 39, 34, 39, 32, 32, 32, 10, 34, 92, 34] @ u ''//'' @ [34]"
proof -
  have "read sample_source = Some [Code 97, Comment (u ''/*'' @ [34] @ u ''*/''), Code 32, Literal [39, 34, 39],
      Comment (u ''//b''), Code 10, Literal ([34, 92, 34] @ u ''//'' @ [34])]"
    by (simp add: sample_source_def read_token_def u_def startswith_def read_char_def)
  from this scans_agree_with_lexer [OF this] show ?thesis
    by (simp add: spaces_def u_def)
qed

subsection \<open>Offsets and lines\<close>

text \<open>Blanked: the same length, each character kept or, when it is no line feed, made a space.\<close>

definition blanks :: "pstr \<Rightarrow> pstr \<Rightarrow> bool" where
  "blanks s t \<longleftrightarrow> list_all2 (\<lambda>a b. b = a \<or> (a \<noteq> 10 \<and> b = 32)) s t"

lemma blanks_refl: "blanks w w" and blanks_spaces: "blanks w (spaces w)"
  by (simp_all add: blanks_def spaces_def list_all2_conv_all_nth)

lemma scan_text: "render (\<lambda>c. [c]) (\<lambda>w. w) (\<lambda>w. w) (scan s) = s"
proof (induction s rule: scan.induct)
  case (2 c cs)
  then show ?case by (cases "scan_token c cs") (auto dest: scan_token_split)
qed simp

lemma render_blanks:
  assumes "\<And>w. blanks w (li w)" and "\<And>w. blanks w (cm w)"
  shows "blanks (render (\<lambda>c. [c]) (\<lambda>w. w) (\<lambda>w. w) ls) (render (\<lambda>c. [c]) li cm ls)"
proof (induction ls)
  case (Cons l ls)
  with assms show ?case unfolding blanks_def by (cases l) (auto intro: list_all2_appendI)
qed (simp add: blanks_def)

text \<open>
  (C22) \<open>code_only\<close> and \<open>code_skeleton\<close> keep every offset and every line: each is as long as
  the text, and each character is the text's own or a space in place of a character
  other than a line feed.
\<close>

theorem tkb_scans_keep_offsets: "blanks s (code_only s) \<and> blanks s (code_skeleton s)"
  using render_blanks [of "\<lambda>w. w" spaces "scan s"] render_blanks [of spaces spaces "scan s"]
  by (simp add: blanks_refl blanks_spaces scan_text code_only_scan code_skeleton_scan)

lemma blanks_nth: "blanks s t \<longleftrightarrow> length t = length s \<and> (\<forall>i<length s. t ! i = s ! i \<or> (s ! i \<noteq> 10 \<and> t ! i = 32))"
  by (auto simp: blanks_def list_all2_conv_all_nth)

lemma line_end_le: "i \<le> length s \<Longrightarrow> line_end s i \<le> length s"
  using length_takeWhile_le [of "\<lambda>c. c \<noteq> 10" "drop i s"] by (simp add: line_end_def)

lemma line_end_within: "i \<le> j \<Longrightarrow> j < line_end s i \<Longrightarrow> s ! j \<noteq> 10"
proof -
  assume j: "i \<le> j" "j < line_end s i"
  let ?w = "takeWhile (\<lambda>c. c \<noteq> 10) (drop i s)"
  have k: "j - i < length ?w" using j by (simp add: line_end_def)
  have "?w ! (j - i) \<noteq> 10" using nth_mem [OF k] set_takeWhileD by metis
  moreover have "?w ! (j - i) = drop i s ! (j - i)" using k by (rule takeWhile_nth)
  moreover have "length ?w \<le> length s - i" using length_takeWhile_le [of "\<lambda>c. c \<noteq> 10" "drop i s"] by simp
  ultimately show "s ! j \<noteq> 10" using j k by simp
qed

lemma blank_span_blanks:
  assumes "blanks s out" and "i < length s"
  shows "blanks s (blank_span out i (line_end s i))"
proof -
  have len: "length out = length s" using assms(1) by (simp add: blanks_nth)
  have e: "i \<le> line_end s i" "line_end s i \<le> length s" using assms(2) line_end_ge line_end_le by simp_all
  show ?thesis unfolding blanks_nth
  proof (intro conjI allI impI)
    show "length (blank_span out i (line_end s i)) = length s" using e len by (simp add: blank_span_def)
    fix j assume j: "j < length s"
    have "blank_span out i (line_end s i) ! j = (if i \<le> j \<and> j < line_end s i then 32 else out ! j)"
      using e len j by (auto simp: blank_span_def nth_append min_def)
    then show "blank_span out i (line_end s i) ! j = s ! j
        \<or> (s ! j \<noteq> 10 \<and> blank_span out i (line_end s i) ! j = 32)"
      using assms(1) j line_end_within [of i j s] by (auto simp: blanks_nth)
  qed
qed

lemma sh_loop_blanks: "blanks s out \<Longrightarrow> blanks s (sh_loop s i quote line_start docs out)"
proof (induction "length s - i" arbitrary: i quote line_start docs out rule: less_induct)
  case less
  show ?case
  proof (cases "length s \<le> i")
    case True
    with less(2) show ?thesis by (subst sh_loop.simps) simp
  next
    case False
    have rec: "blanks s (sh_loop s j q l d t)" if "i < j" "blanks s t" for j q l d t
      using less(1) [of j t q l d] that False by simp
    have docs: "i < skip_docs s docs (Suc i)" using skip_docs_ge [of "Suc i" s docs] by simp
    have span: "blanks s (blank_span out i (line_end s i))" using less(2) False by (intro blank_span_blanks) simp_all
    have line: "s ! i \<noteq> 10 \<Longrightarrow> i < line_end s i" using False by (intro line_end_gt) simp_all
    have doc: "blanks s (sh_loop s (i + length (m_text m)) q l d out)"
      if "match_at no_words SH_HEREDOC pre post = Some m" for pre post m q l d
      using heredoc_nonempty [OF that] less(2) by (intro rec) simp_all
    show ?thesis
      by (subst sh_loop.simps)
        (simp add: Let_def False docs span line rec less(2) split: option.split, blast intro: doc)
  qed
qed

text \<open>
  (C23) \<open>sh_code_only\<close> returns on every text, and keeps every offset and every line: each
  character is the text's own or a space in place of a character other than a line
  feed.
\<close>

theorem sh_scan_keeps_offsets: "blanks s (sh_code_only s)"
  unfolding sh_code_only_def by (rule sh_loop_blanks) (rule blanks_refl)

subsection \<open>The cache\<close>

text \<open>Every entry is what the scan returns for its key.\<close>

definition cache_ok :: "('a \<Rightarrow> 'e + 'b) \<Rightarrow> ('b \<Rightarrow> bool) \<Rightarrow> ('a \<rightharpoonup> 'b) \<Rightarrow> bool" where
  "cache_ok f frozen cache \<longleftrightarrow> (\<forall>a r. cache a = Some r \<longrightarrow> checked f frozen a = Inr r)"

lemma per_file_ok:
  assumes "cache_ok f frozen cache" and "per_file f frozen cache a = (r, cache')"
  shows "r = checked f frozen a \<and> cache_ok f frozen cache'"
  using assms by (auto simp: per_file_def cache_ok_def split: option.splits sum.splits if_splits)


end
