(* ===== verification/Ext2_Rows.thy ===== *)
theory Ext2_Rows
  imports Trace_Text Regex
begin

section \<open>The ext2 operation rows\<close>

text \<open>
  The first half of \<open>scripts/ext2_eq.py\<close>: the rows of the operation script
  (\<open>parse\<close>), the shell script generated from them (\<open>gen_sh\<close>) and the sparse fixture
  file.  An \<open>EqError\<close> is a value of \<open>eq_error\<close>, one constructor per \<open>raise\<close>, with what
  its message interpolates; \<open>EqRaised\<close> is an exception of Python itself.
\<close>

datatype eq_error =
    EqRow nat                     \<comment> \<open>\<open>want 'row NAME match|differ #ISSUE|-'\<close>\<close>
  | EqTwice nat pstr
  | EqBeforeRow nat
  | EqUnknownOp nat pstr
  | EqArity nat pstr nat
  | EqPath nat pstr pstr
  | EqText nat pstr
  | EqCount nat pstr
  | EqFill nat
  | EqAdopt nat
  | EqNoRows
  | EqTool pstr                   \<comment> \<open>\<open>debugfs\<close> or \<open>dumpe2fs\<close> failed\<close>
  | EqNotRegular pstr            \<comment> \<open>\<open>host tree holds a non-regular file\<close>\<close>
  | EqReplay "pstr list"          \<comment> \<open>\<open>debugfs replay reported\<close>\<close>
  | EqHostRun                     \<comment> \<open>\<open>host run failed\<close>\<close>
  | EqNoStat "int list"           \<comment> \<open>\<open>no stat for inodes\<close>\<close>
  | EqUnfinished pstr             \<comment> \<open>the kernel's log does not end with \<open>eq done\<close>\<close>
  | EqOutcome "pstr list"         \<comment> \<open>\<open>rows with an unexpected outcome\<close>\<close>
  | EqRaised py_error

definition raised :: "py_error + 'a \<Rightarrow> eq_error + 'a" where
  "raised r = (case r of Inl e \<Rightarrow> Inl (EqRaised e) | Inr x \<Rightarrow> Inr x)"

lemma raised_simps [simp]: "raised (Inr x) = Inr x" "raised (Inl e) = Inl (EqRaised e)"
  by (simp_all add: raised_def)

subsection \<open>Constants and patterns\<close>

definition ROOT :: pstr where "ROOT = u ''eq''"

definition DIND_FIXTURE :: pstr where "DIND_FIXTURE = u ''lib/ext2-eq-dind''"

definition DIND_BLOCKS :: "(nat \<times> byte) list" where
  "DIND_BLOCKS = [(0, 0x41), (12, 0x42), (268, 0x43), (269, 0x44)]"

definition SINGLE_LIMIT_KIB :: nat where "SINGLE_LIMIT_KIB = 12 + 256"

definition FILL_MAX :: int where "FILL_MAX = 1024"

definition LONG :: pstr where "LONG = replicate 200 110"

abbreviation no_words :: "nat \<Rightarrow> bool" where
  "no_words \<equiv> \<lambda>_. False"

definition name_chars :: "citem list" where
  "name_chars = [Span 65 90, Span 97 122, Span 48 57, One 95, One 46, One 45]"

definition NAME_RE :: regex where
  "NAME_RE = seqs [Start, Plus (Chr (Of name_chars)),
     Star (Group 1 (Seq (Chr (Of [One 47])) (Plus (Chr (Of name_chars))))), EndLF]"

definition TEXT_RE :: regex where
  "TEXT_RE = seqs [Start, Plus (Chr (Of name_chars)), EndLF]"

definition ISSUE_RE :: regex where
  "ISSUE_RE = Alt (Seq (Chr (Of [One 35])) (Plus (Chr (Of [Span 48 57])))) (Chr (Of [One 45]))"

definition COUNT_RE :: regex where
  "COUNT_RE = Repeat 1 4 (Chr (Of [Span 48 57]))"

subsection \<open>The fixture file\<close>

text \<open>
  \<open>write_fixture\<close>: seeking past the end and writing leaves zero bytes between.  The
  file's bytes after one \<open>seek\<close> and \<open>write\<close>.
\<close>

definition write_at :: "byte list \<Rightarrow> nat \<Rightarrow> byte list \<Rightarrow> byte list" where
  "write_at old off data =
     take off (old @ replicate (off - length old) 0) @ data @ drop (off + length data) old"

definition write_fixture :: "byte list" where
  "write_fixture = foldl (\<lambda>file (kib, b). write_at file (kib * 1024) (replicate 1024 b)) [] DIND_BLOCKS"

subsection \<open>Parsing\<close>

datatype arg_kind = KPath | KText | KCount

text \<open>Each operation's argument kinds and its shell template, filled with the arguments.\<close>

definition OPS :: "(pstr \<times> arg_kind list \<times> (pstr list \<Rightarrow> pstr) option) list" where
  "OPS =
     [(u ''mkdir'', [KPath], Some (\<lambda>a. u ''mkdir \"$R/'' @ a ! 0 @ u ''\"'')),
      (u ''rmdir'', [KPath], Some (\<lambda>a. u ''rmdir \"$R/'' @ a ! 0 @ u ''\"'')),
      (u ''write'', [KPath, KText], Some (\<lambda>a. u ''$B echo -n '' @ a ! 1 @ u '' >\"$R/'' @ a ! 0 @ u ''\"'')),
      (u ''fill'', [KPath, KCount], None),
      (u ''overwrite'', [KPath, KPath], Some (\<lambda>a. u ''$B dd if=\"$R/'' @ a ! 1 @ u ''\" of=\"$R/'' @ a ! 0
         @ u ''\" conv=notrunc 2>/dev/null'')),
      (u ''truncate'', [KPath], Some (\<lambda>a. u ''$B truncate -s 0 \"$R/'' @ a ! 0 @ u ''\"'')),
      (u ''unlink'', [KPath], Some (\<lambda>a. u ''rm \"$R/'' @ a ! 0 @ u ''\"'')),
      (u ''rename'', [KPath, KPath], Some (\<lambda>a. u ''mv \"$R/'' @ a ! 0 @ u ''\" \"$R/'' @ a ! 1 @ u ''\"'')),
      (u ''files'', [KPath, KCount], None),
      (u ''peer'', [KPath], None),
      (u ''adopt'', [KPath], Some (\<lambda>a. u ''mv \"$F/'' @ DIND_FIXTURE @ u ''\" \"$R/'' @ a ! 0 @ u ''\"''))]"

type_synonym eq_op = "nat \<times> pstr \<times> pstr list"

record row =
  r_name :: pstr
  r_expect :: pstr
  r_issue :: pstr
  r_ops :: "eq_op list"

definition adopted :: "row list \<Rightarrow> bool" where
  "adopted rows \<longleftrightarrow> list_ex (\<lambda>r. list_ex (\<lambda>(_, op, _). op = u ''adopt'') (r_ops r)) rows"

definition strip_ws :: "pstr \<Rightarrow> pstr" where
  "strip_ws s = rev (dropWhile isspace_char (rev (dropWhile isspace_char s)))"

definition under :: "pstr \<Rightarrow> pstr \<Rightarrow> bool" where
  "under dir path \<longleftrightarrow> path = dir \<or> startswith path (dir @ [47])"

definition check_arg :: "nat \<Rightarrow> pstr \<Rightarrow> arg_kind \<times> pstr \<Rightarrow> eq_error + unit" where
  "check_arg lineno name p = (case p of (kind, arg) \<Rightarrow>
     if kind = KPath \<and> \<not> (re_match no_words NAME_RE arg \<noteq> None \<and> under name arg) then Inl (EqPath lineno arg name)
     else if kind = KText \<and> re_match no_words TEXT_RE arg = None then Inl (EqText lineno arg)
     else if kind = KCount \<and> re_fullmatch no_words COUNT_RE arg = None then Inl (EqCount lineno arg)
     else Inr ())"

definition add_row :: "nat \<Rightarrow> pstr list \<Rightarrow> row list \<Rightarrow> eq_error + row list" where
  "add_row lineno words rows =
     (if length words \<noteq> 4 \<or> words ! 2 \<notin> {u ''match'', u ''differ''}
         \<or> re_fullmatch no_words ISSUE_RE (words ! 3) = None \<or> re_match no_words TEXT_RE (words ! 1) = None
      then Inl (EqRow lineno)
      else if list_ex (\<lambda>r. r_name r = words ! 1) rows then Inl (EqTwice lineno (words ! 1))
      else Inr (rows @ [\<lparr>r_name = words ! 1, r_expect = words ! 2, r_issue = words ! 3, r_ops = []\<rparr>]))"

definition add_op :: "nat \<Rightarrow> pstr \<Rightarrow> pstr list \<Rightarrow> row list \<Rightarrow> eq_error + row list" where
  "add_op lineno op args rows =
     (if rows = [] then Inl (EqBeforeRow lineno)
      else case map_of OPS op of
        None \<Rightarrow> Inl (EqUnknownOp lineno op)
      | Some (kinds, _) \<Rightarrow>
          if length args \<noteq> length kinds then Inl (EqArity lineno op (length kinds))
          else
            bindR (mapM (check_arg lineno (r_name (last rows))) (zip kinds args)) (\<lambda>_.
            bindR (if op = u ''fill'' then raised (py_int (args ! 1)) else Inr 0) (\<lambda>kib.
            if op = u ''fill'' \<and> kib > FILL_MAX then Inl (EqFill lineno)
            else if op = u ''adopt'' \<and> adopted rows then Inl (EqAdopt lineno)
            else Inr (butlast rows @ [(last rows)\<lparr>r_ops := r_ops (last rows) @ [(lineno, op, args)]\<rparr>]))))"

definition parse_line :: "row list \<Rightarrow> nat \<times> pstr \<Rightarrow> eq_error + row list" where
  "parse_line rows l = (case l of (lineno, raw) \<Rightarrow>
     let line = strip_ws raw in
     if line = [] \<or> startswith line [35] then Inr rows
     else let words = split_ws line in
       if hd words = u ''row'' then add_row lineno words rows
       else add_op lineno (hd words) (tl words) rows)"

definition parse :: "pstr \<Rightarrow> eq_error + row list" where
  "parse text =
     bindR (foldM parse_line [] (zip [1..<Suc (length (splitlines text))] (splitlines text))) (\<lambda>rows.
     if rows = [] then Inl EqNoRows else Inr rows)"

subsection \<open>The shell script\<close>

definition prelude_lines :: "pstr list" where
  "prelude_lines =
     [u ''# Generated by scripts/ext2_eq.py gen-sh from kernel/tests/ext2_eq/ops.eq'',
      u ''# (GitHub issue #1034). Do not edit; edit ops.eq.'',
      u ''R=\"$1/'' @ ROOT @ u ''\"'',
      u ''B=\"${2-/bin/busybox}\"'',
      u ''S=\"${3-/bin/busybox}\"'',
      u ''F=\"$1\"'',
      u ''mkdir \"$R\"'',
      u ''t() { if [ -d \"$1\" ]; then echo \"  $2 dir\"; elif [ -f \"$1\" ]; ''
        @ u ''then $B stat -c \"  $2 file size=%s\" \"$1\"; else echo \"  $2 absent\"; fi; }'']"

definition op_label :: "nat \<Rightarrow> pstr \<Rightarrow> pstr list \<Rightarrow> pstr" where
  "op_label step op args = str_nat step @ [32] @ op @ [32] @ join [32] args"

definition in_root :: "pstr \<Rightarrow> pstr" where
  "in_root path = u ''\"$R/'' @ path @ u ''\"''"

definition peer_lines :: "pstr \<Rightarrow> pstr list \<Rightarrow> pstr list" where
  "peer_lines label args = (let p = in_root (args ! 0) in
     [u ''$B echo -n 0123456789 >'' @ p @ u ''; exec 3<>'' @ p,
      u ''echo -n \"  held [\"; $B dd bs=1 count=6 <&3 2>/dev/null; echo \"]\"'',
      u ''$B echo -n ab >'' @ p,
      u ''echo -n \"  past [\"; $B dd bs=1 count=4 <&3 2>/dev/null; echo \"]\"'',
      u ''$B echo -n Z >&3; s=$?; exec 3>&-; [ $s -eq 0 ]'',
      u ''echo \"'' @ label @ u '' -> $?\"'',
      u ''t '' @ p @ [32] @ args ! 0])"

definition files_lines :: "pstr \<Rightarrow> pstr list \<Rightarrow> pstr list" where
  "files_lines label args =
     [u ''i=0; ok=0; while [ $i -lt '' @ args ! 1 @ u '' ]; do ''
        @ u ''$B true >\"$R/'' @ args ! 0 @ u ''/'' @ LONG @ u ''$i\" 2>/dev/null && ok=$((ok+1)); ''
        @ u ''i=$((i+1)); done; [ $ok -eq '' @ args ! 1 @ u '' ]'',
      u ''echo \"'' @ label @ u '' -> $? created=$ok\"'',
      u ''t '' @ in_root (args ! 0) @ [32] @ args ! 0]"

definition command_lines :: "pstr \<Rightarrow> pstr \<Rightarrow> pstr list \<Rightarrow> arg_kind list \<Rightarrow> pstr list" where
  "command_lines label command args kinds =
     [command @ u '' 2>/dev/null'', u ''echo \"'' @ label @ u '' -> $?\"'']
     @ map (\<lambda>(arg, _). u ''t '' @ in_root arg @ [32] @ arg) (filter (\<lambda>(_, kind). kind = KPath) (zip args kinds))"

text \<open>\<open>None\<close>: an operation not in the table, or one of the templates that are \<open>None\<close>.\<close>

definition op_lines :: "nat \<Rightarrow> eq_op \<Rightarrow> pstr list option" where
  "op_lines step p = (case p of (_, op, args) \<Rightarrow>
     let label = op_label step op args in
     if op = u ''fill'' then Some (command_lines label
       (u ''$B dd if=\"$S\" of=\"$R/'' @ args ! 0 @ u ''\" bs=1024 count='' @ args ! 1) args [KPath, KCount])
     else if op = u ''peer'' then Some (peer_lines label args)
     else if op = u ''files'' then Some (files_lines label args)
     else case map_of OPS op of
            Some (kinds, Some template) \<Rightarrow> Some (command_lines label (template args) args kinds)
          | _ \<Rightarrow> None)"

fun all_lines :: "nat \<Rightarrow> eq_op list \<Rightarrow> pstr list option" where
  "all_lines step [] = Some []"
| "all_lines step (p # ps) = (case op_lines step p of None \<Rightarrow> None
     | Some ls \<Rightarrow> map_option ((@) ls) (all_lines (step + 1) ps))"

fun rows_lines :: "row list \<Rightarrow> pstr list option" where
  "rows_lines [] = Some []"
| "rows_lines (r # rs) = (case all_lines 1 (r_ops r) of None \<Rightarrow> None
     | Some ls \<Rightarrow> map_option ((@) ((u ''echo 'row '' @ r_name r @ [39]) # ls)) (rows_lines rs))"

definition gen_sh :: "row list \<Rightarrow> pstr option" where
  "gen_sh rows = map_option (\<lambda>ls. join [10] (prelude_lines @ ls @ [u ''echo 'eq done'' @ [39]]) @ [10]) (rows_lines rows)"

end
