(* ===== verification/Pass_Line.thy ===== *)
theory Pass_Line
  imports Text "HOL-Library.List_Lexorder" "HOL-Library.Product_Lexorder"
begin

section \<open>The PASS line\<close>

text \<open>
  \<open>scripts/pass_line.py\<close>, through which every check of the repository reports: the
  counter of a control's scenarios and \<open>report_pass\<close>, which prints \<open>PASS\<close> or exits 1
  with an error on the standard error stream.
\<close>

record case_count =
  ran :: int

definition new_count :: case_count where "new_count = \<lparr>ran = 0\<rparr>"

definition note_case :: "case_count \<Rightarrow> case_count" where "note_case c = c\<lparr>ran := ran c + 1\<rparr>"

text \<open>What a call leaves: a line on the given stream, or a line on the error stream and the exit status 1.\<close>

datatype pass_result = Pass pstr | Refused pstr

definition examined_nothing :: "pstr \<Rightarrow> pstr" where
  "examined_nothing check = u ''ERROR '' @ check @ u '': reported PASS without naming anything it examined. '' @
     u ''Pass the count that is zero when the check did no work; see scripts/pass_line.py.''"

definition detail_of :: "(pstr \<times> int) list \<Rightarrow> pstr" where
  "detail_of empty_counts = join (u '', '') (map (\<lambda>(name, count). name @ u ''='' @ str_int count) empty_counts)"

definition examined_empty :: "pstr \<Rightarrow> (pstr \<times> int) list \<Rightarrow> pstr" where
  "examined_empty check empty_counts = u ''ERROR '' @ check @ u '': would have reported PASS having examined nothing ('' @
     detail_of empty_counts @
     u ''). The property is not established -- the scan found no input. Fix what the check looks at, and if an '' @
     u ''empty set is genuinely the right answer, say so in the check rather than reporting a verdict about it.''"

definition empty_counts :: "(pstr \<times> int) list \<Rightarrow> (pstr \<times> int) list" where
  "empty_counts examined = sort (filter (\<lambda>(name, count). count \<le> 0) examined)"

definition report_pass :: "pstr \<Rightarrow> pstr \<Rightarrow> (pstr \<times> int) list \<Rightarrow> pass_result" where
  "report_pass check message examined =
     (if examined = [] then Refused (examined_nothing check)
      else if empty_counts examined \<noteq> [] then Refused (examined_empty check (empty_counts examined))
      else Pass (u ''PASS '' @ check @ u '': '' @ message))"

subsection \<open>No PASS about nothing\<close>

text \<open>
  (C30) \<open>report_pass\<close> prints PASS exactly when at least one count is named and every
  count is positive; otherwise it refuses, and with named counts the refusal lists
  exactly the counts that are not positive, in the order of their names.
\<close>

theorem pass_only_about_something:
  "report_pass check message examined =
     (if examined \<noteq> [] \<and> list_all (\<lambda>(_, count). 0 < count) examined
      then Pass (u ''PASS '' @ check @ u '': '' @ message)
      else Refused (if examined = [] then examined_nothing check else examined_empty check (empty_counts examined)))
   \<and> set (empty_counts examined) = {(n, c) \<in> set examined. c \<le> 0}
   \<and> sorted (map fst (empty_counts examined))"
proof -
  have "empty_counts examined \<noteq> [] \<longleftrightarrow> \<not> list_all (\<lambda>(_, count). 0 < count) examined"
    by (fastforce simp: empty_counts_def filter_empty_conv list_all_iff simp flip: set_empty)
  moreover have "sorted (map fst xs)" if "sorted xs" for xs :: "(pstr \<times> int) list"
    using that by (auto simp: sorted_map less_eq_prod_def elim!: sorted_wrt_mono_rel [rotated] dest: less_imp_le)
  ultimately show ?thesis
    by (auto simp: report_pass_def empty_counts_def)
qed

text \<open>A control that counts where it runs reports what it ran.\<close>

lemma ran_notes: "ran ((note_case ^^ n) new_count) = int n"
  by (induction n) (auto simp: note_case_def new_count_def)

text \<open>
  A control that noted \<open>n\<close> scenarios on a fresh counter and reports that count
  passes exactly when it ran at least one.
\<close>

lemma control_passes_iff_ran:
  "report_pass check message [(u ''cases'', ran ((note_case ^^ n) new_count))] =
     (if n = 0 then Refused (examined_empty check [(u ''cases'', 0)]) else Pass (u ''PASS '' @ check @ u '': '' @ message))"
  by (simp add: report_pass_def empty_counts_def ran_notes)

end
