(* ===== verification/Ext2_Compare.thy ===== *)
theory Ext2_Compare
  imports Ext2_Rows Pass_Line
begin

section \<open>The comparison of two ext2 images\<close>

text \<open>
  The second half of \<open>scripts/ext2_eq.py\<close>: what \<open>debugfs\<close> and \<open>dumpe2fs\<close> print about an
  image becomes a snapshot (\<open>walk\<close>, \<open>inode_facts\<close>, \<open>counts\<close>, \<open>snapshot\<close>), and two
  snapshots and two logs become the verdict of every row (\<open>compare\<close>).  The tools are
  parameters: the text each one prints for an image, and the bytes \<open>dump\<close> leaves in the
  files.  A directory tree walked without end, a loop in a corrupt image, is the
  value \<open>None\<close> of \<open>walk\<close>.  A difference is kept as the two values it shows; the text
  \<open>describe\<close> makes of them is not modelled.
\<close>

record 'i tools =
  t_debugfs :: "'i \<Rightarrow> pstr list \<Rightarrow> eq_error + pstr"
  t_dump :: "'i \<Rightarrow> pstr list \<Rightarrow> eq_error + byte list list"
  t_dumpe2fs :: "'i \<Rightarrow> eq_error + pstr"

text \<open>\<open>stat.S_ISDIR\<close>, \<open>S_ISREG\<close> and \<open>S_IMODE\<close> of a mode that is not negative.\<close>

definition s_ifmt :: "int \<Rightarrow> int" where "s_ifmt mode = (mode div 4096) mod 16"
definition s_isdir :: "int \<Rightarrow> bool" where "s_isdir mode \<longleftrightarrow> s_ifmt mode = 4"
definition s_isreg :: "int \<Rightarrow> bool" where "s_isreg mode \<longleftrightarrow> s_ifmt mode = 8"
definition s_imode :: "int \<Rightarrow> int" where "s_imode mode = mode mod 4096"

subsection \<open>The tree host Linux left\<close>

text \<open>
  A run of the script under host Linux, the parameter: from the script and the planted
  fixture, the exit status, the log and the tree left.  A script is generated for every
  parsed table; for other rows \<open>gen_sh\<close> raises on the missing template.
\<close>

definition run_host ::
  "(pstr \<Rightarrow> byte list option \<Rightarrow> int \<times> pstr \<times> 't) \<Rightarrow> row list \<Rightarrow> eq_error + pstr \<times> 't" where
  "run_host ash rows = (case gen_sh rows of None \<Rightarrow> Inl (EqRaised KeyError) | Some script \<Rightarrow>
     (case ash script (if adopted rows then Some write_fixture else None) of (status, out, tree) \<Rightarrow>
        if status \<noteq> 0 \<or> drop (length out - 8) out \<noteq> u ''eq done'' @ [10] then Inl EqHostRun else Inr (out, tree)))"

text \<open>
  What \<open>os.walk\<close> and \<open>os.lstat\<close> say of the host tree: a directory with its mode and its
  entries, a regular file with its inode, mode and link count, a symbolic link to a
  directory, which \<open>os.walk\<close> lists and does not enter, or any other file.
\<close>

datatype hnode =
    HDir int "(pstr \<times> hnode) list"
  | HFile int int int
  | HDirLink
  | HOther

datatype dcmd =
    Mkdir pstr
  | SetDirMode pstr int
  | SetFileMode pstr int
  | WriteFile pstr pstr
  | LinkFile pstr pstr
  | SetLinks pstr int

record replayed =
  rp_commands :: "dcmd list"
  rp_seen :: "int \<rightharpoonup> pstr"
  rp_links :: "(pstr \<times> int) list"

fun is_dirname :: "hnode \<Rightarrow> bool" where
  "is_dirname (HDir _ _) \<longleftrightarrow> True"
| "is_dirname HDirLink \<longleftrightarrow> True"
| "is_dirname _ \<longleftrightarrow> False"

definition replay_file :: "pstr \<Rightarrow> pstr \<Rightarrow> replayed \<Rightarrow> pstr \<times> hnode \<Rightarrow> eq_error + replayed" where
  "replay_file dirpath rel st e = (case e of (filename, node) \<Rightarrow>
     let path = dirpath @ [47] @ filename; target = [47] @ rel @ [47] @ filename in
     case node of
       HFile ino mode nlink \<Rightarrow>
         (case rp_seen st ino of
            Some first \<Rightarrow> Inr (st\<lparr>rp_commands := rp_commands st @ [LinkFile first target],
              rp_links := AList.update first nlink (rp_links st)\<rparr>)
          | None \<Rightarrow> Inr (st\<lparr>rp_commands := rp_commands st @ [WriteFile path target, SetFileMode target (s_imode mode)],
              rp_seen := (rp_seen st)(ino \<mapsto> target)\<rparr>))
     | _ \<Rightarrow> Inl (EqNotRegular path))"

text \<open>\<open>dirnames.sort()\<close> and \<open>sorted(filenames)\<close>, at every level.\<close>

primrec sorted_tree :: "hnode \<Rightarrow> hnode" where
  "sorted_tree (HDir mode es) = HDir mode (sort_key fst (map (map_prod id sorted_tree) es))"
| "sorted_tree (HFile ino mode nlink) = HFile ino mode nlink"
| "sorted_tree HDirLink = HDirLink"
| "sorted_tree HOther = HOther"

text \<open>One step of \<open>os.walk\<close>, the files of a directory before its directories, over a sorted tree.\<close>

fun replay_dir :: "pstr \<Rightarrow> pstr \<Rightarrow> hnode \<Rightarrow> replayed \<Rightarrow> eq_error + replayed"
  and replay_dirs :: "pstr \<Rightarrow> pstr \<Rightarrow> (pstr \<times> hnode) list \<Rightarrow> replayed \<Rightarrow> eq_error + replayed" where
  "replay_dir dirpath rel (HDir mode es) st =
     bindR (foldM (replay_file dirpath rel)
        (st\<lparr>rp_commands := rp_commands st @ [Mkdir ([47] @ rel), SetDirMode ([47] @ rel) (s_imode mode)]\<rparr>)
        (filter (\<lambda>(_, n). \<not> is_dirname n) es))
       (replay_dirs dirpath rel es)"
| "replay_dir dirpath rel (HFile _ _ _) st = Inr st"
| "replay_dir dirpath rel HDirLink st = Inr st"
| "replay_dir dirpath rel HOther st = Inr st"
| "replay_dirs dirpath rel [] st = Inr st"
| "replay_dirs dirpath rel ((name, node) # es) st =
     bindR (replay_dir (dirpath @ [47] @ name) (rel @ [47] @ name) node st) (replay_dirs dirpath rel es)"

definition no_commands :: replayed where
  "no_commands = \<lparr>rp_commands = [], rp_seen = Map.empty, rp_links = []\<rparr>"

definition replay_commands :: "pstr \<Rightarrow> hnode option \<Rightarrow> eq_error + dcmd list" where
  "replay_commands host_tree base =
     bindR (case base of None \<Rightarrow> Inr no_commands
            | Some node \<Rightarrow> replay_dir (host_tree @ [47] @ ROOT) ROOT (sorted_tree node) no_commands) (\<lambda>st.
     Inr (rp_commands st @ map (\<lambda>(target, count). SetLinks target count) (rp_links st)))"

text \<open>The text of a command; \<open>{mode:03o}\<close> of a mode that is not negative.\<close>

function oct_nat :: "nat \<Rightarrow> pstr" where
  "oct_nat n = (if n < 8 then [48 + n] else oct_nat (n div 8) @ [48 + n mod 8])"
  by auto
termination by (relation "measure id") auto

declare oct_nat.simps [simp del]

definition oct3 :: "int \<Rightarrow> pstr" where
  "oct3 mode = (let s = oct_nat (nat mode) in replicate (3 - length s) 48 @ s)"

primrec command_text :: "dcmd \<Rightarrow> pstr" where
  "command_text (Mkdir path) = u ''mkdir '' @ path"
| "command_text (SetDirMode path mode) = u ''set_inode_field '' @ path @ u '' mode 040'' @ oct3 mode"
| "command_text (SetFileMode path mode) = u ''set_inode_field '' @ path @ u '' mode 0100'' @ oct3 mode"
| "command_text (WriteFile path target) = u ''write '' @ path @ [32] @ target"
| "command_text (LinkFile first target) = u ''link '' @ first @ [32] @ target"
| "command_text (SetLinks path count) = u ''set_inode_field '' @ path @ u '' links_count '' @ str_int count"

definition replay_complaints :: "pstr \<Rightarrow> pstr list" where
  "replay_complaints err = filter (\<lambda>line. strip_ws line \<noteq> [] \<and> \<not> startswith line (u ''debugfs '')) (splitlines err)"

definition replay :: "('i \<Rightarrow> pstr list \<Rightarrow> eq_error + 'i \<times> pstr) \<Rightarrow> pstr \<Rightarrow> hnode option \<Rightarrow> 'i \<Rightarrow> eq_error + 'i" where
  "replay debugfs_w host_tree base pristine =
     bindR (replay_commands host_tree base) (\<lambda>cs.
     bindR (debugfs_w pristine (map command_text cs)) (\<lambda>(img, err).
     if replay_complaints err \<noteq> [] then Inl (EqReplay (replay_complaints err)) else Inr img))"

subsection \<open>Directories\<close>

text \<open>\<open>int(s, 8)\<close> of digits.\<close>

definition py_oct :: "pstr \<Rightarrow> py_error + int" where
  "py_oct s = int_result 1 (int_digits 8 False 0 s)"

definition int_or_zero :: "pstr \<Rightarrow> py_error + int" where
  "int_or_zero s = (if s = [] then Inr 0 else py_int s)"

definition slash :: regex where "slash = Chr (Of [One 47])"

definition LS_RE :: regex where
  "LS_RE = seqs [Start, slash, Group 1 digits, slash, Group 2 digits, slash, digits, slash, digits, slash,
     Group 3 (Star (Chr Any)), slash, Group 4 (Star (Chr (Of [CDigit]))), slash, EndLF]"

definition LS_SECTION :: regex where
  "LS_SECTION = seqs [LineStart, Lit (u ''debugfs: ls -p ''), Star (Chr Any), LineEnd]"

type_synonym entries = "(pstr \<times> int \<times> int \<times> int) list"
type_synonym dirs = "(pstr \<times> entries) list"

definition ls_entry :: "entries \<Rightarrow> pstr \<Rightarrow> eq_error + entries" where
  "ls_entry es entry = (case re_match no_words LS_RE (strip_ws entry) of
     None \<Rightarrow> Inr es
   | Some m \<Rightarrow>
       let name = group_text m 3 in
       if name \<in> {u ''.'', u ''..''} then Inr es
       else
         bindR (raised (py_int (group_text m 1))) (\<lambda>inode.
         if inode = 0 then Inr es
         else
           bindR (raised (py_oct (group_text m 2))) (\<lambda>mode.
           bindR (raised (int_or_zero (group_text m 4))) (\<lambda>size.
           Inr (AList.update name (inode, mode, size) es)))))"

definition listing :: "'i tools \<Rightarrow> 'i \<Rightarrow> pstr list \<Rightarrow> eq_error + dirs" where
  "listing t img directories =
     bindR (t_debugfs t img (map (\<lambda>d. u ''ls -p \"'' @ d @ u ''\"'') directories)) (\<lambda>out.
     let sections = tl (re_split no_words LS_SECTION out) in
     foldM (\<lambda>result (directory, section).
         bindR (foldM ls_entry [] (splitlines section)) (\<lambda>es. Inr (AList.update directory es result)))
       [] (zip directories sections))"

definition subdirectories :: "dirs \<Rightarrow> pstr list" where
  "subdirectories found = concat (map (\<lambda>(directory, es).
     map (\<lambda>(name, _). rstrip [47] directory @ [47] @ name) (filter (\<lambda>(_, _, mode, _). s_isdir mode) es)) found)"

definition update_all :: "('k \<times> 'v) list \<Rightarrow> ('k \<times> 'v) list \<Rightarrow> ('k \<times> 'v) list" where
  "update_all old new = foldl (\<lambda>d (k, v). AList.update k v d) old new"

partial_function (option) walk_loop :: "'i tools \<Rightarrow> 'i \<Rightarrow> dirs \<Rightarrow> pstr list \<Rightarrow> (eq_error + dirs) option" where
  "walk_loop t img tree pending =
     (if pending = [] then Some (Inr tree)
      else case listing t img pending of
        Inl e \<Rightarrow> Some (Inl e)
      | Inr found \<Rightarrow> walk_loop t img (update_all tree found) (subdirectories found))"

definition walk :: "'i tools \<Rightarrow> 'i \<Rightarrow> pstr \<Rightarrow> (eq_error + dirs) option" where
  "walk t img top_dir = walk_loop t img [] [top_dir]"

subsection \<open>Inodes and counts\<close>

definition STAT_SECTION :: regex where
  "STAT_SECTION = Seq LineStart (Lit (u ''debugfs: stat ''))"

definition INODE_RE :: regex where
  "INODE_RE = seqs [LineStart, Lit (u ''Inode: ''), Group 1 digits]"

definition LINKS_RE :: regex where
  "LINKS_RE = Seq (Lit (u ''Links: '')) (Group 1 digits)"

definition BLOCKCOUNT_RE :: regex where
  "BLOCKCOUNT_RE = Seq (Lit (u ''Blockcount: '')) (Group 1 digits)"

type_synonym inodes = "(int \<times> int \<times> int) list"

definition stat_section :: "inodes \<Rightarrow> pstr \<Rightarrow> eq_error + inodes" where
  "stat_section facts section =
     (case (re_search no_words INODE_RE section, re_search no_words LINKS_RE section,
            re_search no_words BLOCKCOUNT_RE section) of
        (Some number, Some links, Some blocks) \<Rightarrow>
          bindR (raised (py_int (group_text number 1))) (\<lambda>n.
          bindR (raised (py_int (group_text links 1))) (\<lambda>l.
          bindR (raised (py_int (group_text blocks 1))) (\<lambda>b.
          Inr (AList.update n (l, b) facts))))
      | _ \<Rightarrow> Inr facts)"

definition inode_facts :: "'i tools \<Rightarrow> 'i \<Rightarrow> int list \<Rightarrow> eq_error + inodes" where
  "inode_facts t img given =
     (let inodes = sort (remdups given) in
      bindR (t_debugfs t img (map (\<lambda>i. u ''stat <'' @ str_int i @ u ''>'') inodes)) (\<lambda>out.
      bindR (foldM stat_section [] (tl (re_split no_words STAT_SECTION out))) (\<lambda>facts.
      let missing = filter (\<lambda>i. map_of facts i = None) inodes in
      if missing \<noteq> [] then Inl (EqNoStat missing) else Inr facts)))"

definition blanks_re :: regex where "blanks_re = Plus (Chr (Of [CSpace]))"

definition search_int :: "regex \<Rightarrow> pstr \<Rightarrow> eq_error + int" where
  "search_int r text = (case re_search no_words r text of
     None \<Rightarrow> Inl (EqRaised AttributeError)
   | Some m \<Rightarrow> raised (py_int (group_text m 1)))"

definition sum_all :: "regex \<Rightarrow> pstr \<Rightarrow> eq_error + int" where
  "sum_all r text = bindR (raised (mapM (\<lambda>m. py_int (group_text m 1)) (re_findall no_words r text))) (\<lambda>ns.
     Inr (sum_list ns))"

definition range_size :: "int \<Rightarrow> pstr \<Rightarrow> eq_error + int" where
  "range_size total_so_far part = (case partition_at 45 part of (low, high) \<Rightarrow>
     bindR (raised (py_int (if high = [] then low else high))) (\<lambda>h.
     bindR (raised (py_int low)) (\<lambda>l.
     Inr (total_so_far + (h - l + 1)))))"

definition ranges :: "pstr \<Rightarrow> pstr \<Rightarrow> eq_error + int" where
  "ranges label text =
     foldM (\<lambda>n m. foldM range_size n (filter (\<lambda>p. p \<noteq> []) (map strip_ws (split_on 44 (group_text m 1)))))
       0 (re_findall no_words (seqs [LineStart, blanks_re, Lit (label @ u '': ''), Group 1 (Star (Chr Any)), LineEnd]) text)"

record counts_t =
  sb_blocks :: int
  sb_inodes :: int
  gd_blocks :: int
  gd_inodes :: int
  bitmap_blocks :: int
  bitmap_inodes :: int

definition counts :: "'i tools \<Rightarrow> 'i \<Rightarrow> eq_error + counts_t" where
  "counts t img =
     bindR (t_dumpe2fs t img) (\<lambda>text.
     bindR (search_int (seqs [LineStart, Lit (u ''Free blocks:''), blanks_re, Group 1 digits, LineEnd]) text) (\<lambda>sb.
     bindR (search_int (seqs [LineStart, Lit (u ''Free inodes:''), blanks_re, Group 1 digits, LineEnd]) text) (\<lambda>si.
     bindR (sum_all (seqs [LineStart, blanks_re, Group 1 digits, Lit (u '' free blocks, '')]) text) (\<lambda>gb.
     bindR (sum_all (seqs [Lit (u '' free blocks, ''), Group 1 digits, Lit (u '' free inodes'')]) text) (\<lambda>gi.
     bindR (ranges (u ''Free blocks'') text) (\<lambda>bb.
     bindR (ranges (u ''Free inodes'') text) (\<lambda>bi.
     Inr \<lparr>sb_blocks = sb, sb_inodes = si, gd_blocks = gb, gd_inodes = gi, bitmap_blocks = bb, bitmap_inodes = bi\<rparr>)))))))"

definition counters_agree :: "counts_t \<Rightarrow> bool" where
  "counters_agree c \<longleftrightarrow> sb_blocks c = gd_blocks c \<and> gd_blocks c = bitmap_blocks c
     \<and> sb_inodes c = gd_inodes c \<and> gd_inodes c = bitmap_inodes c"

subsection \<open>Snapshots\<close>

datatype file_kind = KDir | KReg | KMode int

record fact =
  f_kind :: file_kind
  f_mode :: "int option"
  f_size :: "int option"
  f_links :: "int option"
  f_blocks :: "int option"
  f_names :: "pstr list option"
  f_data :: "byte list option"

type_synonym files = "(pstr \<times> fact) list"

definition lookup_key :: "('k \<rightharpoonup> 'v) \<Rightarrow> 'k \<Rightarrow> eq_error + 'v" where
  "lookup_key m k = (case m k of None \<Rightarrow> Inl (EqRaised KeyError) | Some v \<Rightarrow> Inr v)"

text \<open>The first loop: a directory with its names, then each entry of it that is no directory.\<close>

definition entry_fact ::
  "inodes \<Rightarrow> pstr \<Rightarrow> files \<times> pstr list \<Rightarrow> pstr \<times> int \<times> int \<times> int \<Rightarrow> eq_error + files \<times> pstr list" where
  "entry_fact facts directory st e = (case (st, e) of ((files, regular), (name, inode, mode, len)) \<Rightarrow>
     bindR (lookup_key (map_of facts) inode) (\<lambda>(links, blocks).
     if s_isdir mode then Inr (files, regular)
     else
       let path = directory @ [47] @ name in
       Inr (AList.update path
              \<lparr>f_kind = (if s_isreg mode then KReg else KMode mode), f_mode = Some (s_imode mode), f_size = Some len,
               f_links = Some links, f_blocks = Some blocks, f_names = None, f_data = None\<rparr> files,
            if s_isreg mode then regular @ [path] else regular)))"

definition dir_facts ::
  "inodes \<Rightarrow> files \<times> pstr list \<Rightarrow> pstr \<times> entries \<Rightarrow> eq_error + files \<times> pstr list" where
  "dir_facts facts st d = (case (st, d) of ((files, regular), (directory, es)) \<Rightarrow>
     foldM (entry_fact facts directory)
       (AList.update directory \<lparr>f_kind = KDir, f_mode = None, f_size = None, f_links = None, f_blocks = None,
          f_names = Some (sort (map fst es)), f_data = None\<rparr> files, regular) es)"

text \<open>The second: the mode and the link count of every directory below the root.\<close>

definition rsplit_slash :: "pstr \<Rightarrow> pstr \<times> pstr" where
  "rsplit_slash path = (let name = rev (takeWhile (\<lambda>c. c \<noteq> 47) (rev path)) in
     (take (length path - length name - 1) path, name))"

definition dir_mode :: "dirs \<Rightarrow> inodes \<Rightarrow> files \<Rightarrow> pstr \<Rightarrow> eq_error + files" where
  "dir_mode full facts files directory =
     (if directory = [47] @ ROOT then Inr files
      else case rsplit_slash directory of (parent, name) \<Rightarrow>
        bindR (lookup_key (map_of full) parent) (\<lambda>es.
        bindR (lookup_key (map_of es) name) (\<lambda>(inode, mode, _).
        bindR (lookup_key (map_of facts) inode) (\<lambda>(links, _).
        bindR (lookup_key (map_of files) directory) (\<lambda>kind.
        Inr (AList.update directory
              \<lparr>f_kind = f_kind kind, f_mode = Some (s_imode mode), f_size = None, f_links = Some links, f_blocks = None,
               f_names = f_names kind, f_data = None\<rparr> files))))))"

definition tree_inodes :: "dirs \<Rightarrow> int list" where
  "tree_inodes full = 2 # concat (map (\<lambda>(_, es). map (\<lambda>(_, inode, _, _). inode) es) full)"

definition snapshot :: "'i tools \<Rightarrow> 'i \<Rightarrow> (eq_error + files \<times> counts_t \<times> int \<times> int) option" where
  "snapshot t img = (case walk t img [47] of None \<Rightarrow> None | Some w \<Rightarrow> Some (
     bindR w (\<lambda>full.
     let eq = filter (\<lambda>(d, _). under ([47] @ ROOT) d) full; inodes = remdups (tree_inodes full) in
     bindR (inode_facts t img inodes) (\<lambda>facts.
     bindR (foldM (dir_facts facts) ([], []) eq) (\<lambda>(files, regular).
     bindR (foldM (dir_mode full facts) files (map fst eq)) (\<lambda>files.
     bindR (t_dump t img regular) (\<lambda>data.
     let files = map (\<lambda>(p, f). (p, f\<lparr>f_data := map_of (zip regular data) p\<rparr>)) files;
         reachable = sum_list (map (\<lambda>(_, _, blocks). (blocks + 1) div 2) facts) in
     bindR (counts t img) (\<lambda>c.
     Inr (files, c, reachable, int (length facts))))))))))"

subsection \<open>Verdicts\<close>

type_synonym log = "pstr \<rightharpoonup> pstr list"

definition split_line :: "log \<times> pstr option \<Rightarrow> pstr \<Rightarrow> log \<times> pstr option" where
  "split_line st text_line = (case st of (rows, current) \<Rightarrow>
     if startswith text_line (u ''row '') then (rows(drop 4 text_line \<mapsto> []), Some (drop 4 text_line))
     else if text_line = u ''eq done'' then (rows, None)
     else case current of None \<Rightarrow> (rows, None)
       | Some c \<Rightarrow> (rows(c \<mapsto> (case rows c of None \<Rightarrow> [] | Some ls \<Rightarrow> ls) @ [text_line]), Some c))"

definition split_log :: "pstr \<Rightarrow> log" where
  "split_log text = fst (foldl split_line (Map.empty, None) (splitlines text))"

datatype diff =
    LogDiff "pstr list option" "pstr list option"
  | FileDiff pstr "fact option" "fact option"
  | CounterDiff counts_t
  | SumDiff "int \<times> int" "int \<times> int"

definition row_differences :: "pstr \<Rightarrow> files \<Rightarrow> files \<Rightarrow> log \<Rightarrow> log \<Rightarrow> diff list" where
  "row_differences name kernel_files host_files kernel_log host_log =
     (let prefix = [47] @ ROOT @ [47] @ name;
          paths = sort (filter (under prefix) (remdups (map fst kernel_files @ map fst host_files))) in
      (if kernel_log name \<noteq> host_log name then [LogDiff (kernel_log name) (host_log name)] else [])
      @ map (\<lambda>p. FileDiff p (map_of kernel_files p) (map_of host_files p))
          (filter (\<lambda>p. map_of kernel_files p \<noteq> map_of host_files p) paths))"

type_synonym table_row = "pstr \<times> pstr \<times> pstr \<times> pstr \<times> diff list"

definition outcome_of :: "diff list \<Rightarrow> pstr" where
  "outcome_of diffs = (if diffs \<noteq> [] then u ''differ'' else u ''match'')"

definition judge_row ::
  "files \<Rightarrow> files \<Rightarrow> log \<Rightarrow> log \<Rightarrow> pstr list \<times> table_row list \<Rightarrow> row \<Rightarrow> pstr list \<times> table_row list" where
  "judge_row kf hf kl hl st r = (case st of (failures, table) \<Rightarrow>
     let diffs = row_differences (r_name r) kf hf kl hl; outcome = outcome_of diffs in
     (if outcome \<noteq> r_expect r then failures @ [r_name r] else failures,
      table @ [(r_name r, r_issue r, r_expect r, outcome, diffs)]))"

definition judge_counters :: "pstr list \<times> table_row list \<Rightarrow> pstr \<times> counts_t \<Rightarrow> pstr list \<times> table_row list" where
  "judge_counters st p = (case (st, p) of ((failures, table), (name, c)) \<Rightarrow>
     if \<not> counters_agree c then
       let label = u ''counters('' @ name @ u '')'' in
       (failures @ [label], table @ [(label, u ''-'', u ''match'', u ''differ'', [CounterDiff c])])
     else (failures, table))"

text \<open>The failures and the table of \<open>compare\<close>, once both sides are read.\<close>

definition judge ::
  "row list \<Rightarrow> files \<times> counts_t \<times> int \<times> int \<Rightarrow> files \<times> counts_t \<times> int \<times> int \<Rightarrow> log \<Rightarrow> log
     \<Rightarrow> pstr list \<times> table_row list" where
  "judge rows kside hside kl hl = (case (kside, hside) of ((kf, kc, kreach, kinodes), (hf, hc, hreach, hinodes)) \<Rightarrow>
     let st = foldl (judge_row kf hf kl hl) ([], []) rows;
         (failures, table) = foldl judge_counters st [(u ''kernel'', kc), (u ''host'', hc)];
         table = table @ [(u ''counters'', u ''-'', u ''match'',
           if \<not> list_ex (\<lambda>f. startswith f (u ''counters'')) failures then u ''match'' else u ''differ'', [])];
         ksum = (bitmap_blocks kc + kreach, bitmap_inodes kc + kinodes);
         hsum = (bitmap_blocks hc + hreach, bitmap_inodes hc + hinodes) in
     if ksum \<noteq> hsum then
       (failures @ [u ''conservation''],
        table @ [(u ''conservation'', u ''-'', u ''match'', u ''differ'', [SumDiff ksum hsum])])
     else (failures, table @ [(u ''conservation'', u ''-'', u ''match'', u ''match'', [])]))"

text \<open>The printed table: a line per row and at most six of its differences.\<close>

definition ljust :: "nat \<Rightarrow> pstr \<Rightarrow> pstr" where
  "ljust n s = s @ replicate (n - length s) 32"

definition table_line :: "table_row \<Rightarrow> pstr \<times> diff list" where
  "table_line r = (case r of (name, issue, expect, outcome, diffs) \<Rightarrow>
     (u ''ext2-eq row '' @ ljust 18 name @ [32] @ ljust 6 issue @ u '' expect='' @ ljust 6 expect @ u '' got='' @
        ljust 6 outcome @ [32] @ (if expect = outcome then u ''ok'' else u ''UNEXPECTED''),
      take 6 diffs))"

type_synonym printed = "(pstr \<times> diff list) list"

definition finish :: "row list \<Rightarrow> files \<Rightarrow> pstr list \<times> table_row list \<Rightarrow> printed \<times> (eq_error + pass_result)" where
  "finish rows kernel_files verdicts = (case verdicts of (failures, table) \<Rightarrow>
     (map table_line table,
      if failures \<noteq> [] then Inl (EqOutcome failures)
      else Inr (report_pass (u ''ext2-eq'')
        (str_nat (length rows) @ u '' rows and 2 whole-image rows as recorded, '' @ str_nat (length kernel_files)
           @ u '' kernel paths compared'')
        [(u ''rows'', int (length rows)), (u ''paths'', int (length kernel_files))])))"

text \<open>An error raised before anything is printed.\<close>

definition unprinted :: "eq_error + printed \<times> (eq_error + pass_result) \<Rightarrow> printed \<times> (eq_error + pass_result)" where
  "unprinted r = (case r of Inl e \<Rightarrow> ([], Inl e) | Inr p \<Rightarrow> p)"

definition compare ::
  "'i tools \<Rightarrow> row list \<Rightarrow> pstr \<Rightarrow> 'i \<Rightarrow> 'i \<Rightarrow> (printed \<times> (eq_error + pass_result)) option" where
  "compare t rows expected_log kernel_image host_image =
     (case snapshot t kernel_image of None \<Rightarrow> None | Some (Inl e) \<Rightarrow> Some ([], Inl e) | Some (Inr kside) \<Rightarrow>
     (case snapshot t host_image of None \<Rightarrow> None | Some (Inl e) \<Rightarrow> Some ([], Inl e) | Some (Inr hside) \<Rightarrow>
       Some (unprinted (
         bindR (t_debugfs t kernel_image [u ''cat /eq-log'']) (\<lambda>log_text.
         if u ''eq done'' \<notin> set (splitlines log_text) then Inl (EqUnfinished log_text)
         else Inr (finish rows (fst kside) (judge rows kside hside (split_log log_text) (split_log expected_log))))))))"

end
