(* ===== verification/Ext2_Oracle.thy ===== *)
theory Ext2_Oracle
  imports Ext2_Compare
begin

section \<open>The ext2 driver as a host process, against host Linux\<close>

text \<open>
  The first half of \<open>scripts/ext2_host.py\<close>: the result lines of the program
  (\<open>run_program\<close>), the operations replayed with host Linux's system calls (\<open>linux_apply\<close>)
  and the comparison of the two sides (\<open>compare_run\<close>).  The program, host Linux's system
  calls on the scratch tree, \<open>mke2fs\<close>, \<open>e2fsck\<close> and \<open>debugfs\<close> are parameters.  A system
  call that fails leaves the tree as it was.
\<close>

text \<open>The problems of a run, each with the values its text shows.\<close>

datatype problem =
    PFenced pstr                     \<comment> \<open>\<open>fenced, and ext2_recover answered\<close>\<close>
  | PStatus int pstr                 \<comment> \<open>the program's status and the tail of its output\<close>
  | PProgram int nat pstr            \<comment> \<open>the program's status, the number of results and the tail\<close>
  | PResults nat nat                 \<comment> \<open>results for so many operations\<close>
  | POp nat pstr pstr pstr           \<comment> \<open>operation, its line, the kernel's errno and Linux's\<close>
  | PFsck pstr
  | PDiff diff
  | PRow pstr pstr pstr              \<comment> \<open>a row, its outcome and the recorded one\<close>
  | PCounters counts_t
  | PAnswer pstr pstr "(int \<times> int) option"
  | PHostile nat problem             \<comment> \<open>a corrupted image and what went wrong\<close>
  | PWalk pstr                       \<comment> \<open>the walk did not finish\<close>
  | PFault nat nat pstr pstr "problem list" \<comment> \<open>seed, operation, its line, the armed fault, three problems at most\<close>

datatype host_error =
    HostFail pstr                    \<comment> \<open>\<open>HostError\<close>\<close>
  | HostProblems pstr "problem list" \<comment> \<open>\<open>HostError\<close> with the problems of a run\<close>
  | HostEq eq_error                  \<comment> \<open>\<open>ext2_eq.EqError\<close>\<close>
  | HostRaised py_error

definition from_eq :: "eq_error + 'a \<Rightarrow> host_error + 'a" where
  "from_eq r = (case r of Inr x \<Rightarrow> Inr x | Inl (EqRaised e) \<Rightarrow> Inl (HostRaised e) | Inl e \<Rightarrow> Inl (HostEq e))"

definition from_py :: "py_error + 'a \<Rightarrow> host_error + 'a" where
  "from_py r = (case r of Inr x \<Rightarrow> Inr x | Inl e \<Rightarrow> Inl (HostRaised e))"

lemma from_simps [simp]:
  "from_eq (Inr x) = Inr x" "from_py (Inr x) = Inr x" "from_py (Inl e) = Inl (HostRaised e)"
  by (simp_all add: from_eq_def from_py_def)

subsection \<open>The program\<close>

definition WRITE_CHUNK :: int where "WRITE_CHUNK = 1024"
definition MAX_FILE :: int where "MAX_FILE = (12 + 256) * 1024"
definition ENOSPC_SLACK :: int where "ENOSPC_SLACK = 4"
definition STOP_STATUS :: int where "STOP_STATUS = 86"

definition pattern_byte :: "int \<Rightarrow> int \<Rightarrow> byte" where
  "pattern_byte offset seed = word_of_int (offset * 31 + offset div 256 + seed * 101 + 7)"

definition pattern :: "int \<Rightarrow> int \<Rightarrow> int \<Rightarrow> byte list" where
  "pattern offset len seed = map (\<lambda>i. pattern_byte (offset + int i) seed) [0..<nat len]"

definition RESULT_RE :: regex where
  "RESULT_RE = seqs [Start, Group 1 digits, Lit (u '' ''), Group 2 (Star (Chr Any)), Lit (u '' -> ''),
     Group 3 (Plus (Chr (NotOf [CSpace]))), Opt (Seq (Lit (u '' written='')) (Group 4 digits)), Lit (u '' free=''),
     Alt (seqs [Group 5 digits, Lit (u ''/''), Group 6 digits]) (Lit (u ''invalid'')), EndLF]"

definition MOUNT_RE :: regex where
  "MOUNT_RE = seqs [Start, Lit (u ''mounted free=''), Group 1 digits, Lit (u ''/''), Group 2 digits, EndLF]"

record run_result =
  res_line :: int
  res_op :: pstr
  res_errno :: pstr
  res_written :: "int option"
  res_free :: "(int \<times> int) option"

definition opt_int :: "pstr \<Rightarrow> py_error + int option" where
  "opt_int s = (if s = [] then Inr None else bindR (py_int s) (\<lambda>n. Inr (Some n)))"

definition result_of :: "rmatch \<Rightarrow> py_error + run_result" where
  "result_of m =
     bindR (py_int (group_text m 1)) (\<lambda>n.
     bindR (opt_int (group_text m 4)) (\<lambda>written.
     bindR (if group_text m 5 = [] then Inr None
            else bindR (py_int (group_text m 5)) (\<lambda>b. bindR (py_int (group_text m 6)) (\<lambda>i. Inr (Some (b, i))))) (\<lambda>free.
     Inr \<lparr>res_line = n, res_op = group_text m 2, res_errno = group_text m 3, res_written = written, res_free = free\<rparr>)))"

definition read_line ::
  "(int \<times> int) option \<times> run_result list \<Rightarrow> pstr \<Rightarrow> py_error + (int \<times> int) option \<times> run_result list" where
  "read_line st l = (case st of (mount_free, results) \<Rightarrow>
     (case re_match no_words RESULT_RE l of
        Some m \<Rightarrow> bindR (result_of m) (\<lambda>r. Inr (mount_free, results @ [r]))
      | None \<Rightarrow> (case re_match no_words MOUNT_RE l of
            Some m \<Rightarrow> bindR (py_int (group_text m 1)) (\<lambda>b. bindR (py_int (group_text m 2)) (\<lambda>i. Inr (Some (b, i), results)))
          | None \<Rightarrow> Inr (mount_free, results))))"

text \<open>The first operation makes the root; its result is taken off and the others are renumbered.\<close>

definition drop_mkdir ::
  "(int \<times> int) option \<times> run_result list \<Rightarrow> (int \<times> int) option \<times> run_result list" where
  "drop_mkdir st = (case st of (mount_free, results) \<Rightarrow>
     (case results of
        r # rs \<Rightarrow> if res_op r = u ''mkdir '' @ ROOT \<and> res_errno r = u ''0''
                  then (res_free r, map (\<lambda>r. r\<lparr>res_line := res_line r - 1\<rparr>) rs) else (mount_free, [])
      | [] \<Rightarrow> (mount_free, [])))"

definition script_of :: "pstr list \<Rightarrow> pstr" where
  "script_of ls = u ''mkdir '' @ ROOT @ [10] @ concat (map (\<lambda>l. l @ [10]) ls) @ u ''sync'' @ [10]"

record 'i ran_program =
  pr_status :: int
  pr_free :: "(int \<times> int) option"
  pr_results :: "run_result list"
  pr_out :: pstr
  pr_image :: 'i

definition run_program ::
  "('i \<Rightarrow> pstr \<Rightarrow> host_error + int \<times> pstr \<times> pstr \<times> 'i) \<Rightarrow> 'i \<Rightarrow> pstr list \<Rightarrow> host_error + 'i ran_program" where
  "run_program exe img ls =
     bindR (exe img (script_of ls)) (\<lambda>(status, out, err, img').
     bindR (from_py (foldM read_line (None, []) (splitlines out))) (\<lambda>st.
     case drop_mkdir st of (mount_free, results) \<Rightarrow>
       Inr \<lparr>pr_status = status, pr_free = mount_free, pr_results = results, pr_out = out @ err, pr_image = img'\<rparr>))"

subsection \<open>Host Linux\<close>

text \<open>
  The system calls on the scratch tree: the errno's name or the new tree.  \<open>l_open\<close> opens
  for writing with \<open>O_CREAT\<close>, and with \<open>O_TRUNC\<close> when its flag is set.
\<close>

record 'f linux =
  l_mkdir :: "pstr \<Rightarrow> 'f \<Rightarrow> pstr + 'f"
  l_rmdir :: "pstr \<Rightarrow> 'f \<Rightarrow> pstr + 'f"
  l_unlink :: "pstr \<Rightarrow> 'f \<Rightarrow> pstr + 'f"
  l_rename :: "pstr \<Rightarrow> pstr \<Rightarrow> 'f \<Rightarrow> pstr + 'f"
  l_open :: "bool \<Rightarrow> pstr \<Rightarrow> 'f \<Rightarrow> pstr + 'f"
  l_pwrite :: "pstr \<Rightarrow> byte list \<Rightarrow> int \<Rightarrow> 'f \<Rightarrow> pstr + 'f"
  l_read :: "pstr \<Rightarrow> 'f \<Rightarrow> pstr + byte list"
  l_size :: "pstr \<Rightarrow> 'f \<Rightarrow> int option"
  l_lexists :: "pstr \<Rightarrow> 'f \<Rightarrow> bool"

definition file_blocks :: "int \<Rightarrow> int" where
  "file_blocks sz = (let count = (sz + 1023) div 1024 in count + (if count > 12 then 1 else 0))"

definition size_of :: "'f linux \<Rightarrow> pstr \<Rightarrow> 'f \<Rightarrow> int" where
  "size_of os path f = (case l_size os path f of None \<Rightarrow> 0 | Some n \<Rightarrow> n)"

definition touched :: "int \<Rightarrow> int \<Rightarrow> int \<Rightarrow> int \<Rightarrow> int \<Rightarrow> int \<Rightarrow> bool" where
  "touched start stop old_count new_size sz index \<longleftrightarrow>
     (index * 1024 < stop \<and> start < index * 1024 + 1024)
     \<or> (index + 1 = old_count \<and> new_size > sz \<and> sz mod 1024 \<noteq> 0)"

definition write_need :: "'f linux \<Rightarrow> pstr \<Rightarrow> int \<Rightarrow> int \<Rightarrow> int \<Rightarrow> 'f \<Rightarrow> int" where
  "write_need os path offset len written f =
     (let sz = size_of os path f;
          sz = (if written \<noteq> 0 then max sz (offset + written) else sz);
          start = offset + written;
          stop = start + min WRITE_CHUNK (len - written);
          old_count = (sz + 1023) div 1024;
          new_size = max sz stop;
          new_count = (new_size + 1023) div 1024 in
      int (length (filter (touched start stop old_count new_size sz) (map int [0..<nat new_count])))
        + (if new_count > 12 then 1 else 0))"

definition word_at :: "pstr list \<Rightarrow> nat \<Rightarrow> host_error + pstr" where
  "word_at ws i = (if i < length ws then Inr (ws ! i) else Inl (HostRaised IndexError))"

text \<open>\<open>(int(w) for w in words[2:n])\<close>, unpacked into as many names.\<close>

definition word_ints :: "pstr list \<Rightarrow> nat \<Rightarrow> host_error + int list" where
  "word_ints ws n = bindR (from_py (mapM py_int (take (n - 2) (drop 2 ws)))) (\<lambda>ns.
     if length ns = n - 2 then Inr ns else Inl (HostRaised (ValueError (u ''not enough values to unpack''))))"

text \<open>The loop of one-KiB writes: the errno that ended it, if any, and the tree then.\<close>

function pwrite_loop :: "'f linux \<Rightarrow> pstr \<Rightarrow> int \<Rightarrow> int \<Rightarrow> int \<Rightarrow> int \<Rightarrow> 'f \<Rightarrow> pstr option \<times> 'f" where
  "pwrite_loop os path offset seed limit finished f =
     (if finished < limit then
        let piece = min WRITE_CHUNK (limit - finished) in
        case l_pwrite os path (pattern (offset + finished) piece seed) (offset + finished) f of
          Inl e \<Rightarrow> (Some e, f)
        | Inr f' \<Rightarrow> pwrite_loop os path offset seed limit (finished + piece) f'
      else (None, f))"
  by pat_completeness auto
termination
  by (relation "measure (\<lambda>(os, path, offset, seed, limit, finished, f). nat (limit - finished))")
    (auto simp: WRITE_CHUNK_def)

declare pwrite_loop.simps [simp del]

text \<open>\<open>str.encode()\<close>.\<close>

definition utf8_char :: "nat \<Rightarrow> py_error + byte list" where
  "utf8_char c =
     (if c < 128 then Inr [of_nat c]
      else if c < 2048 then Inr [of_nat (192 + c div 64), of_nat (128 + c mod 64)]
      else if 55296 \<le> c \<and> c < 57344 then Inl UnicodeError
      else if c < 65536 then Inr [of_nat (224 + c div 4096), of_nat (128 + c div 64 mod 64), of_nat (128 + c mod 64)]
      else Inr [of_nat (240 + c div 262144), of_nat (128 + c div 4096 mod 64), of_nat (128 + c div 64 mod 64),
                of_nat (128 + c mod 64)])"

definition encode_utf8 :: "pstr \<Rightarrow> py_error + byte list" where
  "encode_utf8 s = bindR (mapM utf8_char s) (\<lambda>bs. Inr (concat bs))"

definition errno_of :: "pstr + 'f \<Rightarrow> 'f \<Rightarrow> pstr option \<times> 'f" where
  "errno_of r f = (case r of Inl e \<Rightarrow> (Some e, f) | Inr f' \<Rightarrow> (None, f'))"

definition then_do :: "pstr option \<times> 'f \<Rightarrow> ('f \<Rightarrow> pstr option \<times> 'f) \<Rightarrow> pstr option \<times> 'f" where
  "then_do r k = (case r of (Some e, f) \<Rightarrow> (Some e, f) | (None, f) \<Rightarrow> k f)"

text \<open>\<open>failed\<close>, and the number of bytes the kernel's operation wrote when it got that far.\<close>

definition kernel_failed :: "run_result option \<Rightarrow> bool \<Rightarrow> bool" where
  "kernel_failed k injected = (case k of None \<Rightarrow> False
     | Some r \<Rightarrow> res_errno r \<noteq> u ''0'' \<and> (injected \<or> res_errno r = u ''ENOSPC''))"

definition CREATES :: "pstr set" where
  "CREATES = {u ''mkdir'', u ''trunc'', u ''write'', u ''pwrite'', u ''seekwrite'', u ''overwrite''}"

definition is_pwrite :: "pstr \<Rightarrow> bool" where
  "is_pwrite name \<longleftrightarrow> name = u ''pwrite'' \<or> name = u ''seekwrite''"

definition seek_to :: "'f linux \<Rightarrow> pstr \<Rightarrow> pstr \<Rightarrow> int \<Rightarrow> 'f \<Rightarrow> int" where
  "seek_to os name path offset f = (if name = u ''seekwrite'' then min offset (size_of os path f) else offset)"

text \<open>The free counts justify the kernel's \<open>ENOSPC\<close>: the text of the refusal otherwise.\<close>

definition unjustified :: "'f linux \<Rightarrow> pstr list \<Rightarrow> run_result \<Rightarrow> 'f \<Rightarrow> host_error + pstr option" where
  "unjustified os ws k f =
     bindR (word_at ws 0) (\<lambda>name.
     case res_free k of None \<Rightarrow> Inl (HostRaised TypeError) | Some (blocks, inodes) \<Rightarrow>
     bindR (if name \<in> CREATES then bindR (word_at ws 1) (\<lambda>p. Inr (\<not> l_lexists os p f)) else Inr False) (\<lambda>creates.
     bindR (case res_written k of
              Some written \<Rightarrow>
                if is_pwrite name then
                  bindR (word_ints ws 4) (\<lambda>ns.
                  bindR (word_at ws 1) (\<lambda>p.
                  Inr (ENOSPC_SLACK + write_need os p (seek_to os name p (ns ! 0) f) (ns ! 1) written f)))
                else Inr ENOSPC_SLACK
            | None \<Rightarrow> Inr ENOSPC_SLACK) (\<lambda>need.
     Inr (if blocks < need \<or> (creates \<and> inodes = 0) then None
          else Some (u ''ENOSPC unjustified: free '' @ str_int blocks @ u '' blocks, '' @ str_int inodes @ u '' inodes'')))))"

definition os_write :: "'f linux \<Rightarrow> pstr list \<Rightarrow> pstr \<Rightarrow> bool \<Rightarrow> 'f \<Rightarrow> host_error + pstr option \<times> 'f" where
  "os_write os ws name failed f =
     bindR (word_at ws 1) (\<lambda>p.
     case l_open os True p f of Inl e \<Rightarrow> Inr (Some e, f) | Inr f' \<Rightarrow>
       if name = u ''write'' \<and> 2 < length ws \<and> \<not> failed then
         bindR (from_py (encode_utf8 (ws ! 2))) (\<lambda>bs. Inr (errno_of (l_pwrite os p bs 0 f') f'))
       else Inr (None, f'))"

definition os_pwrite :: "'f linux \<Rightarrow> pstr list \<Rightarrow> pstr \<Rightarrow> int option \<Rightarrow> 'f \<Rightarrow> host_error + pstr option \<times> 'f" where
  "os_pwrite os ws name kept f =
     bindR (word_ints ws 5) (\<lambda>ns.
     bindR (word_at ws 1) (\<lambda>p.
     let offset = seek_to os name p (ns ! 0) f; limit = (case kept of Some w \<Rightarrow> w | None \<Rightarrow> ns ! 1) in
     Inr (then_do (errno_of (l_open os False p f) f) (pwrite_loop os p offset (ns ! 2) limit 0))))"

definition os_overwrite :: "'f linux \<Rightarrow> pstr list \<Rightarrow> int option \<Rightarrow> 'f \<Rightarrow> host_error + pstr option \<times> 'f" where
  "os_overwrite os ws kept f =
     bindR (word_at ws 2) (\<lambda>q.
     case l_read os q f of Inl e \<Rightarrow> Inr (Some e, f) | Inr data \<Rightarrow>
       bindR (word_at ws 1) (\<lambda>p.
       let limit = (case kept of Some w \<Rightarrow> nat w | None \<Rightarrow> length data) in
       Inr (then_do (errno_of (l_open os False p f) f) (\<lambda>f'. errno_of (l_pwrite os p (take limit data) 0 f') f'))))"

text \<open>The body of the \<open>try\<close>: \<open>kept\<close> is \<open>written\<close> when the kernel's call failed after the open.\<close>

definition os_apply :: "'f linux \<Rightarrow> pstr list \<Rightarrow> bool \<Rightarrow> int option \<Rightarrow> 'f \<Rightarrow> host_error + pstr option \<times> 'f" where
  "os_apply os ws failed kept f =
     bindR (word_at ws 0) (\<lambda>name.
     if name = u ''mkdir'' then bindR (word_at ws 1) (\<lambda>p. Inr (errno_of (l_mkdir os p f) f))
     else if name = u ''rmdir'' then bindR (word_at ws 1) (\<lambda>p. Inr (errno_of (l_rmdir os p f) f))
     else if name = u ''unlink'' then bindR (word_at ws 1) (\<lambda>p. Inr (errno_of (l_unlink os p f) f))
     else if name = u ''rename'' then
       bindR (word_at ws 1) (\<lambda>p. bindR (word_at ws 2) (\<lambda>q. Inr (errno_of (l_rename os p q f) f)))
     else if name = u ''trunc'' \<or> name = u ''write'' then os_write os ws name failed f
     else if is_pwrite name then os_pwrite os ws name kept f
     else if name = u ''overwrite'' then os_overwrite os ws kept f
     else Inl (HostFail (u ''unknown operation'')))"

definition linux_apply :: "'f linux \<Rightarrow> pstr \<Rightarrow> run_result option \<Rightarrow> bool \<Rightarrow> 'f \<Rightarrow> host_error + pstr \<times> 'f" where
  "linux_apply os op k injected f =
     (let ws = split_ws op; failed = kernel_failed k injected;
          kept = (if failed then res_written (the k) else None) in
      bindR (word_at ws 0) (\<lambda>_.
      bindR (if failed \<and> \<not> injected then unjustified os ws (the k) f else Inr None) (\<lambda>refusal.
      case refusal of Some message \<Rightarrow> Inr (message, f) | None \<Rightarrow>
        if failed \<and> kept = None then Inr (res_errno (the k), f)
        else
          bindR (os_apply os ws failed kept f) (\<lambda>(e, f').
          Inr (case e of Some name \<Rightarrow> name | None \<Rightarrow> if failed then res_errno (the k) else u ''0'', f')))))"

subsection \<open>Comparing the two sides\<close>

text \<open>
  The tools of a run.  \<open>lab_fresh\<close> is the scratch tree with its root and, for the rows that
  adopt it, the planted fixture; \<open>lab_tree\<close> is what \<open>os.walk\<close> sees below the root.
\<close>

record ('i, 'f) lab =
  lab_tools :: "'i tools"
  lab_debugfs_w :: "'i \<Rightarrow> pstr list \<Rightarrow> eq_error + 'i \<times> pstr"
  lab_fsck :: "'i \<Rightarrow> int \<times> pstr"
  lab_mke2fs :: "nat \<Rightarrow> nat \<Rightarrow> host_error + 'i"
  lab_os :: "'f linux"
  lab_fresh :: "byte list option \<Rightarrow> 'f"
  lab_tree :: "'f \<Rightarrow> hnode option"
  lab_work :: pstr
  lab_bytes :: "'i \<Rightarrow> byte list"
  lab_image :: "byte list \<Rightarrow> 'i"

type_synonym 'i program = "'i \<Rightarrow> pstr \<Rightarrow> host_error + int \<times> pstr \<times> pstr \<times> 'i"

definition image_facts :: "'i tools \<Rightarrow> 'i \<Rightarrow> (host_error + files \<times> counts_t \<times> int \<times> int) option" where
  "image_facts t img = (case snapshot t img of None \<Rightarrow> None
     | Some r \<Rightarrow> Some (bindR (from_eq r) (\<lambda>(fs, c, reach, inodes).
         Inr (fs, c, bitmap_blocks c + reach, bitmap_inodes c + inodes))))"

definition differences_of ::
  "pstr \<Rightarrow> files \<times> counts_t \<times> int \<times> int \<Rightarrow> files \<times> counts_t \<times> int \<times> int \<Rightarrow> diff list" where
  "differences_of prefix k ot = (case (k, ot) of ((kf, kc, ksum), (ofs, oc, osum)) \<Rightarrow>
     map (\<lambda>p. FileDiff p (map_of kf p) (map_of ofs p))
       (filter (\<lambda>p. map_of kf p \<noteq> map_of ofs p) (filter (under prefix) (sort (remdups (map fst kf @ map fst ofs)))))
     @ (if \<not> counters_agree kc then [CounterDiff kc] else [])
     @ (if ksum \<noteq> osum then [SumDiff ksum osum] else []))"

definition image_differences :: "'i tools \<Rightarrow> 'i \<Rightarrow> 'i \<Rightarrow> pstr \<Rightarrow> (host_error + diff list) option" where
  "image_differences t kernel_image other_image prefix =
     bindO (image_facts t kernel_image) (\<lambda>k.
     bindO (image_facts t other_image) (\<lambda>ot. Some (Inr (differences_of prefix k ot))))"

definition insert_at :: "nat \<Rightarrow> 'a \<Rightarrow> 'a list \<Rightarrow> 'a list" where
  "insert_at i x xs = take i xs @ [x] @ drop i xs"

definition FAULT_RE :: regex where
  "FAULT_RE = seqs [LineStart, Lit (u ''fault injected=1''),
     Opt (Group 1 (Seq (Lit (u '' fenced recover='')) (Group 2 (Plus (Chr (Of [CWord])))))), LineEnd]"

definition out_tail :: "nat \<Rightarrow> pstr \<Rightarrow> pstr" where
  "out_tail n out = drop (length out - n) out"

definition apply_op ::
  "'f linux \<Rightarrow> (nat \<times> pstr) option \<Rightarrow> problem list \<times> 'f \<Rightarrow> nat \<times> pstr \<times> run_result \<Rightarrow> host_error + problem list \<times> 'f" where
  "apply_op os fault st x = (case (st, x) of ((problems, f), (index, l, r)) \<Rightarrow>
     bindR (linux_apply os l (Some r) (case fault of None \<Rightarrow> False | Some (i, _) \<Rightarrow> index - 1 = i) f) (\<lambda>(expect, f').
     Inr (if expect \<noteq> res_errno r then problems @ [POp index l (res_errno r) expect] else problems, f')))"

definition apply_ops ::
  "'f linux \<Rightarrow> (nat \<times> pstr) option \<Rightarrow> pstr list \<Rightarrow> run_result list \<Rightarrow> problem list \<times> 'f \<Rightarrow> host_error + problem list \<times> 'f" where
  "apply_ops os fault ls results st = foldM (apply_op os fault) st (zip [1..<Suc (length ls)] (zip ls results))"

definition fsck_problem :: "int \<times> pstr \<Rightarrow> problem list" where
  "fsck_problem r = (case r of (code, report) \<Rightarrow>
     if code \<noteq> 0 then [PFsck (take 600 (join (u '' | '') (filter (\<lambda>l. l \<noteq> [] \<and> \<not> startswith l (u ''Pass '')
       \<and> \<not> startswith l (u ''e2fsck '')) (splitlines report))))] else [])"

text \<open>The part of \<open>compare_run\<close> after a program run with a result for every operation.\<close>

definition judge_run ::
  "('i, 'f) lab \<Rightarrow> 'i \<Rightarrow> pstr list \<Rightarrow> (nat \<times> pstr) option \<Rightarrow> 'i ran_program \<Rightarrow> problem list
     \<Rightarrow> (host_error + problem list) option" where
  "judge_run lab pristine ls fault prog problems =
     bindO (Some (apply_ops (lab_os lab) fault ls (pr_results prog) (problems, lab_fresh lab None))) (\<lambda>(problems, f).
     bindO (Some (from_eq (replay (lab_debugfs_w lab) (lab_work lab @ u ''/tree'') (lab_tree lab f) pristine))) (\<lambda>oracle.
     bindO (image_differences (lab_tools lab) (pr_image prog) oracle ([47] @ ROOT)) (\<lambda>diffs.
     Some (Inr (problems @ fsck_problem (lab_fsck lab (pr_image prog)) @ map PDiff diffs)))))"

definition fence_problem :: "rmatch \<Rightarrow> problem list" where
  "fence_problem m = (case group m 1 of None \<Rightarrow> []
     | Some _ \<Rightarrow> if group_text m 2 \<noteq> u ''ok'' then [PFenced (group_text m 2)] else [])"

text \<open>\<open>None\<close> for the problems: the armed fault was not reached.\<close>

definition compare_run ::
  "('i, 'f) lab \<Rightarrow> (nat \<Rightarrow> bool) \<Rightarrow> 'i program \<Rightarrow> 'i \<Rightarrow> pstr list \<Rightarrow> (nat \<times> pstr) option
     \<Rightarrow> (host_error + problem list option \<times> run_result list) option" where
  "compare_run lab uw exe pristine ls fault =
     bindO (Some (run_program exe pristine (case fault of None \<Rightarrow> ls | Some (i, l) \<Rightarrow> insert_at i l ls))) (\<lambda>prog.
     let results = pr_results prog;
         injected = (if fault = None then None else re_search uw FAULT_RE (pr_out prog)) in
     if fault \<noteq> None \<and> injected = None then Some (Inr (None, results))
     else
       let problems = (case injected of None \<Rightarrow> [] | Some m \<Rightarrow> fence_problem m) in
       if pr_status prog \<noteq> 0 then Some (Inr (Some (problems @ [PStatus (pr_status prog) (out_tail 300 (pr_out prog))]), results))
       else if length results \<noteq> length ls then Some (Inr (Some (problems @ [PResults (length results) (length ls)]), results))
       else bindO (judge_run lab pristine ls fault prog problems) (\<lambda>ps. Some (Inr (Some ps, results))))"

end
