(* ===== verification/Ext2_Campaign.thy ===== *)
theory Ext2_Campaign
  imports Ext2_Oracle
begin

unbundle bit_operations_syntax

section \<open>Rows, campaigns and faults on the host\<close>

text \<open>
  The second half of \<open>scripts/ext2_host.py\<close>: the rows of \<open>ops.eq\<close> as program operations
  (\<open>eq_lines\<close>, \<open>compare_run_rows\<close>), the seeded generator (\<open>generate\<close>), the campaign, the
  fault run, the corrupted images, the near-full disk and \<open>main\<close>.  Python's generator of
  random numbers is a parameter.  The loops of \<open>generate\<close> and of the fault run end only
  when the draws and the program let them: not returning is the value \<open>None\<close>.  The counts
  given on the command line are naturals, and the progress lines are not modelled.
\<close>

subsection \<open>The rows of the table\<close>

datatype gop =
    GMkdir pstr
  | GRmdir pstr
  | GUnlink pstr
  | GRename pstr pstr
  | GWrite pstr pstr
  | GTrunc pstr
  | GPwrite pstr int int int
  | GSeekwrite pstr int int int
  | GOverwrite pstr pstr

primrec op_text :: "gop \<Rightarrow> pstr" where
  "op_text (GMkdir p) = u ''mkdir '' @ p"
| "op_text (GRmdir p) = u ''rmdir '' @ p"
| "op_text (GUnlink p) = u ''unlink '' @ p"
| "op_text (GRename p q) = u ''rename '' @ p @ [32] @ q"
| "op_text (GWrite p t) = u ''write '' @ p @ [32] @ t"
| "op_text (GTrunc p) = u ''trunc '' @ p"
| "op_text (GPwrite p a n s) = u ''pwrite '' @ p @ [32] @ str_int a @ [32] @ str_int n @ [32] @ str_int s"
| "op_text (GSeekwrite p a n s) = u ''seekwrite '' @ p @ [32] @ str_int a @ [32] @ str_int n @ [32] @ str_int s"
| "op_text (GOverwrite p q) = u ''overwrite '' @ p @ [32] @ q"

definition rooted :: "pstr list \<Rightarrow> nat \<Rightarrow> host_error + pstr" where
  "rooted args i = bindR (word_at args i) (\<lambda>a. Inr (ROOT @ [47] @ a))"

definition file_ops :: "pstr \<Rightarrow> int \<Rightarrow> gop list" where
  "file_ops p n = map (\<lambda>i. GTrunc (p @ [47] @ LONG @ str_nat i)) [0..<nat n]"

text \<open>The operations of one line of a row, and whether the row is counted as skipped.\<close>

definition op_lines_host :: "pstr \<Rightarrow> pstr list \<Rightarrow> host_error + gop list \<times> bool" where
  "op_lines_host op args =
     (if op = u ''mkdir'' then bindR (rooted args 0) (\<lambda>p. Inr ([GMkdir p], False))
      else if op = u ''rmdir'' then bindR (rooted args 0) (\<lambda>p. Inr ([GRmdir p], False))
      else if op = u ''unlink'' then bindR (rooted args 0) (\<lambda>p. Inr ([GUnlink p], False))
      else if op = u ''rename'' then bindR (rooted args 0) (\<lambda>p. bindR (rooted args 1) (\<lambda>q. Inr ([GRename p q], False)))
      else if op = u ''write'' then bindR (rooted args 0) (\<lambda>p. bindR (word_at args 1) (\<lambda>t. Inr ([GWrite p t], False)))
      else if op = u ''fill'' then
        bindR (rooted args 0) (\<lambda>p. bindR (word_at args 1) (\<lambda>n. bindR (from_py (py_int n)) (\<lambda>kib.
        Inr ([GTrunc p, GPwrite p 0 (kib * 1024) 1], False))))
      else if op = u ''overwrite'' then
        bindR (rooted args 0) (\<lambda>p. bindR (rooted args 1) (\<lambda>q. Inr ([GOverwrite p q], False)))
      else if op = u ''truncate'' then bindR (rooted args 0) (\<lambda>p. Inr ([GTrunc p], False))
      else if op = u ''peer'' then Inr ([], True)
      else if op = u ''adopt'' then bindR (rooted args 0) (\<lambda>p. Inr ([GRename DIND_FIXTURE p], False))
      else if op = u ''files'' then
        bindR (word_at args 1) (\<lambda>n. bindR (from_py (py_int n)) (\<lambda>k. bindR (rooted args 0) (\<lambda>p.
        Inr (file_ops p k, False))))
      else Inl (HostFail (u ''ops.eq operation '' @ op @ u '' has no host form'')))"

type_synonym eq_script = "gop list \<times> (nat \<times> nat) list \<times> pstr list"

definition add_host_op :: "pstr \<Rightarrow> gop list \<times> pstr list \<Rightarrow> eq_op \<Rightarrow> host_error + gop list \<times> pstr list" where
  "add_host_op name st p = (case (st, p) of ((ls, skipped), (_, op, args)) \<Rightarrow>
     bindR (op_lines_host op args) (\<lambda>(new, skip). Inr (ls @ new, if skip then skipped @ [name] else skipped)))"

definition add_host_row :: "eq_script \<Rightarrow> row \<Rightarrow> host_error + eq_script" where
  "add_host_row st r = (case st of (ls, spans, skipped) \<Rightarrow>
     bindR (foldM (add_host_op (r_name r)) (ls, skipped) (r_ops r)) (\<lambda>(ls', skipped').
     Inr (ls', spans @ [(length ls, length ls')], skipped')))"

definition eq_lines :: "row list \<Rightarrow> host_error + eq_script" where
  "eq_lines rows = foldM add_host_row ([], [], []) rows"

definition row_log ::
  "'f linux \<Rightarrow> pstr list \<Rightarrow> run_result list \<Rightarrow> pstr list \<times> pstr list \<times> 'f \<Rightarrow> nat \<Rightarrow> host_error + pstr list \<times> pstr list \<times> 'f" where
  "row_log os ls results st index = (case st of (kl, hl, f) \<Rightarrow>
     bindR (linux_apply os (ls ! index) (Some (results ! index)) False f) (\<lambda>(expect, f').
     Inr (kl @ [ls ! index @ u '' -> '' @ res_errno (results ! index)], hl @ [ls ! index @ u '' -> '' @ expect], f')))"

definition row_logs ::
  "'f linux \<Rightarrow> pstr list \<Rightarrow> run_result list \<Rightarrow> log \<times> log \<times> 'f \<Rightarrow> row \<times> nat \<times> nat \<Rightarrow> host_error + log \<times> log \<times> 'f" where
  "row_logs os ls results st x = (case (st, x) of ((klog, hlog, f), (r, lo, hi)) \<Rightarrow>
     bindR (foldM (row_log os ls results) ([], [], f) [lo..<hi]) (\<lambda>(kl, hl, f').
     Inr (klog(r_name r \<mapsto> kl), hlog(r_name r \<mapsto> hl), f')))"

definition row_problems :: "row list \<Rightarrow> files \<Rightarrow> files \<Rightarrow> log \<Rightarrow> log \<Rightarrow> problem list" where
  "row_problems rows kf hf klog hlog = concat (map (\<lambda>r.
     let outcome = outcome_of (row_differences (r_name r) kf hf klog hlog) in
     if outcome \<noteq> r_expect r then [PRow (r_name r) outcome (r_expect r)] else []) rows)"

definition compare_run_rows ::
  "('i, 'f) lab \<Rightarrow> 'i program \<Rightarrow> 'i \<Rightarrow> pstr list \<Rightarrow> (nat \<times> nat) list \<Rightarrow> row list
     \<Rightarrow> (host_error + problem list \<times> run_result list) option" where
  "compare_run_rows lab exe pristine ls spans rows =
     bindO (Some (run_program exe pristine ls)) (\<lambda>prog.
     let results = pr_results prog in
     if pr_status prog \<noteq> 0 \<or> length results \<noteq> length ls
     then Some (Inr ([PProgram (pr_status prog) (length results) (out_tail 300 (pr_out prog))], results))
     else
       bindO (Some (foldM (row_logs (lab_os lab) ls results)
         (Map.empty, Map.empty, lab_fresh lab (if adopted rows then Some write_fixture else None)) (zip rows spans)))
         (\<lambda>(klog, hlog, f).
       bindO (Some (from_eq (replay (lab_debugfs_w lab) (lab_work lab @ u ''/tree'') (lab_tree lab f) pristine))) (\<lambda>oracle.
       bindO (image_facts (lab_tools lab) (pr_image prog)) (\<lambda>(kf, kc, _).
       bindO (image_facts (lab_tools lab) oracle) (\<lambda>(hf, _).
       Some (Inr (row_problems rows kf hf klog hlog @ (if \<not> counters_agree kc then [PCounters kc] else []), results)))))))"

definition plant_fixture :: "('i, 'f) lab \<Rightarrow> 'i \<Rightarrow> host_error + 'i" where
  "plant_fixture lab img = bindR (from_eq (lab_debugfs_w lab img
     [u ''mkdir /lib'', u ''write '' @ lab_work lab @ u ''/ext2-eq-dind /'' @ DIND_FIXTURE])) (\<lambda>(img', _). Inr img')"

definition run_eq :: "('i, 'f) lab \<Rightarrow> 'i program \<Rightarrow> pstr \<Rightarrow> (host_error + pass_result) option" where
  "run_eq lab exe text_in =
     bindO (Some (from_eq (parse text_in))) (\<lambda>rows.
     bindO (Some (eq_lines rows)) (\<lambda>(ops, spans, skipped).
     bindO (Some (lab_mke2fs lab 6144 1024)) (\<lambda>made.
     bindO (Some (if adopted rows then plant_fixture lab made else Inr made)) (\<lambda>pristine.
     bindO (compare_run_rows lab exe pristine (map op_text ops) spans rows) (\<lambda>(problems, _).
     if problems \<noteq> [] then Some (Inl (HostProblems (u ''ops.eq rows'') problems))
     else Some (Inr (report_pass (u ''ext2-host eq'')
       (str_nat (length rows) @ u '' ops.eq rows as the QEMU lane records them, '' @ str_nat (length ops)
         @ u '' operations through the kernel's ext2 on the host''
         @ (if skipped \<noteq> [] then u '' (descriptor-only operations not run: rows '' @ join (u '', '') skipped @ u '')'' else []))
       [(u ''rows'', int (length rows)), (u ''operations'', int (length ops))])))))))"

subsection \<open>The generator\<close>

text \<open>
  \<open>random.Random\<close>: the state of a seed, \<open>_randbelow(n)\<close>, whether \<open>random()\<close> is below a
  number of hundredths, and the index \<open>choices\<close> draws for its weights.
\<close>

record 'r rng =
  r_seed :: "nat \<Rightarrow> 'r"
  r_below :: "nat \<Rightarrow> 'r \<Rightarrow> nat \<times> 'r"
  r_chance :: "nat \<Rightarrow> 'r \<Rightarrow> bool \<times> 'r"
  r_weighted :: "nat list \<Rightarrow> 'r \<Rightarrow> nat \<times> 'r"

definition pick :: "'r rng \<Rightarrow> 'a list \<Rightarrow> 'r \<Rightarrow> 'a \<times> 'r" where
  "pick rng xs r = (case r_below rng (length xs) r of (i, r') \<Rightarrow> (xs ! i, r'))"

definition randrange :: "'r rng \<Rightarrow> nat \<Rightarrow> nat \<Rightarrow> 'r \<Rightarrow> nat \<times> 'r" where
  "randrange rng a b r = (case r_below rng (b - a) r of (i, r') \<Rightarrow> (a + i, r'))"

definition name_for :: "'r rng \<Rightarrow> 'r \<Rightarrow> pstr \<times> 'r" where
  "name_for rng r = (case pick rng (u ''abcdefgh'') r of (c, r) \<Rightarrow>
     (case randrange rng 0 20 r of (n, r) \<Rightarrow> (c # str_nat n, r)))"

record model =
  md_dirs :: "pstr list"
  md_files :: "(pstr \<times> nat) list"

definition new_model :: model where "new_model = \<lparr>md_dirs = [ROOT], md_files = []\<rparr>"

definition children :: "model \<Rightarrow> pstr \<Rightarrow> pstr list" where
  "children m d = filter (\<lambda>p. startswith p (d @ [47]) \<and> 47 \<notin> set (drop (length d + 1) p)) (md_dirs m @ map fst (md_files m))"

type_synonym 'r gen = "gop list \<times> model \<times> 'r"

definition file_size :: "model \<Rightarrow> pstr \<Rightarrow> nat" where
  "file_size m p = (case map_of (md_files m) p of None \<Rightarrow> 0 | Some n \<Rightarrow> n)"

definition set_size :: "pstr \<Rightarrow> nat \<Rightarrow> model \<Rightarrow> model" where
  "set_size p n m = m\<lparr>md_files := AList.update p n (md_files m)\<rparr>"

definition add_dir :: "pstr \<Rightarrow> model \<Rightarrow> model" where
  "add_dir p m = m\<lparr>md_dirs := List.insert p (md_dirs m)\<rparr>"

definition drop_dir :: "pstr \<Rightarrow> model \<Rightarrow> model" where
  "drop_dir p m = m\<lparr>md_dirs := removeAll p (md_dirs m)\<rparr>"

definition gen_mkdir :: "pstr \<Rightarrow> 'r gen \<Rightarrow> 'r gen" where
  "gen_mkdir fresh st = (case st of (ops, m, r) \<Rightarrow>
     if length (filter (\<lambda>c. c = 47) fresh) > 5 \<or> fresh \<in> fst ` set (md_files m) then st
     else (ops @ [GMkdir fresh], add_dir fresh m, r))"

primrec draw_text :: "'r rng \<Rightarrow> nat \<Rightarrow> 'r \<Rightarrow> pstr \<times> 'r" where
  "draw_text rng 0 r = ([], r)"
| "draw_text rng (Suc n) r = (case pick rng (u ''xyz0123456789'') r of (c, r) \<Rightarrow>
     (case draw_text rng n r of (t, r) \<Rightarrow> (c # t, r)))"

definition gen_write :: "'r rng \<Rightarrow> pstr list \<Rightarrow> pstr \<Rightarrow> 'r gen \<Rightarrow> 'r gen" where
  "gen_write rng files fresh st = (case st of (ops, m, r) \<Rightarrow>
     (case (if files \<noteq> [] then pick rng (files @ [fresh]) r else (fresh, r)) of (target, r) \<Rightarrow>
        if target \<in> set (md_dirs m) then (ops, m, r)
        else (case randrange rng 1 40 r of (n, r) \<Rightarrow>
          (case draw_text rng n r of (t, r) \<Rightarrow> (ops @ [GWrite target t], set_size target (length t) m, r)))))"

definition draw_length :: "'r rng \<Rightarrow> 'r \<Rightarrow> nat \<times> 'r" where
  "draw_length rng r =
     (case randrange rng 1 64 r of (a, r) \<Rightarrow>
     (case randrange rng 1 3000 r of (b, r) \<Rightarrow>
     (case randrange rng 1 20000 r of (c, r) \<Rightarrow>
     (case randrange rng 20000 80000 r of (d, r) \<Rightarrow> pick rng [a, b, c, d] r))))"

text \<open>A write past the end of file, and one that seeks no further than it.\<close>

definition gen_past :: "'r rng \<Rightarrow> pstr \<Rightarrow> nat \<Rightarrow> nat \<Rightarrow> 'r gen \<Rightarrow> 'r gen" where
  "gen_past rng target sz len st = (case st of (ops, m, r) \<Rightarrow>
     (case randrange rng 1 1024 r of (a, r) \<Rightarrow>
     (case randrange rng 1024 40000 r of (b, r) \<Rightarrow>
     (case pick rng [a, b] r of (gap, r) \<Rightarrow>
        let offset = sz + gap in
        if int (offset + len) > MAX_FILE then (ops, m, r)
        else (case randrange rng 0 256 r of (seed, r) \<Rightarrow>
          (ops @ [GPwrite target (int offset) (int len) (int seed)], set_size target (max sz (offset + len)) m, r))))))"

definition gen_seek :: "'r rng \<Rightarrow> pstr \<Rightarrow> nat \<Rightarrow> nat \<Rightarrow> 'r gen \<Rightarrow> 'r gen" where
  "gen_seek rng target sz len st = (case st of (ops, m, r) \<Rightarrow>
     (case randrange rng 0 (sz + 1) r of (a, r) \<Rightarrow>
     (case pick rng [0, sz, a] r of (offset, r) \<Rightarrow>
        if int (offset + len) > MAX_FILE then (ops, m, r)
        else (case randrange rng 0 256 r of (seed, r) \<Rightarrow>
          (ops @ [GSeekwrite target (int offset) (int len) (int seed)], set_size target (max sz (offset + len)) m, r)))))"

definition pwrite_target :: "'r rng \<Rightarrow> pstr list \<Rightarrow> pstr \<Rightarrow> 'r \<Rightarrow> pstr \<times> 'r" where
  "pwrite_target rng files fresh r =
     (if files \<noteq> [] then (case r_chance rng 70 r of (yes, r) \<Rightarrow> if yes then pick rng (files @ [fresh]) r else (fresh, r))
      else (fresh, r))"

definition gen_pwrite :: "'r rng \<Rightarrow> nat \<Rightarrow> pstr list \<Rightarrow> pstr \<Rightarrow> 'r gen \<Rightarrow> 'r gen" where
  "gen_pwrite rng largest files fresh st = (case st of (ops, m, r) \<Rightarrow>
     (case pwrite_target rng files fresh r of (target, r) \<Rightarrow>
        if target \<in> set (md_dirs m) then (ops, m, r)
        else
          let sz = file_size m target in
          (case draw_length rng r of (drawn, r) \<Rightarrow>
          (case r_chance rng 20 r of (past, r) \<Rightarrow>
             (if past then gen_past else gen_seek) rng target sz (min drawn largest) (ops, m, r)))))"

definition gen_trunc :: "'r rng \<Rightarrow> pstr list \<Rightarrow> 'r gen \<Rightarrow> 'r gen" where
  "gen_trunc rng files st = (case st of (ops, m, r) \<Rightarrow>
     if files = [] then st
     else (case pick rng files r of (target, r) \<Rightarrow> (ops @ [GTrunc target], set_size target 0 m, r)))"

definition gen_unlink :: "'r rng \<Rightarrow> pstr list \<Rightarrow> 'r gen \<Rightarrow> 'r gen" where
  "gen_unlink rng files st = (case st of (ops, m, r) \<Rightarrow>
     if files = [] then st
     else (case pick rng files r of (target, r) \<Rightarrow>
       (ops @ [GUnlink target], m\<lparr>md_files := AList.delete target (md_files m)\<rparr>, r)))"

definition gen_rmdir :: "'r rng \<Rightarrow> pstr list \<Rightarrow> 'r gen \<Rightarrow> 'r gen" where
  "gen_rmdir rng dirs st = (case st of (ops, m, r) \<Rightarrow>
     let candidates = filter (\<lambda>d. d \<noteq> ROOT) dirs in
     if candidates = [] then st
     else (case pick rng candidates r of (target, r) \<Rightarrow>
       (ops @ [GRmdir target], if children m target = [] then drop_dir target m else m, r)))"

definition gen_rename_file :: "'r rng \<Rightarrow> pstr list \<Rightarrow> pstr \<Rightarrow> 'r gen \<Rightarrow> 'r gen" where
  "gen_rename_file rng files fresh st = (case st of (ops, m, r) \<Rightarrow>
     if files = [] then st
     else (case pick rng files r of (source, r) \<Rightarrow>
       (case pick rng (files @ [fresh]) r of (target, r) \<Rightarrow>
          if target \<in> set (md_dirs m) \<or> target = source then (ops, m, r)
          else (ops @ [GRename source target],
            set_size target (file_size m source) (m\<lparr>md_files := AList.delete source (md_files m)\<rparr>), r))))"

definition gen_rename_dir :: "'r rng \<Rightarrow> pstr list \<Rightarrow> 'r gen \<Rightarrow> 'r gen" where
  "gen_rename_dir rng dirs st = (case st of (ops, m, r) \<Rightarrow>
     let candidates = filter (\<lambda>d. d \<noteq> ROOT \<and> children m d = []) dirs in
     if candidates = [] then st
     else (case pick rng candidates r of (source, r) \<Rightarrow>
       (case name_for rng r of (name, r) \<Rightarrow>
          let target = fst (rsplit_slash source) @ [47] @ name in
          if target \<in> set (md_dirs m) \<or> target \<in> fst ` set (md_files m) then (ops, m, r)
          else (ops @ [GRename source target], add_dir target (drop_dir source m), r))))"

definition zz_name :: "'r rng \<Rightarrow> pstr \<Rightarrow> 'r \<Rightarrow> pstr \<times> 'r" where
  "zz_name rng parent r = (case randrange rng 0 9 r of (n, r) \<Rightarrow> (parent @ u ''/zz'' @ str_nat n, r))"

definition gen_error :: "'r rng \<Rightarrow> pstr list \<Rightarrow> pstr list \<Rightarrow> pstr \<Rightarrow> 'r gen \<Rightarrow> 'r gen" where
  "gen_error rng dirs files parent st = (case st of (ops, m, r) \<Rightarrow>
     (case randrange rng 0 5 r of (choice, r) \<Rightarrow>
        if choice = 0 \<and> length dirs > 1 then (case pick rng (tl dirs) r of (p, r) \<Rightarrow> (ops @ [GMkdir p], m, r))
        else if choice = 1 then (case zz_name rng parent r of (p, r) \<Rightarrow> (ops @ [GUnlink p], m, r))
        else if choice = 2 \<and> length dirs > 1 then (case pick rng (tl dirs) r of (p, r) \<Rightarrow> (ops @ [GUnlink p], m, r))
        else if choice = 3 \<and> files \<noteq> [] then (case pick rng files r of (p, r) \<Rightarrow> (ops @ [GRmdir p], m, r))
        else if choice = 4 then (case zz_name rng parent r of (p, r) \<Rightarrow> (ops @ [GRmdir p], m, r))
        else (ops, m, r)))"

definition WEIGHTS :: "nat list" where
  "WEIGHTS = [8, 10, 30, 4, 10, 6, 8, 3, 3]"

text \<open>One turn of the loop.\<close>

definition gen_step :: "'r rng \<Rightarrow> nat \<Rightarrow> 'r gen \<Rightarrow> 'r gen" where
  "gen_step rng largest st = (case st of (ops, m, r) \<Rightarrow>
     let dirs = sort (md_dirs m); files = sort (map fst (md_files m)) in
     (case pick rng dirs r of (parent, r) \<Rightarrow>
     (case name_for rng r of (name, r) \<Rightarrow>
        let fresh = parent @ [47] @ name in
        (case r_weighted rng WEIGHTS r of (kind, r) \<Rightarrow>
           if kind = 0 then gen_mkdir fresh (ops, m, r)
           else if kind = 1 then gen_write rng files fresh (ops, m, r)
           else if kind = 2 then gen_pwrite rng largest files fresh (ops, m, r)
           else if kind = 3 then gen_trunc rng files (ops, m, r)
           else if kind = 4 then gen_unlink rng files (ops, m, r)
           else if kind = 5 then gen_rmdir rng dirs (ops, m, r)
           else if kind = 6 then gen_rename_file rng files fresh (ops, m, r)
           else if kind = 7 then gen_rename_dir rng dirs (ops, m, r)
           else gen_error rng dirs files parent (ops, m, r)))))"

partial_function (option) generate_loop :: "'r rng \<Rightarrow> nat \<Rightarrow> nat \<Rightarrow> 'r gen \<Rightarrow> 'r gen option" where
  "generate_loop rng largest count st =
     (if length (fst st) < count then generate_loop rng largest count (gen_step rng largest st) else Some st)"

definition generate :: "'r rng \<Rightarrow> nat \<Rightarrow> nat \<Rightarrow> nat \<Rightarrow> gop list option" where
  "generate rng seed count largest =
     map_option fst (generate_loop rng largest count ([], new_model, r_seed rng seed))"

subsection \<open>The campaign\<close>

definition FS_BLOCKS :: nat where "FS_BLOCKS = 512"
definition FS_INODES :: nat where "FS_INODES = 64"

text \<open>\<open>list(range(every, ops, every)) + [ops]\<close>; a step of zero raises.\<close>

definition checkpoints :: "nat \<Rightarrow> nat \<Rightarrow> py_error + nat list" where
  "checkpoints every ops = (if every = 0 then Inl (ValueError (u ''range() arg 3 must not be zero''))
     else Inr (map (\<lambda>i. every * Suc i) [0..<(ops - 1) div every] @ [ops]))"

type_synonym failure = "nat \<times> nat \<times> problem list"

fun check_prefixes ::
  "('i, 'f) lab \<Rightarrow> (nat \<Rightarrow> bool) \<Rightarrow> 'i program \<Rightarrow> 'i \<Rightarrow> pstr list \<Rightarrow> nat list \<Rightarrow> nat
     \<Rightarrow> (host_error + (nat \<times> problem list) option \<times> nat) option" where
  "check_prefixes lab uw exe pristine ls [] checks = Some (Inr (None, checks))"
| "check_prefixes lab uw exe pristine ls (p # ps) checks =
     bindO (compare_run lab uw exe pristine (take p ls) None) (\<lambda>(problems, _).
     case problems of Some (q # qs) \<Rightarrow> Some (Inr (Some (p, q # qs), Suc checks))
       | _ \<Rightarrow> check_prefixes lab uw exe pristine ls ps (Suc checks))"

fun check_seeds ::
  "('i, 'f) lab \<Rightarrow> (nat \<Rightarrow> bool) \<Rightarrow> 'r rng \<Rightarrow> 'i program \<Rightarrow> 'i \<Rightarrow> nat \<Rightarrow> nat \<Rightarrow> nat list \<Rightarrow> nat
     \<Rightarrow> (host_error + failure option \<times> nat) option" where
  "check_seeds lab uw rng exe pristine ops every [] checks = Some (Inr (None, checks))"
| "check_seeds lab uw rng exe pristine ops every (seed # seeds) checks =
     (case generate rng seed ops 80000 of None \<Rightarrow> None | Some gops \<Rightarrow>
        bindO (Some (from_py (checkpoints every ops))) (\<lambda>prefixes.
        bindO (check_prefixes lab uw exe pristine (map op_text gops) prefixes checks) (\<lambda>(failure, checks).
        case failure of Some (p, problems) \<Rightarrow> Some (Inr (Some (seed, p, problems), checks))
          | None \<Rightarrow> check_seeds lab uw rng exe pristine ops every seeds checks)))"

definition campaign ::
  "('i, 'f) lab \<Rightarrow> (nat \<Rightarrow> bool) \<Rightarrow> 'r rng \<Rightarrow> 'i program \<Rightarrow> nat \<Rightarrow> nat \<Rightarrow> nat \<Rightarrow> nat
     \<Rightarrow> (host_error + failure option \<times> nat) option" where
  "campaign lab uw rng exe seeds ops every first =
     bindO (Some (lab_mke2fs lab FS_BLOCKS FS_INODES)) (\<lambda>pristine.
     check_seeds lab uw rng exe pristine ops every [first..<first + seeds] 0)"

subsection \<open>Failed writes\<close>

definition FAULT_DENSE :: nat where "FAULT_DENSE = 12"
definition FAULT_LARGEST :: nat where "FAULT_LARGEST = 4000"

definition next_write :: "nat \<Rightarrow> nat" where
  "next_write k = (if k < FAULT_DENSE then k + 1 else k * 2)"

definition fault_line :: "nat \<Rightarrow> pstr \<Rightarrow> pstr" where
  "fault_line k mode = u ''fault '' @ str_nat k @ [32] @ mode"

text \<open>The writes of one operation: the checks, the failures, and whether ten of them ended the run.\<close>

partial_function (option) fault_loop ::
  "('i, 'f) lab \<Rightarrow> (nat \<Rightarrow> bool) \<Rightarrow> 'i program \<Rightarrow> 'i \<Rightarrow> pstr list \<Rightarrow> nat \<Rightarrow> nat \<Rightarrow> pstr \<Rightarrow> nat \<Rightarrow> nat
     \<Rightarrow> problem list \<Rightarrow> (host_error + nat \<times> problem list \<times> bool) option" where
  "fault_loop lab uw exe pristine ls seed index mode k checked failures =
     (case compare_run lab uw exe pristine (take (index + 1) ls) (Some (index, fault_line k mode)) of
        None \<Rightarrow> None
      | Some r \<Rightarrow>
          (case r of
             Inl e \<Rightarrow> Some (Inl e)
           | Inr (problems, results) \<Rightarrow>
               (case problems of
                  None \<Rightarrow> Some (Inr (checked, failures, False))
                | Some ps \<Rightarrow>
                    if ps = [] then fault_loop lab uw exe pristine ls seed index mode (next_write k) (checked + 1) failures
                    else if length failures + 1 \<ge> 10
                    then Some (Inr (checked + 1,
                      failures @ [PFault seed (index + 1) (ls ! index) (fault_line k mode) (take 3 ps)], True))
                    else fault_loop lab uw exe pristine ls seed index mode (next_write k) (checked + 1)
                      (failures @ [PFault seed (index + 1) (ls ! index) (fault_line k mode) (take 3 ps)]))))"

fun fault_ops ::
  "('i, 'f) lab \<Rightarrow> (nat \<Rightarrow> bool) \<Rightarrow> 'i program \<Rightarrow> 'i \<Rightarrow> pstr list \<Rightarrow> nat \<Rightarrow> (nat \<times> pstr) list \<Rightarrow> nat
     \<Rightarrow> problem list \<Rightarrow> (host_error + nat \<times> problem list \<times> bool) option" where
  "fault_ops lab uw exe pristine ls seed [] checked failures = Some (Inr (checked, failures, False))"
| "fault_ops lab uw exe pristine ls seed ((index, mode) # todo) checked failures =
     bindO (fault_loop lab uw exe pristine ls seed index mode 0 checked failures) (\<lambda>(checked, failures, ended).
     if ended then Some (Inr (checked, failures, True))
     else fault_ops lab uw exe pristine ls seed todo checked failures)"

fun fault_seeds ::
  "('i, 'f) lab \<Rightarrow> (nat \<Rightarrow> bool) \<Rightarrow> 'r rng \<Rightarrow> 'i program \<Rightarrow> 'i \<Rightarrow> nat \<Rightarrow> pstr list \<Rightarrow> nat list \<Rightarrow> nat
     \<Rightarrow> problem list \<Rightarrow> (host_error + nat \<times> problem list) option" where
  "fault_seeds lab uw rng exe pristine ops modes [] checked failures = Some (Inr (checked, failures))"
| "fault_seeds lab uw rng exe pristine ops modes (seed # seeds) checked failures =
     (case generate rng seed ops FAULT_LARGEST of None \<Rightarrow> None | Some gops \<Rightarrow>
        bindO (fault_ops lab uw exe pristine (map op_text gops) seed
          (concat (map (\<lambda>index. map (\<lambda>mode. (index, mode)) modes) [0..<length gops])) checked failures)
          (\<lambda>(checked, failures, ended).
        if ended then Some (Inr (checked, failures))
        else fault_seeds lab uw rng exe pristine ops modes seeds checked failures))"

definition run_faults ::
  "('i, 'f) lab \<Rightarrow> (nat \<Rightarrow> bool) \<Rightarrow> 'r rng \<Rightarrow> 'i program \<Rightarrow> nat \<Rightarrow> nat \<Rightarrow> nat \<Rightarrow> pstr list
     \<Rightarrow> (host_error + nat \<times> problem list) option" where
  "run_faults lab uw rng exe seeds ops first modes =
     bindO (Some (lab_mke2fs lab FS_BLOCKS FS_INODES)) (\<lambda>pristine.
     fault_seeds lab uw rng exe pristine ops modes [first..<first + seeds] 0 [])"

subsection \<open>Corrupted images\<close>

definition HOSTILE_POPULATE :: "pstr list" where
  "HOSTILE_POPULATE = [u ''mkdir eq/d'', u ''mkdir eq/d/e'', u ''write eq/a hello'', u ''pwrite eq/b 0 20000 3'',
     u ''pwrite eq/d/c 0 3000 4'', u ''write eq/d/e/f deep'', u ''mkdir eq/g'']"

definition REGIONS :: "(nat \<times> nat) list" where
  "REGIONS = [(1024, 1024), (2048, 1024), (3 * 1024, 2 * 1024), (5 * 1024, 24 * 1024), (29 * 1024, 64 * 1024)]"

definition mutate_byte :: "'r rng \<Rightarrow> byte list \<times> 'r \<Rightarrow> host_error + byte list \<times> 'r" where
  "mutate_byte rng st = (case st of (bs, r) \<Rightarrow>
     (case pick rng REGIONS r of ((start, len), r) \<Rightarrow>
     (case randrange rng 0 len r of (i, r) \<Rightarrow>
        let at = start + i in
        (case randrange rng 0 256 r of (b, r) \<Rightarrow>
        (case randrange rng 0 8 r of (n, r) \<Rightarrow>
           if at \<ge> length bs then Inl (HostRaised IndexError)
           else (case pick rng [0, 255, of_nat b, bs ! at XOR push_bit n 1] r of (v, r) \<Rightarrow> Inr (bs[at := v], r)))))))"

definition mutate :: "'r rng \<Rightarrow> byte list \<Rightarrow> 'r \<Rightarrow> host_error + byte list \<times> 'r" where
  "mutate rng bs r = (case pick rng [1, 2, 4, 16] r of (n, r) \<Rightarrow> foldM (\<lambda>st _. mutate_byte rng st) (bs, r) [0..<n])"

definition WALK_RE :: regex where
  "WALK_RE = seqs [LineStart, Lit (u ''walk dirs=''), digits, Lit (u '' '')]"

definition hostile_image ::
  "('i, 'f) lab \<Rightarrow> 'r rng \<Rightarrow> 'i program \<Rightarrow> byte list \<Rightarrow> nat \<times> nat \<times> problem list \<Rightarrow> nat
     \<Rightarrow> host_error + nat \<times> nat \<times> problem list" where
  "hostile_image lab rng exe base st index = (case st of (walked, refused, failures) \<Rightarrow>
     bindR (mutate rng base (r_seed rng index)) (\<lambda>(bs, _).
     bindR (run_program exe (lab_image lab bs) [u ''walk'']) (\<lambda>prog.
     Inr (if pr_status prog = 3 \<and> contains (u ''mount invalid'') (pr_out prog) then (walked, refused + 1, failures)
          else if pr_status prog \<noteq> 0
          then (walked, refused, failures @ [PHostile index (PStatus (pr_status prog) (out_tail 200 (pr_out prog)))])
          else if re_search no_words WALK_RE (pr_out prog) = None
          then (walked, refused, failures @ [PHostile index (PWalk (out_tail 200 (pr_out prog)))])
          else (walked + 1, refused, failures)))))"

definition run_hostile ::
  "('i, 'f) lab \<Rightarrow> 'r rng \<Rightarrow> 'i program \<Rightarrow> nat \<Rightarrow> nat \<Rightarrow> host_error + nat \<times> nat \<times> problem list" where
  "run_hostile lab rng exe images first =
     bindR (lab_mke2fs lab FS_BLOCKS FS_INODES) (\<lambda>base.
     bindR (run_program exe base HOSTILE_POPULATE) (\<lambda>prog.
     if pr_status prog \<noteq> 0 \<or> list_ex (\<lambda>r. res_errno r \<noteq> u ''0'') (pr_results prog)
     then Inl (HostProblems (u ''populating the hostile base failed'') [PStatus (pr_status prog) (out_tail 300 (pr_out prog))])
     else foldM (hostile_image lab rng exe (lab_bytes lab (pr_image prog))) (0, 0, []) [first..<first + images]))"

subsection \<open>The control, the nearly full disk and the holes\<close>

text \<open>
  \<open>run_control\<close> after \<open>build_mutant\<close>: the program with the planted bug is a parameter.
  Its message is kept to its first words.
\<close>

definition run_control ::
  "('i, 'f) lab \<Rightarrow> (nat \<Rightarrow> bool) \<Rightarrow> 'r rng \<Rightarrow> 'i program \<Rightarrow> nat \<Rightarrow> nat \<Rightarrow> nat \<Rightarrow> (host_error + pass_result) option" where
  "run_control lab uw rng mutant seeds ops every =
     bindO (campaign lab uw rng mutant seeds ops every 0) (\<lambda>(failure, checks).
     bindO (if failure \<noteq> None then Some (Inr (map_option (\<lambda>(_, _, ps). ps) failure, checks))
            else bindO (run_faults lab uw rng mutant 1 40 0 [u ''reject'']) (\<lambda>(faulted, failures).
              Some (Inr (if failures \<noteq> [] then Some failures else None, checks + faulted)))) (\<lambda>(failed, checks).
     case failed of None \<Rightarrow> Some (Inl (HostFail (u ''the planted rollback bug passed '' @ str_nat checks @ u '' checks'')))
       | Some _ \<Rightarrow> Some (Inr (report_pass (u ''ext2-host control'') (u ''a rollback that forgets one block fails'')
           [(u ''checks'', int checks)]))))"

text \<open>The fillers that leave eight blocks and the large file's; the name counts the operations before.\<close>

definition filler_blocks :: "int \<Rightarrow> int" where
  "filler_blocks spare = (if spare \<le> 13 then min spare 12 else min (spare - 1) 256)"

function filler_ops :: "int \<Rightarrow> nat \<Rightarrow> gop list" where
  "filler_ops spare n =
     (if spare > 0 then
        let blocks = filler_blocks spare in
        GPwrite (ROOT @ u ''/fill'' @ str_nat n) 0 (blocks * 1024) 9
          # filler_ops (spare - (blocks + (if blocks > 12 then 1 else 0))) (Suc n)
      else [])"
  by pat_completeness auto
termination
  by (relation "measure (\<lambda>(spare, n). nat spare)") (auto simp: filler_blocks_def Let_def)

declare filler_ops.simps [simp del]

definition BIG_SIZE :: int where "BIG_SIZE = 200 * 1024"

definition big_ops :: "gop list" where
  "big_ops = (let big = ROOT @ u ''/big'' in
     [GPwrite big 0 BIG_SIZE 1, GPwrite big 5000 10 2, GPwrite big (BIG_SIZE - 3000) 2000 3, GPwrite big BIG_SIZE 1500 4])"

definition answers :: "(gop \<times> run_result) list \<Rightarrow> problem list" where
  "answers xs = concat (map (\<lambda>(l, r). if res_errno r \<noteq> u ''0'' then [PAnswer (op_text l) (res_errno r) (res_free r)] else []) xs)"

text \<open>\<open>problems\<close> is a list: no fault is armed.\<close>

definition problem_list :: "problem list option \<Rightarrow> problem list" where
  "problem_list ps = (case ps of None \<Rightarrow> [] | Some qs \<Rightarrow> qs)"

definition run_nearfull :: "('i, 'f) lab \<Rightarrow> (nat \<Rightarrow> bool) \<Rightarrow> 'i program \<Rightarrow> (host_error + pass_result) option" where
  "run_nearfull lab uw exe =
     bindO (Some (lab_mke2fs lab FS_BLOCKS FS_INODES)) (\<lambda>pristine.
     bindO (Some (run_program exe pristine [])) (\<lambda>probe.
     case pr_free probe of
       None \<Rightarrow> Some (Inl (HostFail (u ''no mount line: '' @ out_tail 300 (pr_out probe))))
     | Some (free_blocks, _) \<Rightarrow>
         let fillers = filler_ops (free_blocks - 8 - 201) 0; ops = fillers @ big_ops in
         bindO (compare_run lab uw exe pristine (map op_text ops) None) (\<lambda>(problems, results).
         let problems = problem_list problems @ answers (drop (length fillers) (zip ops results)) in
         if problems \<noteq> [] then Some (Inl (HostProblems (u ''nearfull (#1086)'') problems))
         else Some (Inr (report_pass (u ''ext2-host nearfull'') (u ''a '' @ str_int BIG_SIZE @
           u ''-byte file with 8 blocks free takes an overwrite, a straddling write and an append (#1086)'')
           [(u ''cases'', int (length ops) - int (length fillers))])))))"

definition hole_ops :: "gop list" where
  "hole_ops = [GPwrite (ROOT @ u ''/s'') 5000 10 1, GPwrite (ROOT @ u ''/s'') 40000 100 2, GPwrite (ROOT @ u ''/s'') 1 3 3,
     GPwrite (ROOT @ u ''/s'') 20000 1500 4, GPwrite (ROOT @ u ''/t'') 200000 10 5, GSeekwrite (ROOT @ u ''/t'') 0 10 6]"

definition run_holes :: "('i, 'f) lab \<Rightarrow> (nat \<Rightarrow> bool) \<Rightarrow> 'i program \<Rightarrow> (host_error + pass_result) option" where
  "run_holes lab uw exe =
     bindO (Some (lab_mke2fs lab FS_BLOCKS FS_INODES)) (\<lambda>pristine.
     bindO (compare_run lab uw exe pristine (map op_text hole_ops) None) (\<lambda>(problems, results).
     let problems = problem_list problems @ answers (zip hole_ops results) in
     if problems \<noteq> [] then Some (Inl (HostProblems (u ''holes (#1087)'') problems))
     else Some (Inr (report_pass (u ''ext2-host holes'')
       (u ''writes past end of file leave holes with Linux's bytes and i_blocks (#1087)'')
       [(u ''cases'', int (length hole_ops))]))))"

subsection \<open>The command\<close>

text \<open>The parsed arguments.  \<open>self-test\<close> is not modelled.\<close>

datatype mode =
    MEq pstr
  | MCampaign nat nat nat nat
  | MReplay nat nat
  | MFaults nat nat nat bool
  | MHostile nat nat
  | MControl nat nat nat
  | MNearfull
  | MHoles

text \<open>What the command leaves: its exit status and what it reported.\<close>

datatype host_report =
    HPass pass_result
  | HFailure failure
  | HFailures "problem list"
  | HError host_error

type_synonym outcome = "int \<times> host_report"

text \<open>\<open>report_pass\<close> exits 1 itself when it refuses.\<close>

definition passed :: "pass_result \<Rightarrow> outcome" where
  "passed r = (case r of Pass _ \<Rightarrow> (0, HPass r) | Refused _ \<Rightarrow> (1, HPass r))"

definition replay_mode ::
  "('i, 'f) lab \<Rightarrow> (nat \<Rightarrow> bool) \<Rightarrow> 'r rng \<Rightarrow> 'i program \<Rightarrow> nat \<Rightarrow> nat \<Rightarrow> (host_error + outcome) option" where
  "replay_mode lab uw rng exe seed len =
     (case generate rng seed len 80000 of None \<Rightarrow> None | Some gops \<Rightarrow>
        bindO (Some (lab_mke2fs lab FS_BLOCKS FS_INODES)) (\<lambda>pristine.
        bindO (compare_run lab uw exe pristine (map op_text gops) None) (\<lambda>_. Some (Inl (HostRaised NameError)))))"

definition run_mode ::
  "('i, 'f) lab \<Rightarrow> (nat \<Rightarrow> bool) \<Rightarrow> 'r rng \<Rightarrow> 'i program \<Rightarrow> 'i program \<Rightarrow> mode \<Rightarrow> (host_error + outcome) option" where
  "run_mode lab uw rng exe mutant mode = (case mode of
     MNearfull \<Rightarrow> bindO (run_nearfull lab uw exe) (\<lambda>r. Some (Inr (passed r)))
   | MHoles \<Rightarrow> bindO (run_holes lab uw exe) (\<lambda>r. Some (Inr (passed r)))
   | MEq ops \<Rightarrow> bindO (run_eq lab exe ops) (\<lambda>r. Some (Inr (passed r)))
   | MCampaign seeds ops every first \<Rightarrow>
       bindO (campaign lab uw rng exe seeds ops every first) (\<lambda>(failure, checks).
       case failure of Some x \<Rightarrow> Some (Inr (1, HFailure x))
       | None \<Rightarrow> Some (Inr (passed (report_pass (u ''ext2-host campaign'')
           (str_nat seeds @ u '' seeds x '' @ str_nat ops @ u '' operations, '' @ str_nat checks
             @ u '' checkpoints fsck-clean and equal to host Linux'')
           [(u ''checkpoints'', int checks)]))))
   | MReplay seed len \<Rightarrow> replay_mode lab uw rng exe seed len
   | MFaults seeds ops first torn \<Rightarrow>
       bindO (run_faults lab uw rng exe seeds ops first [u ''reject'']) (\<lambda>(checked, failures).
       if failures \<noteq> [] then Some (Inr (1, HFailures (take 20 failures)))
       else bindO (if torn then run_faults lab uw rng exe seeds ops first [u ''torn''] else Some (Inr (0, []))) (\<lambda>_.
         Some (Inr (passed (report_pass (u ''ext2-host faults'')
           (str_nat checked @ u '' failed writes (rejected) across '' @ str_nat seeds @ u '' x '' @ str_nat ops
             @ u '' operations: each failed its operation and left the image fsck-clean and as before ''
             @ u ''(after ext2_recover where it fenced)'')
           [(u ''failed_writes'', int checked)])))))
   | MHostile images first \<Rightarrow>
       bindO (Some (run_hostile lab rng exe images first)) (\<lambda>(walked, refused, failures).
       if failures \<noteq> [] then Some (Inr (1, HFailures (take 20 failures)))
       else Some (Inr (passed (report_pass (u ''ext2-host hostile'')
         (str_nat images @ u '' corrupted images: '' @ str_nat walked @ u '' walked to the end, '' @ str_nat refused
           @ u '' refused at mount, none stopped'')
         [(u ''walked'', int walked)]))))
   | MControl seeds ops every \<Rightarrow> bindO (run_control lab uw rng mutant seeds ops every) (\<lambda>r. Some (Inr (passed r))))"

text \<open>\<open>HostError\<close> and \<open>EqError\<close> are reported with the status 1; another exception escapes.\<close>

definition host_main ::
  "('i, 'f) lab \<Rightarrow> (nat \<Rightarrow> bool) \<Rightarrow> 'r rng \<Rightarrow> 'i program \<Rightarrow> 'i program \<Rightarrow> mode \<Rightarrow> (py_error + outcome) option" where
  "host_main lab uw rng exe mutant mode = (case run_mode lab uw rng exe mutant mode of
     None \<Rightarrow> None
   | Some (Inr x) \<Rightarrow> Some (Inr x)
   | Some (Inl (HostRaised e)) \<Rightarrow> Some (Inl e)
   | Some (Inl e) \<Rightarrow> Some (Inr (1, HError e)))"

end
