(* ===== verification/Ext2_Rows_Facts.thy ===== *)
theory Ext2_Rows_Facts
  imports Ext2_Rows
begin

section \<open>What the ext2 rows guarantee\<close>

text \<open>
  About the definitions of \<open>Ext2_Rows\<close>: the rows the parser accepts are well formed
  (\<open>rows\<close> is its loop invariant) and always have a shell script, and every argument is
  made of characters the shell does not interpret.
\<close>

subsection \<open>What the patterns accept\<close>

definition name_char :: "nat \<Rightarrow> bool" where
  "name_char c \<longleftrightarrow> (65 \<le> c \<and> c \<le> 90) \<or> (97 \<le> c \<and> c \<le> 122) \<or> (48 \<le> c \<and> c \<le> 57) \<or> c = 95 \<or> c = 46 \<or> c = 45"

definition path_char :: "nat \<Rightarrow> bool" where
  "path_char c \<longleftrightarrow> name_char c \<or> c = 47"

lemma name_chars_has [simp]: "list_ex (citem_has uw c) name_chars \<longleftrightarrow> name_char c"
  by (auto simp: name_chars_def name_char_def)

text \<open>A match anchored at the end is the whole text, or all of it but a final line feed.\<close>

lemma match_to_end:
  assumes "re_match uw (Seq r (Seq EndLF Eps)) s \<noteq> None" and "only uw r P" and "10 \<notin> set s"
  shows "list_all P s"
proof -
  from assms(1) obtain m where "m \<in> set (matches uw (Seq r (Seq EndLF Eps)) ([], s, []))"
    unfolding re_match_some by blast
  then have m: "m \<in> set (matches uw r ([], s, []))" "fst (snd m) = [] \<or> fst (snd m) = [10]"
    by (auto split: if_splits)
  from matches_only [OF m(1) assms(2)] obtain w where "s = w @ fst (snd m)" "list_all P w"
    by (auto simp: consumes_def)
  with m(2) assms(3) show ?thesis by auto
qed

lemma re_match_assoc: "re_match uw (Seq a (Seq b r)) s = None \<longleftrightarrow> re_match uw (Seq (Seq a b) r) s = None"
  by (simp only: re_match_def match_at_def matches_seq_assoc)

lemma text_re_safe:
  assumes "re_match no_words TEXT_RE s \<noteq> None" and "10 \<notin> set s"
  shows "list_all name_char s"
proof (rule match_to_end)
  show "re_match no_words (Seq (Seq Start (Plus (Chr (Of name_chars)))) (Seq EndLF Eps)) s \<noteq> None"
    using assms(1) by (simp add: TEXT_RE_def seqs_def re_match_assoc)
qed (simp_all add: Plus_def assms)

lemma name_re_safe:
  assumes "re_match no_words NAME_RE s \<noteq> None" and "10 \<notin> set s"
  shows "list_all path_char s"
proof (rule match_to_end)
  show "re_match no_words (Seq (Seq (Seq Start (Plus (Chr (Of name_chars))))
      (Star (Group 1 (Seq (Chr (Of [One 47])) (Plus (Chr (Of name_chars))))))) (Seq EndLF Eps)) s \<noteq> None"
    using assms(1) by (simp add: NAME_RE_def seqs_def re_match_assoc)
qed (simp_all add: Plus_def assms path_char_def)

lemma count_re_digits:
  assumes "re_fullmatch no_words COUNT_RE s \<noteq> None"
  shows "s \<noteq> [] \<and> length s \<le> 4 \<and> list_all (\<lambda>c. 48 \<le> c \<and> c \<le> 57) s"
proof -
  let ?d = "Chr (Of [Span 48 57])"
  from assms obtain m where m: "m \<in> set (matches no_words COUNT_RE ([], s, []))" "rest m = 0"
    unfolding re_fullmatch_some by blast
  have "only no_words COUNT_RE (\<lambda>c. 48 \<le> c \<and> c \<le> 57)"
    by (simp add: COUNT_RE_def Repeat_def Opt_def seqs_def numeral_eq_Suc)
  from matches_only [OF m(1) this] m(2) have "list_all (\<lambda>c. 48 \<le> c \<and> c \<le> 57) s"
    by (auto simp: consumes_def rest_def)
  moreover from m(1) obtain c cs where "s = c # cs" "m \<in> set (matches no_words (upto_times 3 ?d) ([c], cs, []))"
    by (auto simp: COUNT_RE_def Repeat_def seqs_def split: list.splits if_splits)
  with matches_upto_times [of m no_words 3 "Of [Span 48 57]" "([c], cs, [])"] m(2)
  have "s \<noteq> [] \<and> length s \<le> 4" by (simp add: rest_def)
  ultimately show ?thesis by simp
qed

subsection \<open>Well-formed rows\<close>

fun arg_ok :: "pstr \<Rightarrow> arg_kind \<Rightarrow> pstr \<Rightarrow> bool" where
  "arg_ok name KPath arg \<longleftrightarrow> list_all path_char arg \<and> under name arg"
| "arg_ok name KText arg \<longleftrightarrow> list_all name_char arg"
| "arg_ok name KCount arg \<longleftrightarrow> arg \<noteq> [] \<and> length arg \<le> 4 \<and> list_all (\<lambda>c. 48 \<le> c \<and> c \<le> 57) arg"

fun op_ok :: "pstr \<Rightarrow> eq_op \<Rightarrow> bool" where
  "op_ok name (_, op, args) \<longleftrightarrow> (case map_of OPS op of None \<Rightarrow> False
     | Some (kinds, _) \<Rightarrow> list_all2 (arg_ok name) kinds args)
     \<and> (op = u ''fill'' \<longrightarrow> (case py_int (args ! 1) of Inl _ \<Rightarrow> False | Inr n \<Rightarrow> n \<le> FILL_MAX))"

definition row_ok :: "row \<Rightarrow> bool" where
  "row_ok r \<longleftrightarrow> list_all name_char (r_name r) \<and> r_expect r \<in> {u ''match'', u ''differ''} \<and> list_all (op_ok (r_name r)) (r_ops r)"

definition adopts :: "row list \<Rightarrow> eq_op list" where
  "adopts rows = filter (\<lambda>(_, op, _). op = u ''adopt'') (concat (map r_ops rows))"

definition rows_wf :: "row list \<Rightarrow> bool" where
  "rows_wf rows \<longleftrightarrow> distinct (map r_name rows) \<and> list_all row_ok rows \<and> length (adopts rows) \<le> 1"

lemma adopted_adopts: "adopted rows \<longleftrightarrow> adopts rows \<noteq> []"
  by (auto simp: adopted_def adopts_def filter_empty_conv list_ex_iff)

lemma check_arg_ok:
  assumes "check_arg n name (kind, arg) = Inr ()" and "list_all (\<lambda>c. \<not> isspace_char c) arg"
  shows "arg_ok name kind arg"
proof -
  have "isspace_char 10" by (simp add: isspace_char_def)
  with assms(2) have nl: "10 \<notin> set arg" by (auto simp: list_all_iff)
  show ?thesis
  proof (cases kind)
    case KPath
    with assms(1) have "re_match no_words NAME_RE arg \<noteq> None" "under name arg"
      by (auto simp: check_arg_def split: if_splits)
    with name_re_safe [OF _ nl] KPath show ?thesis by simp
  next
    case KText
    with assms(1) have "re_match no_words TEXT_RE arg \<noteq> None" by (auto simp: check_arg_def split: if_splits)
    with text_re_safe [OF _ nl] KText show ?thesis by simp
  next
    case KCount
    with assms(1) have "re_fullmatch no_words COUNT_RE arg \<noteq> None" by (auto simp: check_arg_def split: if_splits)
    with count_re_digits KCount show ?thesis by simp
  qed
qed

lemma add_row_wf:
  assumes "rows_wf rows" and "add_row n words rows = Inr rows'"
    and "\<And>w. w \<in> set words \<Longrightarrow> list_all (\<lambda>c. \<not> isspace_char c) w"
  shows "rows_wf rows'"
proof -
  have len: "length words = 4" and w: "words ! 2 \<in> {u ''match'', u ''differ''}" "re_match no_words TEXT_RE (words ! 1) \<noteq> None"
    and new: "words ! 1 \<notin> set (map r_name rows)"
    and rows': "rows' = rows @ [\<lparr>r_name = words ! 1, r_expect = words ! 2, r_issue = words ! 3, r_ops = []\<rparr>]"
    using assms(2) by (auto simp: add_row_def list_ex_iff split: if_splits)
  have "isspace_char 10" by (simp add: isspace_char_def)
  then have "10 \<notin> set (words ! 1)" using assms(3) [of "words ! 1"] len by (auto simp: list_all_iff)
  then have "list_all name_char (words ! 1)" using w(2) text_re_safe by blast
  with assms(1) w(1) new show ?thesis by (auto simp: rows' rows_wf_def row_ok_def adopts_def)
qed

lemma add_op_wf:
  assumes "rows_wf rows" and "add_op n op args rows = Inr rows'"
    and "\<And>w. w \<in> set args \<Longrightarrow> list_all (\<lambda>c. \<not> isspace_char c) w"
  shows "rows_wf rows'"
proof -
  from assms(2) obtain kinds template where ne: "rows \<noteq> []" and op: "map_of OPS op = Some (kinds, template)"
    by (auto simp: add_op_def split: if_splits option.splits)
  then obtain rs r where rows: "rows = rs @ [r]" by (metis append_butlast_last_id)
  obtain us kib where len: "length args = length kinds"
    and us: "mapM (check_arg n (r_name r)) (zip kinds args) = Inr us"
    and fill: "op = u ''fill'' \<Longrightarrow> py_int (args ! 1) = Inr kib \<and> kib \<le> FILL_MAX"
    and adopt: "\<not> (op = u ''adopt'' \<and> adopted rows)"
    and rows': "rows' = rs @ [r\<lparr>r_ops := r_ops r @ [(n, op, args)]\<rparr>]"
    using assms(2) op by (auto simp: rows add_op_def raised_def split: if_splits sum.splits)
  have "list_all2 (arg_ok (r_name r)) kinds args"
  proof (rule list_all2_all_nthI)
    show "length kinds = length args" using len by simp
    fix i assume i: "i < length kinds"
    have "list_all2 (\<lambda>x y. check_arg n (r_name r) x = Inr y) (zip kinds args) us"
      using us by (simp add: mapM_Inr_iff)
    then have "check_arg n (r_name r) (kinds ! i, args ! i) = Inr ()"
      using i len by (auto simp: list_all2_conv_all_nth)
    then show "arg_ok (r_name r) (kinds ! i) (args ! i)"
      using assms(3) [of "args ! i"] i len by (intro check_arg_ok) simp_all
  qed
  then have op_ok: "op_ok (r_name r) (n, op, args)" using op fill by auto
  have "adopts rows' = adopts rows @ filter (\<lambda>(_, op, _). op = u ''adopt'') [(n, op, args)]"
    by (simp add: rows rows' adopts_def)
  then have "length (adopts rows') \<le> 1" using assms(1) adopt adopted_adopts [of rows]
    by (auto simp: rows_wf_def)
  with assms(1) op_ok show ?thesis by (auto simp: rows rows' rows_wf_def row_ok_def)
qed

lemma parse_line_wf:
  assumes "rows_wf rows" and "parse_line rows l = Inr rows'"
  shows "rows_wf rows'"
proof -
  obtain n raw where l: "l = (n, raw)" by (cases l)
  let ?words = "split_ws (strip_ws raw)"
  have words: "list_all (\<lambda>c. \<not> isspace_char c) w" if "w \<in> set ?words" for w using split_ws_words that by blast
  have tl: "w \<in> set ?words" if "w \<in> set (tl ?words)" for w using that by (cases ?words) auto
  have "rows' = rows \<or> add_row n ?words rows = Inr rows' \<or> add_op n (hd ?words) (tl ?words) rows = Inr rows'"
    using assms(2) by (simp add: l parse_line_def Let_def split: if_splits)
  then show ?thesis
    using add_row_wf [OF assms(1) _ words] add_op_wf [OF assms(1) _ words [OF tl]] assms(1) by metis
qed

interpretation rows: step_invariant parse_line rows_wf
  by unfold_locales (rule parse_line_wf)

lemma parse_wf:
  assumes "parse text = Inr rows"
  shows "rows_wf rows \<and> rows \<noteq> []"
proof -
  from assms have run: "foldM parse_line [] (zip [1..<Suc (length (splitlines text))] (splitlines text)) = Inr rows"
    and "rows \<noteq> []" by (auto simp: parse_def split: if_splits)
  moreover have "rows_wf rows" by (rule rows.foldM_inv [OF _ run]) (simp add: rows_wf_def adopts_def)
  ultimately show ?thesis by simp
qed

text \<open>Every operation of the table has a shell form.\<close>

lemma op_lines_some:
  assumes "op_ok name p"
  shows "op_lines step p \<noteq> None"
proof -
  obtain n op args where p: "p = (n, op, args)" by (cases p)
  with assms have "map_of OPS op \<noteq> None" by (cases "map_of OPS op") auto
  then have "op \<in> fst ` set OPS" by (simp add: map_of_eq_None_iff)
  then show ?thesis unfolding p op_lines_def OPS_def by (auto simp: Let_def)
qed

lemma all_lines_some: "list_all (op_ok name) ps \<Longrightarrow> all_lines step ps \<noteq> None"
  by (induction ps arbitrary: step) (auto dest: op_lines_some split: option.splits)

lemma rows_lines_some: "list_all row_ok rows \<Longrightarrow> rows_lines rows \<noteq> None"
proof (induction rows)
  case (Cons r rows)
  then show ?case using all_lines_some [of "r_name r" "r_ops r" 1] by (auto simp: row_ok_def split: option.splits)
qed simp


text \<open>
  A path is only compared by its prefix, so one that leaves its row through \<open>..\<close> is
  accepted as a path under the row.
\<close>

lemmas pattern_eval = re_match_def re_fullmatch_def match_at_def first_match_def consumed_def TEXT_RE_def NAME_RE_def
  ISSUE_RE_def COUNT_RE_def seqs_def Plus_def matches.simps(5) name_chars_def rest_def

definition sample_rows :: pstr where
  "sample_rows = u ''row a match -'' @ [10] @ u ''mkdir a/../b''"

lemma sample_lines: "splitlines sample_rows = [u ''row a match -'', u ''mkdir a/../b'']"
  by (simp add: sample_rows_def splitlines_def line_break_def u_def)

lemma sample_line_1:
  "parse_line [] (1, u ''row a match -'') = Inr [\<lparr>r_name = u ''a'', r_expect = u ''match'', r_issue = u ''-'', r_ops = []\<rparr>]"
  by (simp add: parse_line_def add_row_def strip_ws_def text_eval pattern_eval Let_def)

lemma sample_line_2:
  "parse_line [\<lparr>r_name = u ''a'', r_expect = u ''match'', r_issue = u ''-'', r_ops = []\<rparr>] (2, u ''mkdir a/../b'')
   = Inr [\<lparr>r_name = u ''a'', r_expect = u ''match'', r_issue = u ''-'', r_ops = [(2, u ''mkdir'', [u ''a/../b''])]\<rparr>]"
  by (simp add: parse_line_def add_op_def check_arg_def under_def OPS_def strip_ws_def text_eval pattern_eval Let_def)

lemma dotdot_accepted:
  "parse sample_rows
    = Inr [\<lparr>r_name = u ''a'', r_expect = u ''match'', r_issue = u ''-'', r_ops = [(2, u ''mkdir'', [u ''a/../b''])]\<rparr>]"
proof -
  have "[1..<Suc (length (splitlines sample_rows))] = [1, 2]" by (simp add: sample_lines upt_rec)
  then show ?thesis unfolding parse_def
    by (simp only: sample_lines zip_Cons_Cons zip_Nil foldM.simps sample_line_1 sample_line_2 bindR_simps) simp
qed


end
