(* ===== verification/Ext2_Compare_Facts.thy ===== *)
theory Ext2_Compare_Facts
  imports Ext2_Compare Ext2_Rows_Facts
begin

section \<open>What a comparison shows\<close>

text \<open>
  The walk of an image returns on every directory tree of finite depth with all of its
  directories, a log reads back row by row, and \<open>compare\<close> prints PASS exactly when each
  row agrees or differs as its table line says and the counters of both images add up.
\<close>

subsection \<open>The walk\<close>

text \<open>The directories of an image end below the given ones after \<open>n\<close> levels, each one listed.\<close>

primrec levels_end :: "'i tools \<Rightarrow> 'i \<Rightarrow> nat \<Rightarrow> pstr list \<Rightarrow> bool" where
  "levels_end t img 0 ds \<longleftrightarrow> ds = []"
| "levels_end t img (Suc n) ds \<longleftrightarrow> ds = [] \<or> (case listing t img ds of Inl _ \<Rightarrow> False
     | Inr found \<Rightarrow> set (map fst found) = set ds \<and> levels_end t img n (subdirectories found))"

definition child :: "pstr \<Rightarrow> pstr \<Rightarrow> pstr" where
  "child d name = rstrip [47] d @ [47] @ name"

text \<open>Every subdirectory of a walked directory is walked.\<close>

definition closed_tree :: "dirs \<Rightarrow> pstr list \<Rightarrow> bool" where
  "closed_tree tree pending \<longleftrightarrow> (\<forall>d es name inode mode sz. map_of tree d = Some es \<longrightarrow>
     (name, inode, mode, sz) \<in> set es \<longrightarrow> s_isdir mode \<longrightarrow> child d name \<in> fst ` set tree \<union> set pending)"

lemma map_of_update_all:
  "map_of (update_all old new) = map_of old ++ map_of (rev new)"
  by (induction new arbitrary: old rule: rev_induct) (auto simp: update_all_def update_conv' fun_eq_iff map_add_def)

lemma dom_update_all [simp]: "fst ` set (update_all old new) = fst ` set old \<union> fst ` set new"
  by (simp flip: dom_map_of_conv_image_fst add: map_of_update_all) (simp add: dom_map_of_conv_image_fst Un_commute)

lemma subdirectories_mem:
  "set (subdirectories found) = {child d name |d es name inode mode sz. (d, es) \<in> set found
     \<and> (name, inode, mode, sz) \<in> set es \<and> s_isdir mode}"
  by (force simp: subdirectories_def child_def)

lemma walk_loop_returns:
  assumes "levels_end t img n pending" "closed_tree tree pending"
  shows "\<exists>full. walk_loop t img tree pending = Some (Inr full) \<and> closed_tree full []
    \<and> fst ` set tree \<union> set pending \<subseteq> fst ` set full"
  using assms
proof (induction n arbitrary: tree pending)
  case 0
  then show ?case by (auto simp: walk_loop.simps)
next
  case (Suc n)
  show ?case
  proof (cases "pending = []")
    case True
    with Suc.prems show ?thesis by (auto simp: walk_loop.simps)
  next
    case False
    with Suc.prems obtain found where found: "listing t img pending = Inr found"
        "fst ` set found = set pending" "levels_end t img n (subdirectories found)"
      by (auto split: sum.splits)
    have "closed_tree (update_all tree found) (subdirectories found)"
      unfolding closed_tree_def
    proof (intro allI impI)
      fix d es name inode mode sz
      assume m: "map_of (update_all tree found) d = Some es" "(name, inode, mode, sz) \<in> set es" "s_isdir mode"
      show "child d name \<in> fst ` set (update_all tree found) \<union> set (subdirectories found)"
      proof (cases "map_of (rev found) d")
        case None
        with m have "map_of tree d = Some es" by (simp add: map_of_update_all map_add_def)
        with m Suc.prems(2) have "child d name \<in> fst ` set tree \<union> set pending"
          unfolding closed_tree_def by blast
        with found(2) show ?thesis by auto
      next
        case (Some es')
        with m have "(d, es) \<in> set found" by (auto simp: map_of_update_all map_add_def dest: map_of_SomeD)
        with m(2,3) have "child d name \<in> set (subdirectories found)"
          unfolding subdirectories_mem by blast
        then show ?thesis by simp
      qed
    qed
    from Suc.IH [OF found(3) this] obtain full where "walk_loop t img (update_all tree found) (subdirectories found) = Some (Inr full)"
        "closed_tree full []" "fst ` set (update_all tree found) \<union> set (subdirectories found) \<subseteq> fst ` set full"
      by blast
    with False found show ?thesis
      by (subst walk_loop.simps) auto
  qed
qed


text \<open>An image with one directory under the root, as \<open>debugfs\<close> prints it.\<close>

definition sample_debugfs :: "unit \<Rightarrow> pstr list \<Rightarrow> eq_error + pstr" where
  "sample_debugfs img cs =
     (if cs = [u ''ls -p \"/\"''] then Inr (u ''debugfs: ls -p /'' @ [10] @ u ''/2/40755/0/0/./1/'' @ [10] @ u ''/9/40755/0/0/d/1/'' @ [10])
      else if cs = [u ''ls -p \"/d\"''] then Inr (u ''debugfs: ls -p /d'' @ [10] @ u ''/7/100644/0/0/f/3/'' @ [10])
      else Inl (EqTool []))"

definition sample_tools :: "unit tools" where
  "sample_tools = \<lparr>t_debugfs = sample_debugfs, t_dump = (\<lambda>_ _. Inl (EqTool [])), t_dumpe2fs = (\<lambda>_. Inl (EqTool []))\<rparr>"

lemmas scan_eval = matches_lit matches_star_chars pieces.simps re_split_def splitlines_def line_break_def

lemma sample_sections:
  "re_split no_words LS_SECTION (u ''debugfs: ls -p /'' @ [10] @ u ''/2/40755/0/0/./1/'' @ [10] @ u ''/9/40755/0/0/d/1/'' @ [10])
    = [[], [10] @ u ''/2/40755/0/0/./1/'' @ [10] @ u ''/9/40755/0/0/d/1/'' @ [10]]"
  "re_split no_words LS_SECTION (u ''debugfs: ls -p /d'' @ [10] @ u ''/7/100644/0/0/f/3/'' @ [10])
    = [[], [10] @ u ''/7/100644/0/0/f/3/'' @ [10]]"
  by (simp_all add: LS_SECTION_def scan_eval text_eval pattern_eval del: matches.simps(5))

lemma sample_entries:
  "ls_entry [] (u ''/2/40755/0/0/./1/'') = Inr []"
  "ls_entry [] (u ''/9/40755/0/0/d/1/'') = Inr [(u ''d'', (9, 16877, 1))]"
  "ls_entry [] (u ''/7/100644/0/0/f/3/'') = Inr [(u ''f'', (7, 33188, 3))]"
  by (simp_all add: ls_entry_def LS_RE_def slash_def strip_ws_def text_eval pattern_eval scan_eval group_text_def group_def Let_def py_oct_def
       int_or_zero_def upt_rec del: matches.simps(5))

lemma sample_listings:
  "listing sample_tools () [u ''/''] = Inr [(u ''/'', [(u ''d'', (9, 16877, 1))])]"
  "listing sample_tools () [u ''/d''] = Inr [(u ''/d'', [(u ''f'', (7, 33188, 3))])]"
proof -
  have lines: "splitlines ([10] @ u ''/2/40755/0/0/./1/'' @ [10] @ u ''/9/40755/0/0/d/1/'' @ [10])
      = [[], u ''/2/40755/0/0/./1/'', u ''/9/40755/0/0/d/1/'']"
    "splitlines ([10] @ u ''/7/100644/0/0/f/3/'' @ [10]) = [[], u ''/7/100644/0/0/f/3/'']"
    by (simp_all add: splitlines_def line_break_def u_def)
  have blank: "ls_entry es [] = Inr es" for es
    by (simp add: ls_entry_def LS_RE_def slash_def strip_ws_def pattern_eval)
  have cmd: "map (\<lambda>d. u ''ls -p \"'' @ d @ u ''\"'') [u ''/''] = [u ''ls -p \"/\"'']"
    "map (\<lambda>d. u ''ls -p \"'' @ d @ u ''\"'') [u ''/d''] = [u ''ls -p \"/d\"'']"
    "[u ''ls -p \"/d\"''] \<noteq> [u ''ls -p \"/\"'']"
    by (simp_all add: u_def)
  show "listing sample_tools () [u ''/''] = Inr [(u ''/'', [(u ''d'', (9, 16877, 1))])]"
    "listing sample_tools () [u ''/d''] = Inr [(u ''/d'', [(u ''f'', (7, 33188, 3))])]"
    unfolding listing_def cmd
    by (simp_all only: sample_tools_def sample_debugfs_def tools.simps if_True if_False cmd bindR_simps sample_sections
        Let_def list.sel zip.simps list.case foldM.simps prod.case lines blank sample_entries AList.update.simps refl)
qed


subsection \<open>Logs\<close>

text \<open>The log of the rows, as the generated script prints it.\<close>

definition log_lines :: "(pstr \<times> pstr list) list \<Rightarrow> pstr list" where
  "log_lines rows = concat (map (\<lambda>(name, ls). (u ''row '' @ name) # ls) rows) @ [u ''eq done'']"

definition log_text :: "pstr list \<Rightarrow> pstr" where
  "log_text ls = concat (map (\<lambda>l. l @ [10]) ls)"

definition plain_line :: "pstr \<Rightarrow> bool" where
  "plain_line l \<longleftrightarrow> list_all (\<lambda>c. \<not> line_break c) l"

definition op_line :: "pstr \<Rightarrow> bool" where
  "op_line l \<longleftrightarrow> plain_line l \<and> \<not> startswith l (u ''row '') \<and> l \<noteq> u ''eq done''"

lemma plain_line_simps [simp]:
  "plain_line (a @ b) \<longleftrightarrow> plain_line a \<and> plain_line b" "plain_line (u ''row '')" "plain_line (u ''eq done'')"
  by (simp_all add: plain_line_def u_def line_break_def)

lemma splitlines_loop_plain:
  "plain_line l \<Longrightarrow> splitlines_loop cur (l @ 10 # after) = (cur @ l) # splitlines_loop [] after"
proof (induction l arbitrary: cur)
  case Nil
  then show ?case by (cases after) (auto simp: line_break_def)
next
  case (Cons c l)
  then have "splitlines_loop cur (c # l @ 10 # after) = splitlines_loop (cur @ [c]) (l @ 10 # after)"
    by (cases l) (auto simp: plain_line_def line_break_def)
  with Cons show ?case by (simp add: plain_line_def)
qed

lemma splitlines_log_text: "list_all plain_line ls \<Longrightarrow> splitlines (log_text ls) = ls"
proof (induction ls)
  case (Cons l ls)
  then show ?case by (simp add: splitlines_def log_text_def splitlines_loop_plain)
qed (simp add: splitlines_def log_text_def)

lemma split_op_lines:
  "list_all op_line ls \<Longrightarrow> rows c = Some old \<Longrightarrow>
   foldl split_line (rows, Some c) ls = (rows(c \<mapsto> old @ ls), Some c)"
proof (induction ls arbitrary: rows old)
  case (Cons l ls)
  then have "split_line (rows, Some c) l = (rows(c \<mapsto> old @ [l]), Some c)"
    by (simp add: split_line_def op_line_def)
  with Cons.IH [of "rows(c \<mapsto> old @ [l])" "old @ [l]"] Cons.prems show ?case by (simp del: fun_upd_apply add: fun_upd_same)
qed (simp add: fun_upd_idem)

lemma split_row_lines:
  assumes "list_all op_line ls"
  shows "foldl split_line (rows, cur) ((u ''row '' @ name) # ls) = (rows(name \<mapsto> ls), Some name)"
proof -
  have "split_line (rows, cur) (u ''row '' @ name) = (rows(name \<mapsto> []), Some name)"
    by (simp add: split_line_def startswith_def)
  then show ?thesis using split_op_lines [OF assms, of "rows(name \<mapsto> [])" name "[]"] by simp
qed

lemma split_rows:
  "list_all (\<lambda>(_, ls). list_all op_line ls) rows \<Longrightarrow>
   \<exists>cur'. foldl split_line (m, cur) (concat (map (\<lambda>(name, ls). (u ''row '' @ name) # ls) rows))
     = (m ++ map_of (rev rows), cur')"
proof (induction rows arbitrary: m cur)
  case (Cons r rows)
  obtain name ls where r: "r = (name, ls)" by (cases r)
  have "foldl split_line (m, cur) (concat (map (\<lambda>(name, ls). (u ''row '' @ name) # ls) (r # rows)))
      = foldl split_line (m(name \<mapsto> ls), Some name) (concat (map (\<lambda>(name, ls). (u ''row '' @ name) # ls) rows))"
    (is "?l = _")
  proof -
    have "?l = foldl split_line (foldl split_line (m, cur) ((u ''row '' @ name) # ls))
        (concat (map (\<lambda>(name, ls). (u ''row '' @ name) # ls) rows))"
      by (simp add: r)
    moreover have "list_all op_line ls" using Cons.prems by (simp add: r)
    ultimately show ?thesis by (simp only: split_row_lines)
  qed
  then show ?case using Cons.IH [of "m(name \<mapsto> ls)" "Some name"] Cons.prems
    by (simp add: r del: fun_upd_apply foldl_Cons)
qed simp

text \<open>
  (C29) A log reads back: for rows with distinct names, the log that prints each row's
  heading, the lines of its operations and the final \<open>eq done\<close> splits into exactly the
  rows and their lines.
\<close>

theorem log_reads_back:
  assumes "distinct (map fst rows)" "list_all (\<lambda>(name, ls). plain_line name \<and> list_all op_line ls) rows"
  shows "split_log (log_text (log_lines rows)) = map_of rows
    \<and> u ''eq done'' \<in> set (splitlines (log_text (log_lines rows)))"
proof -
  have "list_all plain_line (log_lines rows)"
    using assms(2) by (fastforce simp: log_lines_def list_all_iff op_line_def)
  then have lines: "splitlines (log_text (log_lines rows)) = log_lines rows" by (rule splitlines_log_text)
  from assms(2) have "list_all (\<lambda>(_, ls). list_all op_line ls) rows" by (auto simp: list_all_iff)
  from split_rows [OF this, of Map.empty None] obtain cur where
    "foldl split_line (Map.empty, None) (concat (map (\<lambda>(name, ls). (u ''row '' @ name) # ls) rows)) = (map_of (rev rows), cur)"
    by auto
  moreover have "split_line (m, cur) (u ''eq done'') = (m, None)" for m
    by (simp add: split_line_def startswith_def u_def)
  moreover have "map_of (rev rows) = map_of rows"
    using assms(1) by (subst map_of_inject_set) (simp_all add: rev_map [symmetric])
  ultimately show ?thesis
    unfolding split_log_def lines by (simp add: log_lines_def)
qed

theorem log_reads_back_witness:
  "distinct (map fst [(u ''a'', [u ''1 mkdir a -> 0'', u ''  a dir'']), (u ''b'', [])])
   \<and> list_all (\<lambda>(name, ls). plain_line name \<and> list_all op_line ls) [(u ''a'', [u ''1 mkdir a -> 0'', u ''  a dir'']), (u ''b'', [])]
   \<and> split_log (log_text (log_lines [(u ''a'', [u ''1 mkdir a -> 0'', u ''  a dir'']), (u ''b'', [])])) (u ''a'')
      = Some [u ''1 mkdir a -> 0'', u ''  a dir'']"
proof -
  have d: "distinct (map fst [(u ''a'', [u ''1 mkdir a -> 0'', u ''  a dir'']), (u ''b'', [])])" by simp
  have l: "list_all (\<lambda>(name, ls). plain_line name \<and> list_all op_line ls)
      [(u ''a'', [u ''1 mkdir a -> 0'', u ''  a dir'']), (u ''b'', [])]"
    by (simp add: plain_line_def op_line_def u_def line_break_def startswith_def)
  show ?thesis using log_reads_back [OF d l] d l by simp
qed

subsection \<open>Verdicts\<close>

text \<open>The two sides agree on a row: the same log lines, and the same facts of every path under it.\<close>

definition row_agrees :: "pstr \<Rightarrow> files \<Rightarrow> files \<Rightarrow> log \<Rightarrow> log \<Rightarrow> bool" where
  "row_agrees name kf hf kl hl \<longleftrightarrow> kl name = hl name
     \<and> (\<forall>p. under ([47] @ ROOT @ [47] @ name) p \<longrightarrow> map_of kf p = map_of hf p)"

lemma row_differences_empty: "row_differences name kf hf kl hl = [] \<longleftrightarrow> row_agrees name kf hf kl hl"
proof -
  have "map_of kf p = map_of hf p" if "p \<notin> fst ` set kf" "p \<notin> fst ` set hf" for p
    using that by (simp add: map_of_eq_None_iff [THEN iffD2])
  then show ?thesis
    by (auto simp: row_differences_def row_agrees_def Let_def filter_empty_conv)
qed

definition expected_outcome :: "bool \<Rightarrow> pstr" where
  "expected_outcome agrees = (if agrees then u ''match'' else u ''differ'')"

lemma judge_rows:
  "foldl (judge_row kf hf kl hl) (failures, table) rows =
     (failures @ map r_name (filter (\<lambda>r. expected_outcome (row_agrees (r_name r) kf hf kl hl) \<noteq> r_expect r) rows),
      table @ map (\<lambda>r. (r_name r, r_issue r, r_expect r, expected_outcome (row_agrees (r_name r) kf hf kl hl),
        row_differences (r_name r) kf hf kl hl)) rows)"
  by (induction rows arbitrary: failures table)
    (auto simp: judge_row_def outcome_of_def expected_outcome_def row_differences_empty Let_def)

text \<open>Every row turned out as recorded, the counters of each image agree, and free and used sum to the same.\<close>

definition all_as_recorded ::
  "row list \<Rightarrow> files \<times> counts_t \<times> int \<times> int \<Rightarrow> files \<times> counts_t \<times> int \<times> int \<Rightarrow> log \<Rightarrow> log \<Rightarrow> bool" where
  "all_as_recorded rows k h kl hl \<longleftrightarrow> (case (k, h) of ((kf, kc, kreach, kinodes), (hf, hc, hreach, hinodes)) \<Rightarrow>
     list_all (\<lambda>r. r_expect r = expected_outcome (row_agrees (r_name r) kf hf kl hl)) rows
     \<and> counters_agree kc \<and> counters_agree hc
     \<and> bitmap_blocks kc + kreach = bitmap_blocks hc + hreach
     \<and> bitmap_inodes kc + kinodes = bitmap_inodes hc + hinodes)"

lemma judge_failures: "fst (judge rows k h kl hl) = [] \<longleftrightarrow> all_as_recorded rows k h kl hl"
proof -
  obtain kf kc kreach kinodes where k: "k = (kf, kc, kreach, kinodes)" by (metis surj_pair)
  obtain hf hc hreach hinodes where h: "h = (hf, hc, hreach, hinodes)" by (metis surj_pair)
  show ?thesis
    by (auto simp: judge_def k h judge_rows judge_counters_def all_as_recorded_def Let_def filter_empty_conv list_all_iff
        split: if_splits)
qed

text \<open>
  (C26) \<open>compare\<close> prints PASS exactly when both images can be read, the kernel's log has its
  end, there is a row and a path, every row that agrees is recorded as \<open>match\<close> and every
  row that differs as \<open>differ\<close>, the three free counts of each image agree, and free and
  reachable blocks and inodes sum to the same in both.
\<close>

theorem compare_passes_iff:
  "(\<exists>out msg. compare t rows expected_log ki hi = Some (out, Inr (Pass msg))) \<longleftrightarrow>
     (\<exists>k h log_out. snapshot t ki = Some (Inr k) \<and> snapshot t hi = Some (Inr h)
        \<and> t_debugfs t ki [u ''cat /eq-log''] = Inr log_out \<and> u ''eq done'' \<in> set (splitlines log_out)
        \<and> rows \<noteq> [] \<and> fst k \<noteq> [] \<and> all_as_recorded rows k h (split_log log_out) (split_log expected_log))"
proof -
  have fin: "(\<exists>out msg. finish rows fs v = (out, Inr (Pass msg))) \<longleftrightarrow> fst v = [] \<and> rows \<noteq> [] \<and> fs \<noteq> []" for fs v
    by (cases v) (auto simp: finish_def report_pass_def empty_counts_def)
  show ?thesis
  proof (cases "\<exists>k h log_out. snapshot t ki = Some (Inr k) \<and> snapshot t hi = Some (Inr h)
        \<and> t_debugfs t ki [u ''cat /eq-log''] = Inr log_out \<and> u ''eq done'' \<in> set (splitlines log_out)")
    case True
    then obtain k h log_out where ok: "snapshot t ki = Some (Inr k)" "snapshot t hi = Some (Inr h)"
        "t_debugfs t ki [u ''cat /eq-log''] = Inr log_out" "u ''eq done'' \<in> set (splitlines log_out)"
      by blast
    then have "compare t rows expected_log ki hi
        = Some (finish rows (fst k) (judge rows k h (split_log log_out) (split_log expected_log)))"
      by (simp add: compare_def unprinted_def)
    with ok show ?thesis by (simp add: fin judge_failures conj_commute conj_left_commute)
  next
    case False
    then have "compare t rows expected_log ki hi \<noteq> Some (out, Inr (Pass msg))" for out msg
      by (auto simp: compare_def unprinted_def split: option.splits sum.splits if_splits)
    with False show ?thesis by blast
  qed
qed

subsection \<open>Replaying the host tree\<close>

text \<open>What \<open>os.walk\<close> visits, in its order: directories, and the files of each one.\<close>

datatype visit =
    VDir pstr int
  | VFile pstr pstr int int int
  | VOther pstr

fun file_visit :: "pstr \<Rightarrow> pstr \<Rightarrow> pstr \<times> hnode \<Rightarrow> visit" where
  "file_visit dirpath rel (name, HFile ino mode nlink)
     = VFile (dirpath @ [47] @ name) ([47] @ rel @ [47] @ name) ino (s_imode mode) nlink"
| "file_visit dirpath rel (name, _) = VOther (dirpath @ [47] @ name)"

fun visits :: "pstr \<Rightarrow> pstr \<Rightarrow> hnode \<Rightarrow> visit list"
  and visits_all :: "pstr \<Rightarrow> pstr \<Rightarrow> (pstr \<times> hnode) list \<Rightarrow> visit list" where
  "visits dirpath rel (HDir mode es) = VDir ([47] @ rel) (s_imode mode)
     # map (file_visit dirpath rel) (filter (\<lambda>(_, n). \<not> is_dirname n) es) @ visits_all dirpath rel es"
| "visits dirpath rel (HFile _ _ _) = []"
| "visits dirpath rel HDirLink = []"
| "visits dirpath rel HOther = []"
| "visits_all dirpath rel [] = []"
| "visits_all dirpath rel ((name, node) # es) =
     visits (dirpath @ [47] @ name) (rel @ [47] @ name) node @ visits_all dirpath rel es"

text \<open>The names of an inode among the visits, with the link count each one shows.\<close>

definition names_of :: "int \<Rightarrow> visit list \<Rightarrow> (pstr \<times> int) list" where
  "names_of i vs = concat (map (\<lambda>v. case v of VFile _ target ino _ nlink \<Rightarrow> if ino = i then [(target, nlink)] else []
     | _ \<Rightarrow> []) vs)"

text \<open>The commands of a visit after the ones before it: an inode seen before is linked to its first name.\<close>

fun visit_commands :: "visit list \<Rightarrow> visit \<Rightarrow> dcmd list" where
  "visit_commands before (VDir path mode) = [Mkdir path, SetDirMode path mode]"
| "visit_commands before (VFile path target ino mode nlink) =
     (case names_of ino before of
        [] \<Rightarrow> [WriteFile path target, SetFileMode target mode]
      | (first, _) # _ \<Rightarrow> [LinkFile first target])"
| "visit_commands before (VOther path) = []"

fun plan :: "visit list \<Rightarrow> visit list \<Rightarrow> dcmd list" where
  "plan before [] = []"
| "plan before (v # vs) = visit_commands before v @ plan (before @ [v]) vs"

fun is_other :: "visit \<Rightarrow> bool" where
  "is_other (VOther _) \<longleftrightarrow> True"
| "is_other _ \<longleftrightarrow> False"

text \<open>The first name of every inode with more than one, and the count its last name shows.\<close>

definition link_counts :: "visit list \<Rightarrow> (pstr \<times> int) set" where
  "link_counts vs = {(fst (hd (names_of i vs)), snd (last (names_of i vs))) |i. 2 \<le> length (names_of i vs)}"

fun visit_step :: "replayed \<Rightarrow> visit \<Rightarrow> eq_error + replayed" where
  "visit_step st (VDir path mode) = Inr (st\<lparr>rp_commands := rp_commands st @ [Mkdir path, SetDirMode path mode]\<rparr>)"
| "visit_step st (VFile path target ino mode nlink) =
     (case rp_seen st ino of
        Some first \<Rightarrow> Inr (st\<lparr>rp_commands := rp_commands st @ [LinkFile first target],
          rp_links := AList.update first nlink (rp_links st)\<rparr>)
      | None \<Rightarrow> Inr (st\<lparr>rp_commands := rp_commands st @ [WriteFile path target, SetFileMode target mode],
          rp_seen := (rp_seen st)(ino \<mapsto> target)\<rparr>))"
| "visit_step st (VOther path) = Inl (EqNotRegular path)"

lemma replay_file_step: "replay_file dirpath rel st e = visit_step st (file_visit dirpath rel e)"
  by (cases "(dirpath, rel, e)" rule: file_visit.cases) (auto simp: replay_file_def Let_def split: option.splits)

lemma replay_files: "foldM (replay_file dirpath rel) st es = foldM visit_step st (map (file_visit dirpath rel) es)"
  by (induction es arbitrary: st) (auto simp: replay_file_step intro: bindR_cong)

lemma replay_visits:
  "replay_dir dirpath rel node st = foldM visit_step st (visits dirpath rel node)"
  "replay_dirs dirpath rel es st = foldM visit_step st (visits_all dirpath rel es)"
proof (induction dirpath rel node st and dirpath rel es st rule: replay_dir_replay_dirs.induct)
  case (1 dirpath rel mode es st)
  then show ?case
    by (auto simp: foldM_append replay_files intro: bindR_cong)
next
  case (6 dirpath rel name node es st)
  then show ?case by (auto simp: foldM_append intro: bindR_cong)
qed auto

definition first_name :: "visit list \<Rightarrow> int \<rightharpoonup> pstr" where
  "first_name vs = (\<lambda>i. case names_of i vs of [] \<Rightarrow> None | (first, _) # _ \<Rightarrow> Some first)"

definition replayed_as :: "visit list \<Rightarrow> replayed \<Rightarrow> bool" where
  "replayed_as vs st \<longleftrightarrow> rp_commands st = plan [] vs
     \<and> rp_seen st = first_name vs
     \<and> distinct (map fst (rp_links st)) \<and> set (rp_links st) = link_counts vs"

lemma plan_snoc: "plan before (vs @ [v]) = plan before vs @ visit_commands (before @ vs) v"
  by (induction vs arbitrary: before) auto

lemma names_of_snoc:
  "names_of i (vs @ [VDir p m]) = names_of i vs"
  "names_of i (vs @ [VFile p t j m n]) = names_of i vs @ (if j = i then [(t, n)] else [])"
  by (auto simp: names_of_def)

lemma first_name_snoc:
  "first_name (vs @ [VDir p m]) = first_name vs"
  "first_name (vs @ [VFile p t i m n]) = (if names_of i vs = [] then (first_name vs)(i \<mapsto> t) else first_name vs)"
  by (auto simp: first_name_def names_of_snoc fun_eq_iff split: list.splits)

lemma first_name_simps [simp]:
  "names_of i vs = [] \<Longrightarrow> first_name vs i = None" "names_of i vs = (f, n) # ns \<Longrightarrow> first_name vs i = Some f"
  by (simp_all add: first_name_def)

definition targets :: "visit list \<Rightarrow> pstr list" where
  "targets vs = concat (map (\<lambda>v. case v of VFile _ target _ _ _ \<Rightarrow> [target] | _ \<Rightarrow> []) vs)"

lemma targets_snoc [simp]:
  "targets (vs @ [VDir p m]) = targets vs" "targets (vs @ [VFile p t j m n]) = targets vs @ [t]"
  by (simp_all add: targets_def)

lemma names_of_targets: "(t, n) \<in> set (names_of i vs) \<Longrightarrow> t \<in> set (targets vs)"
  by (induction vs rule: rev_induct) (auto simp: names_of_def targets_def split: visit.splits if_splits)

text \<open>With distinct targets, two inodes share no name.\<close>

lemma names_of_inode:
  assumes "distinct (targets vs)" "(t, n) \<in> set (names_of i vs)" "(t, n') \<in> set (names_of j vs)"
  shows "i = j"
  using assms
proof (induction vs rule: rev_induct)
  case (snoc v vs)
  show ?case
  proof (cases v)
    case (VFile p t' k m nl)
    show ?thesis
      using snoc names_of_targets [of t n i vs] names_of_targets [of t n' j vs]
      by (auto simp: VFile names_of_snoc split: if_splits)
  qed (use snoc in \<open>auto simp: names_of_def targets_def\<close>)
qed (simp add: names_of_def)

lemma first_name_inode:
  assumes "distinct (targets vs)" "names_of i vs \<noteq> []" "names_of j vs \<noteq> []"
    "fst (hd (names_of i vs)) = fst (hd (names_of j vs))"
  shows "i = j"
proof -
  obtain a as b bs where ab: "names_of i vs = a # as" "names_of j vs = b # bs"
    using assms(2,3) by (metis list.exhaust)
  obtain t n n' where "a = (t, n)" "b = (t, n')" using assms(4) ab by (metis list.sel(1) prod.collapse)
  with ab show ?thesis using names_of_inode [OF assms(1), of t n i n' j] by simp
qed

text \<open>The first name of an inode and its last count, once there are two.\<close>

definition link_of :: "int \<Rightarrow> visit list \<Rightarrow> pstr \<times> int" where
  "link_of i vs = (fst (hd (names_of i vs)), snd (last (names_of i vs)))"

lemma link_counts_mem:
  "x \<in> link_counts vs \<longleftrightarrow> (\<exists>i. 2 \<le> length (names_of i vs) \<and> x = link_of i vs)"
  by (auto simp: link_counts_def link_of_def)

lemma set_update:
  "distinct (map fst al) \<Longrightarrow> set (AList.update k v al) = insert (k, v) {x \<in> set al. fst x \<noteq> k}"
  by (induction al) (auto simp: rev_image_eqI)

lemma replayed_step:
  assumes st: "replayed_as vs st" and "\<not> is_other v" and d: "distinct (targets (vs @ [v]))"
  shows "\<exists>st'. visit_step st v = Inr st' \<and> replayed_as (vs @ [v]) st'"
proof (cases v)
  case (VDir p m)
  with st show ?thesis
    by (auto simp: replayed_as_def plan_snoc first_name_snoc names_of_snoc link_counts_def)
next
  case (VFile p t i m n)
  have other: "names_of j (vs @ [v]) = names_of j vs" if "j \<noteq> i" for j
    using that by (simp add: VFile names_of_snoc)
  have same: "names_of i (vs @ [v]) = names_of i vs @ [(t, n)]" by (simp add: VFile names_of_snoc)
  from d have d': "distinct (targets vs)" by (simp add: VFile)
  show ?thesis
  proof (cases "names_of i vs")
    case Nil
    have "link_counts (vs @ [v]) = link_counts vs"
    proof -
      have "(2 \<le> length (names_of j (vs @ [v])) \<and> x = link_of j (vs @ [v]))
          \<longleftrightarrow> (2 \<le> length (names_of j vs) \<and> x = link_of j vs)" for j x
        using same Nil by (cases "j = i") (auto simp: other link_of_def)
      then show ?thesis by (auto simp: link_counts_mem set_eq_iff)
    qed
    then show ?thesis
      using st Nil by (auto simp: VFile replayed_as_def plan_snoc first_name_snoc)
  next
    case (Cons a as)
    obtain f fn where a: "a = (f, fn)" by (cases a)
    have new: "link_of i (vs @ [v]) = (f, n)" using Cons a same by (simp add: link_of_def)
    have "x \<in> link_counts (vs @ [v]) \<longleftrightarrow> x = (f, n) \<or> (x \<in> link_counts vs \<and> fst x \<noteq> f)" for x
    proof -
      have "x = link_of j (vs @ [v]) \<and> 2 \<le> length (names_of j (vs @ [v])) \<longleftrightarrow>
          (x = link_of j vs \<and> 2 \<le> length (names_of j vs) \<and> fst x \<noteq> f)" if "j \<noteq> i" for j
      proof -
        have "fst (link_of j vs) \<noteq> f" if two: "2 \<le> length (names_of j vs)"
        proof -
          from two have "names_of j vs \<noteq> []" by auto
          then show ?thesis using \<open>j \<noteq> i\<close> first_name_inode [OF d', of j i] Cons a by (auto simp: link_of_def)
        qed
        with that show ?thesis by (auto simp: other link_of_def)
      qed
      moreover have "2 \<le> length (names_of i (vs @ [v]))" using Cons same by (simp add: Suc_le_eq)
      moreover have "fst (link_of i vs) = f" using Cons a by (simp add: link_of_def)
      ultimately show ?thesis using new by (auto simp: link_counts_mem) (metis)+
    qed
    then have "link_counts (vs @ [v]) = insert (f, n) {x \<in> link_counts vs. fst x \<noteq> f}" by blast
    then show ?thesis
      using st Cons a
      by (auto simp: VFile replayed_as_def plan_snoc first_name_snoc distinct_update set_update)
  qed
qed (use assms in simp)

lemma replayed_visits:
  assumes "list_all (\<lambda>v. \<not> is_other v) vs" "distinct (targets vs)"
  shows "\<exists>st. foldM visit_step no_commands vs = Inr st \<and> replayed_as vs st"
  using assms
proof (induction vs rule: rev_induct)
  case Nil
  show ?case
    by (auto simp: replayed_as_def no_commands_def first_name_def link_counts_def names_of_def)
next
  case (snoc v vs)
  from snoc.prems have "distinct (targets vs)" by (cases v) (simp_all add: targets_def)
  with snoc obtain st where "foldM visit_step no_commands vs = Inr st" "replayed_as vs st" by auto
  with snoc.prems replayed_step [of vs st v] show ?case by (auto simp: foldM_append)
qed

lemma foldM_other:
  assumes "foldM visit_step st vs = Inr st'"
  shows "list_all (\<lambda>v. \<not> is_other v) vs"
  using assms by (induction vs arbitrary: st) (auto elim!: visit_step.elims simp: bindR_def split: sum.splits)


definition sample_tree :: hnode where
  "sample_tree = HDir 16877 [(u ''b'', HFile 5 33188 2), (u ''a'', HFile 5 33188 2), (u ''d'', HDir 16877 [])]"


end
