(* ===== verification/Ext2_Campaign_Facts.thy ===== *)
theory Ext2_Campaign_Facts
  imports Ext2_Campaign Ext2_Compare_Facts
begin

section \<open>What the host runs show\<close>

text \<open>
  The oracle's writes and block counts, the generator's promise, the translation of the
  rows, and when a run, a campaign and a fault run report what.
\<close>

subsection \<open>The nearly full disk\<close>

text \<open>The blocks a write into a new file takes.\<close>

fun op_blocks :: "gop \<Rightarrow> int" where
  "op_blocks (GPwrite _ offset len _) = file_blocks (offset + len)"
| "op_blocks _ = 0"

fun op_path :: "gop \<Rightarrow> pstr" where
  "op_path (GPwrite p _ _ _) = p"
| "op_path _ = []"

lemma file_blocks_kib: "file_blocks (n * 1024) = n + (if n > 12 then 1 else 0)"
proof -
  have "(n * 1024 + 1023) div 1024 = n" by simp
  then show ?thesis by (simp add: file_blocks_def Let_def)
qed

lemma filler_blocks_ops:
  "sum_list (map op_blocks (filler_ops spare n)) = max 0 spare"
proof (induction spare n rule: filler_ops.induct)
  case (1 spare n)
  show ?case
  proof (cases "spare > 0")
    case True
    then show ?thesis
      using 1 [OF True refl]
      by (subst filler_ops.simps) (auto simp: Let_def file_blocks_kib filler_blocks_def)
  qed (simp add: filler_ops.simps)
qed

lemma filler_ops_fit:
  "op \<in> set (filler_ops spare n) \<Longrightarrow> \<exists>k len. op = GPwrite (ROOT @ u ''/fill'' @ str_nat k) 0 len 9 \<and> n \<le> k
     \<and> 0 < len \<and> len \<le> MAX_FILE"
proof (induction spare n rule: filler_ops.induct)
  case (1 spare n)
  show ?case
  proof (cases "spare > 0")
    case True
    have b: "0 < filler_blocks spare" "filler_blocks spare \<le> 256" using True by (auto simp: filler_blocks_def)
    from 1(2) True consider "op = GPwrite (ROOT @ u ''/fill'' @ str_nat n) 0 (filler_blocks spare * 1024) 9"
      | "op \<in> set (filler_ops (spare - (filler_blocks spare + (if 12 < filler_blocks spare then 1 else 0))) (Suc n))"
      by (subst (asm) filler_ops.simps) (auto simp: Let_def)
    then show ?thesis
    proof cases
      case 1
      with b show ?thesis by (auto simp: MAX_FILE_def)
    next
      case 2
      with 1(1) [OF True refl] show ?thesis by (auto simp: Suc_le_eq dest: less_imp_le)
    qed
  qed (use 1(2) in \<open>simp add: filler_ops.simps\<close>)
qed

lemma str_nat_inj: "str_nat a = str_nat b \<Longrightarrow> a = b"
  by (metis int_digits_str_nat option.inject)

lemma filler_paths_distinct: "distinct (map op_path (filler_ops spare n))"
proof (induction spare n rule: filler_ops.induct)
  case (1 spare n)
  show ?case
  proof (cases "spare > 0")
    case True
    let ?more = "filler_ops (spare - (filler_blocks spare + (if 12 < filler_blocks spare then 1 else 0))) (Suc n)"
    have "ROOT @ u ''/fill'' @ str_nat n \<notin> op_path ` set ?more"
    proof
      assume "ROOT @ u ''/fill'' @ str_nat n \<in> op_path ` set ?more"
      then obtain op where op: "op \<in> set ?more" "ROOT @ u ''/fill'' @ str_nat n = op_path op" by (elim imageE)
      from filler_ops_fit [OF op(1)] obtain k len where
        "op = GPwrite (ROOT @ u ''/fill'' @ str_nat k) 0 len 9" "Suc n \<le> k" by blast
      with op(2) show False by (auto dest: str_nat_inj)
    qed
    moreover have "filler_ops spare n = GPwrite (ROOT @ u ''/fill'' @ str_nat n) 0 (filler_blocks spare * 1024) 9 # ?more"
      using True by (subst filler_ops.simps) (simp add: Let_def)
    ultimately show ?thesis using 1 [OF True refl] by simp
  qed (simp add: filler_ops.simps)
qed


subsection \<open>Writes in pieces\<close>

lemma length_pattern [simp]: "length (pattern offset len seed) = nat len"
  by (simp add: pattern_def)

lemma pattern_append:
  assumes "0 \<le> a" "0 \<le> b"
  shows "pattern offset (a + b) seed = pattern offset a seed @ pattern (offset + a) b seed"
  using assms by (intro nth_equalityI) (auto simp: pattern_def nth_append nat_add_distrib algebra_simps)

text \<open>Two adjacent writes that succeed leave the tree as one.\<close>

definition writes_append :: "'f linux \<Rightarrow> pstr \<Rightarrow> bool" where
  "writes_append os path \<longleftrightarrow> (\<forall>bs cs offset f f' f''. l_pwrite os path bs offset f = Inr f' \<longrightarrow>
     l_pwrite os path cs (offset + int (length bs)) f' = Inr f'' \<longrightarrow> l_pwrite os path (bs @ cs) offset f = Inr f'')"

lemma writes_appendD:
  "writes_append os path \<Longrightarrow> l_pwrite os path bs offset f = Inr f' \<Longrightarrow>
   l_pwrite os path cs (offset + int (length bs)) f' = Inr f'' \<Longrightarrow> l_pwrite os path (bs @ cs) offset f = Inr f''"
  unfolding writes_append_def by blast

lemma pwrite_loop_append:
  assumes "writes_append os path"
  shows "pwrite_loop os path offset seed limit fin f = (None, f') \<Longrightarrow> 0 < fin \<Longrightarrow> fin \<le> limit \<Longrightarrow>
    l_pwrite os path (pattern offset fin seed) offset f0 = Inr f \<Longrightarrow>
    l_pwrite os path (pattern offset limit seed) offset f0 = Inr f'"
proof (induction "nat (limit - fin)" arbitrary: fin f rule: less_induct)
  case less
  show ?case
  proof (cases "fin < limit")
    case True
    let ?piece = "min WRITE_CHUNK (limit - fin)"
    have p: "0 \<le> ?piece" "0 < fin + ?piece" "fin + ?piece \<le> limit" "nat (limit - (fin + ?piece)) < nat (limit - fin)"
      using True less.prems(2) by (auto simp: WRITE_CHUNK_def)
    from less.prems(1) True obtain f1 where f1: "l_pwrite os path (pattern (offset + fin) ?piece seed) (offset + fin) f = Inr f1"
        "pwrite_loop os path offset seed limit (fin + ?piece) f1 = (None, f')"
      by (subst (asm) pwrite_loop.simps) (auto simp: Let_def split: sum.splits)
    have fin: "0 \<le> fin" "offset + int (length (pattern offset fin seed)) = offset + fin" using less.prems(2) by simp_all
    have "l_pwrite os path (pattern offset (fin + ?piece) seed) offset f0 = Inr f1"
      unfolding pattern_append [OF fin(1) p(1)]
      by (rule writes_appendD [OF assms less.prems(4)]) (simp only: fin(2) f1(1))
    from less.hyps [OF p(4) f1(2) p(2,3) this] show ?thesis .
  next
    case False
    with less.prems show ?thesis by (simp add: pwrite_loop.simps)
  qed
qed

text \<open>
  (C36) Where two adjacent writes that succeed are one write, the loop of one-KiB writes
  the oracle makes for a \<open>pwrite\<close>, when every one of them succeeds, leaves the tree that
  one write of the whole pattern leaves.
\<close>

theorem pieces_write_whole:
  assumes "writes_append os path" "pwrite_loop os path offset seed limit 0 f = (None, f')" "0 < limit"
  shows "l_pwrite os path (pattern offset limit seed) offset f = Inr f'"
proof -
  let ?piece = "min WRITE_CHUNK limit"
  have p: "0 < ?piece" "?piece \<le> limit" using assms(3) by (auto simp: WRITE_CHUNK_def)
  from assms(2,3) obtain f1 where "l_pwrite os path (pattern offset ?piece seed) offset f = Inr f1"
      "pwrite_loop os path offset seed limit ?piece f1 = (None, f')"
    by (subst (asm) pwrite_loop.simps) (auto simp: Let_def split: sum.splits)
  with pwrite_loop_append [OF assms(1), of offset seed limit ?piece f1 f' f] p show ?thesis by simp
qed

text \<open>One file, of bytes, written in place.\<close>

definition put_bytes :: "byte list \<Rightarrow> nat \<Rightarrow> byte list \<Rightarrow> byte list" where
  "put_bytes bs k f = (let f = f @ replicate (k - length f) 0 in take k f @ bs @ drop (k + length bs) f)"

definition one_file :: "byte list linux" where
  "one_file = \<lparr>l_mkdir = (\<lambda>_ _. Inl (u ''EPERM'')), l_rmdir = (\<lambda>_ _. Inl (u ''EPERM'')), l_unlink = (\<lambda>_ _. Inl (u ''EPERM'')),
     l_rename = (\<lambda>_ _ _. Inl (u ''EPERM'')), l_open = (\<lambda>trunc _ f. Inr (if trunc then [] else f)),
     l_pwrite = (\<lambda>_ bs offset f. if offset < 0 then Inl (u ''EINVAL'') else Inr (put_bytes bs (nat offset) f)),
     l_read = (\<lambda>_ f. Inr f), l_size = (\<lambda>_ f. Some (int (length f))), l_lexists = (\<lambda>_ _. True)\<rparr>"

lemma put_bytes_append: "put_bytes cs (k + length bs) (put_bytes bs k f) = put_bytes (bs @ cs) k f"
proof -
  have "min (length f) k + (k - length f) = k" by simp
  then show ?thesis by (auto simp: put_bytes_def Let_def add.commute add.left_commute)
qed

lemma one_file_appends: "writes_append one_file path"
proof -
  have "nat (offset + int n) = nat offset + n" if "0 \<le> offset" for offset n using that by simp
  then show ?thesis
    by (auto simp: writes_append_def one_file_def put_bytes_append split: if_splits)
qed

theorem pieces_write_whole_witness:
  "writes_append one_file [] \<and> pwrite_loop one_file [] 5 1 2000 0 [] = (None, put_bytes (pattern 5 2000 1) 5 [])
   \<and> l_pwrite one_file [] (pattern 5 2000 1) 5 [] = Inr (put_bytes (pattern 5 2000 1) 5 [])"
proof -
  have "pwrite_loop one_file [] 5 1 2000 0 []
      = (None, put_bytes (pattern 1029 976 1) 1029 (put_bytes (pattern 5 1024 1) 5 []))"
    by (simp add: pwrite_loop.simps WRITE_CHUNK_def one_file_def)
  moreover have "put_bytes (pattern 1029 976 1) 1029 (put_bytes (pattern 5 1024 1) 5 []) = put_bytes (pattern 5 2000 1) 5 []"
    using put_bytes_append [of "pattern 1029 976 1" 5 "pattern 5 1024 1" "[]"] pattern_append [of 1024 976 5 1] by simp
  ultimately have l: "pwrite_loop one_file [] 5 1 2000 0 [] = (None, put_bytes (pattern 5 2000 1) 5 [])" by simp
  show ?thesis using pieces_write_whole [OF one_file_appends l] one_file_appends l by simp
qed

subsection \<open>The blocks a write needs\<close>

text \<open>
  The blocks the oracle grants the kernel for the failing write of a \<open>pwrite\<close> are
  between one and four: at most the two blocks it covers, the old partial last block and
  an indirect block.
\<close>

lemma write_need_bounds:
  assumes "0 \<le> offset" "0 \<le> written" "written < len"
  shows "1 \<le> write_need os path offset len written f \<and> write_need os path offset len written f \<le> 4"
proof -
  define sz where "sz = (if written \<noteq> 0 then max (size_of os path f) (offset + written) else size_of os path f)"
  define start where "start = offset + written"
  define stop where "stop = start + min WRITE_CHUNK (len - written)"
  define new_count where "new_count = (max sz stop + 1023) div 1024"
  define blocks where "blocks = filter (touched start stop ((sz + 1023) div 1024) (max sz stop) sz) (map int [0..<nat new_count])"
  have eq: "write_need os path offset len written f = int (length blocks) + (if new_count > 12 then 1 else 0)"
    unfolding write_need_def Let_def blocks_def new_count_def stop_def start_def sz_def by (rule refl)
  have ss: "0 \<le> start" "start < stop" "stop \<le> start + 1024"
    using assms by (auto simp: start_def stop_def WRITE_CHUNK_def)
  have "start div 1024 < new_count" using ss(2) unfolding new_count_def by linarith
  moreover have "0 \<le> start div 1024" using ss(1) by simp
  ultimately have "start div 1024 = int (nat (start div 1024))" "nat (start div 1024) < nat new_count" by simp_all
  then have "start div 1024 \<in> set (map int [0..<nat new_count])" by (metis atLeast0LessThan image_eqI lessThan_iff list.set_map set_upt)
  moreover have "touched start stop ((sz + 1023) div 1024) (max sz stop) sz (start div 1024)"
    using ss(2) unfolding touched_def by (intro disjI1 conjI) linarith+
  ultimately have "start div 1024 \<in> set blocks" unfolding blocks_def by simp
  then have low: "1 \<le> length blocks" by (cases blocks) auto
  have "i = start div 1024 \<or> i = (stop - 1) div 1024 \<or> i = (sz + 1023) div 1024 - 1" if "i \<in> set blocks" for i
  proof -
    from that have "touched start stop ((sz + 1023) div 1024) (max sz stop) sz i" by (simp add: blocks_def)
    then consider "i * 1024 < stop" "start < i * 1024 + 1024" | "i + 1 = (sz + 1023) div 1024"
      unfolding touched_def by blast
    then show ?thesis
    proof cases
      case 1
      then have "i \<le> (stop - 1) div 1024" "start div 1024 \<le> i" by linarith+
      moreover have "(stop - 1) div 1024 \<le> start div 1024 + 1" using ss(3) by linarith
      ultimately show ?thesis by linarith
    qed simp
  qed
  then have "set blocks \<subseteq> {start div 1024, (stop - 1) div 1024, (sz + 1023) div 1024 - 1}" by blast
  moreover have "distinct blocks" unfolding blocks_def by (simp add: distinct_map)
  ultimately have "length blocks \<le> card {start div 1024, (stop - 1) div 1024, (sz + 1023) div 1024 - 1}"
    using card_mono [of "{start div 1024, (stop - 1) div 1024, (sz + 1023) div 1024 - 1}" "set blocks"]
    by (simp add: distinct_card)
  also have "\<dots> \<le> 3" by (simp add: card_insert_if)
  finally show ?thesis using low by (simp add: eq)
qed

subsection \<open>What the generator produces\<close>

abbreviation parent_of :: "pstr \<Rightarrow> pstr" where
  "parent_of p \<equiv> fst (rsplit_slash p)"

lemma rsplit_join: "47 \<notin> set x \<Longrightarrow> rsplit_slash (d @ 47 # x) = (d, x)"
proof -
  assume "47 \<notin> set x"
  then have "takeWhile (\<lambda>c. c \<noteq> 47) (rev x @ 47 # rev d) = rev x"
    by (subst takeWhile_append2) auto
  then show ?thesis by (simp add: rsplit_slash_def Let_def)
qed

lemma rsplit_parts:
  assumes "47 \<in> set p"
  obtains d x where "p = d @ 47 # x" "47 \<notin> set x" "rsplit_slash p = (d, x)"
proof -
  from split_list_last [OF assms] obtain d x where "p = d @ 47 # x" "47 \<notin> set x" by blast
  with rsplit_join that show ?thesis by blast
qed

lemma children_parent: "p \<in> set (children m d) \<longleftrightarrow> (p \<in> set (md_dirs m) \<or> p \<in> fst ` set (md_files m)) \<and> 47 \<in> set p \<and> parent_of p = d"
proof -
  have "startswith p (d @ [47]) \<and> 47 \<notin> set (drop (length d + 1) p) \<longleftrightarrow> 47 \<in> set p \<and> parent_of p = d"
  proof
    assume "startswith p (d @ [47]) \<and> 47 \<notin> set (drop (length d + 1) p)"
    then have p: "take (length d + 1) p = d @ [47]" and x: "47 \<notin> set (drop (length d + 1) p)"
      by (simp_all add: startswith_def)
    from p have "p = d @ 47 # drop (length d + 1) p"
      using append_take_drop_id [of "length d + 1" p] by simp
    then show "47 \<in> set p \<and> parent_of p = d" using rsplit_join [OF x, of d] by (metis fst_conv in_set_conv_decomp)
  next
    assume "47 \<in> set p \<and> parent_of p = d"
    then show "startswith p (d @ [47]) \<and> 47 \<notin> set (drop (length d + 1) p)"
      by (auto elim!: rsplit_parts simp: startswith_def)
  qed
  then show ?thesis by (auto simp: children_def)
qed

text \<open>A path below the root, of characters that are no white space.\<close>

definition good_path :: "pstr \<Rightarrow> bool" where
  "good_path p \<longleftrightarrow> list_all (\<lambda>c. \<not> isspace_char c) p \<and> startswith p (ROOT @ [47])"

definition model_ok :: "model \<Rightarrow> bool" where
  "model_ok m \<longleftrightarrow> ROOT \<in> set (md_dirs m) \<and> distinct (md_dirs m) \<and> distinct (map fst (md_files m))
     \<and> set (md_dirs m) \<inter> fst ` set (md_files m) = {}
     \<and> (\<forall>p \<in> set (md_dirs m) \<union> fst ` set (md_files m). p \<noteq> ROOT \<longrightarrow> good_path p \<and> parent_of p \<in> set (md_dirs m))
     \<and> (\<forall>n \<in> snd ` set (md_files m). int n \<le> MAX_FILE)"

text \<open>What is promised of an operation: its paths are below the root, and a write fits the largest file.\<close>

fun gop_ok :: "nat \<Rightarrow> gop \<Rightarrow> bool" where
  "gop_ok largest (GMkdir p) \<longleftrightarrow> good_path p"
| "gop_ok largest (GRmdir p) \<longleftrightarrow> good_path p"
| "gop_ok largest (GUnlink p) \<longleftrightarrow> good_path p"
| "gop_ok largest (GRename p q) \<longleftrightarrow> good_path p \<and> good_path q"
| "gop_ok largest (GWrite p t) \<longleftrightarrow> good_path p \<and> t \<noteq> [] \<and> length t < 40 \<and> list_all (\<lambda>c. 48 \<le> c \<and> c \<le> 122) t"
| "gop_ok largest (GTrunc p) \<longleftrightarrow> good_path p"
| "gop_ok largest (GPwrite p a n s) \<longleftrightarrow> good_path p \<and> 0 \<le> a \<and> 0 \<le> n \<and> n \<le> int largest \<and> a + n \<le> MAX_FILE \<and> 0 \<le> s \<and> s < 256"
| "gop_ok largest (GSeekwrite p a n s) \<longleftrightarrow> good_path p \<and> 0 \<le> a \<and> 0 \<le> n \<and> n \<le> int largest \<and> a + n \<le> MAX_FILE \<and> 0 \<le> s \<and> s < 256"
| "gop_ok largest (GOverwrite p q) \<longleftrightarrow> False"

definition gen_ok :: "nat \<Rightarrow> 'r gen \<Rightarrow> bool" where
  "gen_ok largest st \<longleftrightarrow> list_all (gop_ok largest) (fst st) \<and> model_ok (fst (snd st))"

definition rng_ok :: "'r rng \<Rightarrow> bool" where
  "rng_ok rng \<longleftrightarrow> (\<forall>n r. 0 < n \<longrightarrow> fst (r_below rng n r) < n)"

lemma below_less: "rng_ok rng \<Longrightarrow> 0 < n \<Longrightarrow> r_below rng n r = (i, r') \<Longrightarrow> i < n"
  unfolding rng_ok_def by (metis fst_conv)

lemma pick_in:
  assumes "rng_ok rng" "xs \<noteq> []" "pick rng xs r = (x, r')"
  shows "x \<in> set xs"
proof -
  obtain i r1 where i: "r_below rng (length xs) r = (i, r1)" by (cases "r_below rng (length xs) r")
  with assms(3) have "x = xs ! i" by (simp add: pick_def)
  with below_less [OF assms(1) _ i] assms(2) show ?thesis by simp
qed

lemma randrange_in:
  assumes "rng_ok rng" "a < b" "randrange rng a b r = (x, r')"
  shows "a \<le> x" "x < b"
proof -
  obtain i r1 where i: "r_below rng (b - a) r = (i, r1)" by (cases "r_below rng (b - a) r")
  with assms(3) have "x = a + i" by (simp add: randrange_def)
  with below_less [OF assms(1) _ i] assms(2) show "a \<le> x" "x < b" by simp_all
qed

lemma str_nat_plain: "list_all (\<lambda>c. \<not> isspace_char c) (str_nat n)" "47 \<notin> set (str_nat n)"
  using str_nat_chars [of _ n] by (force simp: list_all_iff isspace_char_def)+

lemma name_for_ok:
  assumes "rng_ok rng" "name_for rng r = (x, r')"
  shows "47 \<notin> set x" "list_all (\<lambda>c. \<not> isspace_char c) x"
proof -
  from assms(2) obtain c n r1 where c: "pick rng (u ''abcdefgh'') r = (c, r1)" and x: "x = c # str_nat n"
    by (auto simp: name_for_def split: prod.splits)
  from pick_in [OF assms(1) _ c] have "c \<noteq> 47 \<and> \<not> isspace_char c" by (auto simp: u_def isspace_char_def)
  then show "47 \<notin> set x" "list_all (\<lambda>c. \<not> isspace_char c) x" using str_nat_plain [of n] by (simp_all add: x)
qed

lemma root_plain: "list_all (\<lambda>c. \<not> isspace_char c) ROOT"
  by (simp add: ROOT_def u_def isspace_char_def)

lemma good_not_root: "good_path p \<Longrightarrow> p \<noteq> ROOT"
  by (auto simp: good_path_def startswith_def ROOT_def u_def)

lemma good_slash: "good_path p \<Longrightarrow> 47 \<in> set p"
  unfolding good_path_def startswith_def by (metis in_set_conv_decomp in_set_takeD append_Nil2 append.assoc)

lemma startswith_append: "startswith p q \<Longrightarrow> startswith (p @ r) q"
  unfolding startswith_def by (metis append_take_drop_id append.assoc append_eq_conv_conj)

lemma below_dir:
  assumes "model_ok m" "d \<in> set (md_dirs m)" "47 \<notin> set x" "list_all (\<lambda>c. \<not> isspace_char c) x"
  shows "good_path (d @ 47 # x)" "parent_of (d @ 47 # x) = d"
proof -
  show "parent_of (d @ 47 # x) = d" using rsplit_join [OF assms(3)] by simp
  have "d = ROOT \<or> good_path d" using assms(1,2) unfolding model_ok_def by blast
  then show "good_path (d @ 47 # x)"
    using assms(4) root_plain startswith_append [of d "ROOT @ [47]" "47 # x"] startswith_append [of "ROOT @ [47]" "ROOT @ [47]" x]
    by (auto simp: good_path_def isspace_char_def [of 47] startswith_def)
qed

lemma file_ok:
  assumes "model_ok m" "p \<in> fst ` set (md_files m)"
  shows "p \<notin> set (md_dirs m)" "good_path p" "parent_of p \<in> set (md_dirs m)" "int (file_size m p) \<le> MAX_FILE"
proof -
  show d: "p \<notin> set (md_dirs m)" using assms unfolding model_ok_def by blast
  then have "p \<noteq> ROOT" using assms(1) unfolding model_ok_def by blast
  with assms show "good_path p" "parent_of p \<in> set (md_dirs m)" unfolding model_ok_def by blast+
  have "n \<in> snd ` set (md_files m)" if "map_of (md_files m) p = Some n" for n
    using map_of_SomeD [OF that] by force
  then show "int (file_size m p) \<le> MAX_FILE"
    using assms(1) by (auto simp: file_size_def model_ok_def MAX_FILE_def split: option.splits)
qed

lemma file_size_le: "model_ok m \<Longrightarrow> int (file_size m p) \<le> MAX_FILE"
  using file_ok(4) [of m p] by (cases "p \<in> fst ` set (md_files m)")
    (auto simp: file_size_def map_of_eq_None_iff MAX_FILE_def split: option.splits dest: map_of_SomeD intro: rev_image_eqI)

lemma dir_ok:
  assumes "model_ok m" "d \<in> set (md_dirs m)" "d \<noteq> ROOT"
  shows "good_path d" "parent_of d \<in> set (md_dirs m)" "d \<notin> fst ` set (md_files m)"
  using assms unfolding model_ok_def by blast+

lemma model_add_dir:
  assumes "model_ok m" "p \<notin> fst ` set (md_files m)" "good_path p" "parent_of p \<in> set (md_dirs m)"
  shows "model_ok (add_dir p m)"
  using assms unfolding model_ok_def add_dir_def by auto

lemma snd_update: "snd ` set (AList.update k v al) \<subseteq> insert v (snd ` set al)"
  by (induction al) auto

lemma model_set_size:
  assumes ok: "model_ok m" and p: "p \<notin> set (md_dirs m)" "good_path p" "parent_of p \<in> set (md_dirs m)" "int n \<le> MAX_FILE"
  shows "model_ok (set_size p n m)"
proof -
  let ?fs = "AList.update p n (md_files m)"
  have keys: "fst ` set ?fs = insert p (fst ` set (md_files m))"
    by (simp flip: dom_map_of_conv_image_fst add: update_conv')
  have "\<forall>k \<in> snd ` set (md_files m). int k \<le> MAX_FILE" using ok unfolding model_ok_def by blast
  with p(4) snd_update [of p n "md_files m"] have vals: "\<forall>k \<in> snd ` set ?fs. int k \<le> MAX_FILE" by blast
  have dis: "set (md_dirs m) \<inter> fst ` set ?fs = {}" unfolding keys using ok p(1) unfolding model_ok_def by blast
  have par: "\<forall>q \<in> set (md_dirs m) \<union> fst ` set ?fs. q \<noteq> ROOT \<longrightarrow> good_path q \<and> parent_of q \<in> set (md_dirs m)"
    unfolding keys using ok p(2,3) unfolding model_ok_def by blast
  have "ROOT \<in> set (md_dirs m)" "distinct (md_dirs m)" "distinct (map fst ?fs)"
    using ok distinct_update [of "md_files m" p n] unfolding model_ok_def by blast+
  with vals dis par show ?thesis
    unfolding model_ok_def set_size_def by simp
qed

lemma model_delete_file:
  assumes "model_ok m"
  shows "model_ok (m\<lparr>md_files := AList.delete p (md_files m)\<rparr>)"
proof -
  have "set (AList.delete p (md_files m)) \<subseteq> set (md_files m)" by (auto simp: AList.delete_eq)
  then show ?thesis
    using assms unfolding model_ok_def by (simp add: distinct_delete) blast
qed

lemma model_drop_dir:
  assumes "model_ok m" "d \<noteq> ROOT" "children m d = []"
  shows "model_ok (drop_dir d m)"
proof -
  have "parent_of p \<noteq> d" if "p \<in> set (md_dirs m) \<union> fst ` set (md_files m)" "p \<noteq> ROOT" for p
    using that assms children_parent [of p m d] good_slash [of p] unfolding model_ok_def by auto
  with assms show ?thesis
    unfolding model_ok_def drop_dir_def by (simp add: distinct_removeAll) blast
qed

definition gen_next :: "nat \<Rightarrow> gop list \<Rightarrow> 'r gen \<Rightarrow> bool" where
  "gen_next largest ops st \<longleftrightarrow> gen_ok largest st \<and> length (fst st) \<le> Suc (length ops)"

text \<open>A path the next operation may make.\<close>

definition fresh_ok :: "model \<Rightarrow> pstr \<Rightarrow> bool" where
  "fresh_ok m p \<longleftrightarrow> good_path p \<and> parent_of p \<in> set (md_dirs m)"

lemma gen_next_same: "list_all (gop_ok largest) ops \<Longrightarrow> model_ok m \<Longrightarrow> gen_next largest ops (ops, m, r)"
  by (simp add: gen_next_def gen_ok_def)

lemma gen_next_add:
  "list_all (gop_ok largest) ops \<Longrightarrow> model_ok m \<Longrightarrow> gop_ok largest op \<Longrightarrow> gen_next largest ops (ops @ [op], m, r)"
  by (simp add: gen_next_def gen_ok_def)

lemma file_fresh: "model_ok m \<Longrightarrow> p \<in> fst ` set (md_files m) \<Longrightarrow> fresh_ok m p"
  using file_ok [of m p] by (simp add: fresh_ok_def)

lemma target_fresh:
  assumes "model_ok m" "fresh_ok m fresh" "set files = fst ` set (md_files m)" "target \<in> set (files @ [fresh])"
  shows "fresh_ok m target"
  using assms file_fresh by auto

lemma gen_mkdir_ok:
  assumes "list_all (gop_ok largest) ops" "model_ok m" "fresh_ok m fresh"
  shows "gen_next largest ops (gen_mkdir fresh (ops, m, r))"
  using assms model_add_dir [of m fresh] gen_next_same [of largest ops m r]
    gen_next_add [of largest ops "add_dir fresh m" "GMkdir fresh" r]
  unfolding gen_mkdir_def fresh_ok_def by auto

lemma draw_text_ok:
  assumes "rng_ok rng"
  shows "draw_text rng n r = (t, r') \<Longrightarrow> length t = n \<and> list_all (\<lambda>c. 48 \<le> c \<and> c \<le> 122) t"
proof (induction n arbitrary: r t r')
  case (Suc n)
  then obtain c r1 t1 where c: "pick rng (u ''xyz0123456789'') r = (c, r1)" and t: "draw_text rng n r1 = (t1, r')" "t = c # t1"
    by (auto split: prod.splits)
  from pick_in [OF assms _ c] have "48 \<le> c \<and> c \<le> 122" by (auto simp: u_def)
  with Suc.IH [OF t(1)] t(2) show ?case by simp
qed simp

lemma gen_write_ok:
  assumes rng: "rng_ok rng" and "list_all (gop_ok largest) ops" "model_ok m" "fresh_ok m fresh" "set files = fst ` set (md_files m)"
  shows "gen_next largest ops (gen_write rng files fresh (ops, m, r))"
proof -
  obtain target r1 where t: "(if files \<noteq> [] then pick rng (files @ [fresh]) r else (fresh, r)) = (target, r1)" by fastforce
  then have "target \<in> set (files @ [fresh])" using pick_in [OF rng, of "files @ [fresh]" r target r1] by (auto split: if_splits)
  then have fr: "fresh_ok m target" using target_fresh assms(3-5) by blast
  show ?thesis
  proof (cases "target \<in> set (md_dirs m)")
    case True
    with t assms gen_next_same show ?thesis by (simp add: gen_write_def)
  next
    case False
    obtain n r2 where n: "randrange rng 1 40 r1 = (n, r2)" by fastforce
    obtain w r3 where w: "draw_text rng n r2 = (w, r3)" by fastforce
    have n40: "1 \<le> n" "n < 40" using randrange_in [OF rng _ n] by simp_all
    have wl: "length w = n" "list_all (\<lambda>c. 48 \<le> c \<and> c \<le> 122) w" using draw_text_ok [OF rng w] by simp_all
    have "model_ok (set_size target (length w) m)"
      by (rule model_set_size) (use assms(3) False fr n40 wl(1) in \<open>simp_all add: fresh_ok_def MAX_FILE_def\<close>)
    moreover have "gop_ok largest (GWrite target w)" using fr n40 wl by (auto simp: fresh_ok_def)
    ultimately have "gen_next largest ops (ops @ [GWrite target w], set_size target (length w) m, r3)"
      by (rule gen_next_add [OF assms(2)])
    then show ?thesis using t n w False by (simp add: gen_write_def)
  qed
qed

lemma gen_past_ok:
  assumes rng: "rng_ok rng" and "list_all (gop_ok largest) ops" "model_ok m" "fresh_ok m target" "target \<notin> set (md_dirs m)"
    "int sz \<le> MAX_FILE" "len \<le> largest"
  shows "gen_next largest ops (gen_past rng target sz len (ops, m, r))"
proof -
  obtain a r1 where a: "randrange rng 1 1024 r = (a, r1)" by fastforce
  obtain b r2 where b: "randrange rng 1024 40000 r1 = (b, r2)" by fastforce
  obtain g r3 where g: "pick rng [a, b] r2 = (g, r3)" by fastforce
  obtain s r4 where s: "randrange rng 0 256 r3 = (s, r4)" by fastforce
  have "s < 256" using randrange_in [OF rng _ s] by simp
  show ?thesis
  proof (cases "int (sz + g + len) > MAX_FILE")
    case True
    with a b g assms gen_next_same show ?thesis by (simp add: gen_past_def Let_def)
  next
    case False
    have "model_ok (set_size target (max sz (sz + g + len)) m)"
      by (rule model_set_size) (use assms False in \<open>simp_all add: fresh_ok_def\<close>)
    moreover have "gop_ok largest (GPwrite target (int (sz + g)) (int len) (int s))"
      using assms False \<open>s < 256\<close> by (simp add: fresh_ok_def)
    ultimately have "gen_next largest ops (ops @ [GPwrite target (int (sz + g)) (int len) (int s)],
        set_size target (max sz (sz + g + len)) m, r4)"
      by (rule gen_next_add [OF assms(2)])
    then show ?thesis using a b g s False by (simp add: gen_past_def Let_def)
  qed
qed

lemma gen_seek_ok:
  assumes rng: "rng_ok rng" and "list_all (gop_ok largest) ops" "model_ok m" "fresh_ok m target" "target \<notin> set (md_dirs m)"
    "int sz \<le> MAX_FILE" "len \<le> largest"
  shows "gen_next largest ops (gen_seek rng target sz len (ops, m, r))"
proof -
  obtain a r1 where a: "randrange rng 0 (sz + 1) r = (a, r1)" by fastforce
  obtain g r2 where g: "pick rng [0, sz, a] r1 = (g, r2)" by fastforce
  obtain s r3 where s: "randrange rng 0 256 r2 = (s, r3)" by fastforce
  have "s < 256" using randrange_in [OF rng _ s] by simp
  show ?thesis
  proof (cases "int (g + len) > MAX_FILE")
    case True
    with a g assms gen_next_same show ?thesis by (simp add: gen_seek_def)
  next
    case False
    have "model_ok (set_size target (max sz (g + len)) m)"
      by (rule model_set_size) (use assms False in \<open>simp_all add: fresh_ok_def\<close>)
    moreover have "gop_ok largest (GSeekwrite target (int g) (int len) (int s))"
      using assms False \<open>s < 256\<close> by (simp add: fresh_ok_def)
    ultimately have "gen_next largest ops (ops @ [GSeekwrite target (int g) (int len) (int s)],
        set_size target (max sz (g + len)) m, r3)"
      by (rule gen_next_add [OF assms(2)])
    then show ?thesis using a g s False by (simp add: gen_seek_def)
  qed
qed

lemma gen_pwrite_ok:
  assumes rng: "rng_ok rng" and "list_all (gop_ok largest) ops" "model_ok m" "fresh_ok m fresh" "set files = fst ` set (md_files m)"
  shows "gen_next largest ops (gen_pwrite rng largest files fresh (ops, m, r))"
proof -
  obtain target r1 where t: "pwrite_target rng files fresh r = (target, r1)" by fastforce
  have "target \<in> set (files @ [fresh])"
  proof -
    from t consider "target = fresh" | r' where "pick rng (files @ [fresh]) r' = (target, r1)"
      by (auto simp: pwrite_target_def split: if_splits prod.splits)
    then show ?thesis using pick_in [OF rng, of "files @ [fresh]"] by cases auto
  qed
  then have fr: "fresh_ok m target" using target_fresh assms(3-5) by blast
  show ?thesis
  proof (cases "target \<in> set (md_dirs m)")
    case True
    with t assms gen_next_same show ?thesis by (simp add: gen_pwrite_def)
  next
    case False
    obtain n r2 where n: "draw_length rng r1 = (n, r2)" by fastforce
    obtain past r3 where p: "r_chance rng 20 r2 = (past, r3)" by fastforce
    have "gen_next largest ops ((if past then gen_past else gen_seek) rng target (file_size m target) (min n largest) (ops, m, r3))"
      using gen_past_ok [OF assms(1-3) fr False file_size_le [OF assms(3)], of "min n largest" target r3]
        gen_seek_ok [OF assms(1-3) fr False file_size_le [OF assms(3)], of "min n largest" target r3] by simp
    with t n p False show ?thesis by (simp add: gen_pwrite_def Let_def)
  qed
qed

lemma gen_trunc_ok:
  assumes rng: "rng_ok rng" and "list_all (gop_ok largest) ops" "model_ok m" "set files = fst ` set (md_files m)"
  shows "gen_next largest ops (gen_trunc rng files (ops, m, r))"
proof (cases "files = []")
  case True
  with assms gen_next_same show ?thesis by (simp add: gen_trunc_def)
next
  case False
  obtain p r1 where p: "pick rng files r = (p, r1)" by fastforce
  with pick_in [OF rng False] assms(4) have f: "p \<in> fst ` set (md_files m)" by blast
  note f = file_ok [OF assms(3) f]
  have "model_ok (set_size p 0 m)" by (rule model_set_size [OF assms(3) f(1-3)]) (simp add: MAX_FILE_def)
  moreover have "gop_ok largest (GTrunc p)" using f(2) by simp
  ultimately have "gen_next largest ops (ops @ [GTrunc p], set_size p 0 m, r1)" by (rule gen_next_add [OF assms(2)])
  then show ?thesis using p False by (simp add: gen_trunc_def)
qed

lemma gen_unlink_ok:
  assumes rng: "rng_ok rng" and "list_all (gop_ok largest) ops" "model_ok m" "set files = fst ` set (md_files m)"
  shows "gen_next largest ops (gen_unlink rng files (ops, m, r))"
proof (cases "files = []")
  case True
  with assms gen_next_same show ?thesis by (simp add: gen_unlink_def)
next
  case False
  obtain p r1 where p: "pick rng files r = (p, r1)" by fastforce
  with pick_in [OF rng False] assms(4) have f: "p \<in> fst ` set (md_files m)" by blast
  have "gop_ok largest (GUnlink p)" using file_ok(2) [OF assms(3) f] by simp
  then have "gen_next largest ops (ops @ [GUnlink p], m\<lparr>md_files := AList.delete p (md_files m)\<rparr>, r1)"
    by (rule gen_next_add [OF assms(2) model_delete_file [OF assms(3)]])
  then show ?thesis using p False by (simp add: gen_unlink_def)
qed

lemma gen_rmdir_ok:
  assumes rng: "rng_ok rng" and "list_all (gop_ok largest) ops" "model_ok m" "set dirs = set (md_dirs m)"
  shows "gen_next largest ops (gen_rmdir rng dirs (ops, m, r))"
proof (cases "filter (\<lambda>d. d \<noteq> ROOT) dirs = []")
  case True
  show ?thesis unfolding gen_rmdir_def Let_def prod.case if_P [OF True] by (rule gen_next_same [OF assms(2,3)])
next
  case False
  obtain d r1 where d: "pick rng (filter (\<lambda>d. d \<noteq> ROOT) dirs) r = (d, r1)" by fastforce
  from pick_in [OF rng False d] have dd: "d \<in> set (md_dirs m)" "d \<noteq> ROOT" by (simp_all add: assms(4))
  have "model_ok (if children m d = [] then drop_dir d m else m)"
    using model_drop_dir [OF assms(3) dd(2)] assms(3) by simp
  moreover have "gop_ok largest (GRmdir d)" using dir_ok(1) [OF assms(3) dd] by simp
  ultimately have "gen_next largest ops (ops @ [GRmdir d], if children m d = [] then drop_dir d m else m, r1)"
    by (rule gen_next_add [OF assms(2)])
  then show ?thesis unfolding gen_rmdir_def Let_def prod.case if_not_P [OF False] d .
qed

lemma gen_rename_file_ok:
  assumes rng: "rng_ok rng" and "list_all (gop_ok largest) ops" "model_ok m" "fresh_ok m fresh" "set files = fst ` set (md_files m)"
  shows "gen_next largest ops (gen_rename_file rng files fresh (ops, m, r))"
proof (cases "files = []")
  case True
  with assms gen_next_same show ?thesis by (simp add: gen_rename_file_def)
next
  case False
  obtain p r1 where p: "pick rng files r = (p, r1)" by fastforce
  with pick_in [OF rng False] assms(5) have f: "p \<in> fst ` set (md_files m)" by blast
  obtain q r2 where q: "pick rng (files @ [fresh]) r1 = (q, r2)" by fastforce
  from pick_in [OF rng _ q] have "q \<in> set (files @ [fresh])" by simp
  then have fr: "fresh_ok m q" using target_fresh assms(3-5) by blast
  show ?thesis
  proof (cases "q \<in> set (md_dirs m) \<or> q = p")
    case True
    with p q False assms gen_next_same show ?thesis by (auto simp: gen_rename_file_def)
  next
    case other: False
    have "model_ok (set_size q (file_size m p) (m\<lparr>md_files := AList.delete p (md_files m)\<rparr>))"
      by (rule model_set_size [OF model_delete_file [OF assms(3)]])
        (use other fr file_size_le [OF assms(3)] in \<open>simp_all add: fresh_ok_def\<close>)
    moreover have "gop_ok largest (GRename p q)" using file_ok(2) [OF assms(3) f] fr by (simp add: fresh_ok_def)
    ultimately have "gen_next largest ops (ops @ [GRename p q],
        set_size q (file_size m p) (m\<lparr>md_files := AList.delete p (md_files m)\<rparr>), r2)"
      by (rule gen_next_add [OF assms(2)])
    then show ?thesis using p q other False by (simp add: gen_rename_file_def)
  qed
qed

lemma gen_rename_dir_ok:
  assumes rng: "rng_ok rng" and "list_all (gop_ok largest) ops" "model_ok m" "set dirs = set (md_dirs m)"
  shows "gen_next largest ops (gen_rename_dir rng dirs (ops, m, r))"
proof (cases "filter (\<lambda>d. d \<noteq> ROOT \<and> children m d = []) dirs = []")
  case True
  show ?thesis unfolding gen_rename_dir_def Let_def prod.case if_P [OF True] by (rule gen_next_same [OF assms(2,3)])
next
  case False
  obtain d r1 where d: "pick rng (filter (\<lambda>d. d \<noteq> ROOT \<and> children m d = []) dirs) r = (d, r1)" by fastforce
  from pick_in [OF rng False d] have dd: "d \<in> set (md_dirs m)" "d \<noteq> ROOT" "children m d = []"
    by (simp_all add: assms(4))
  obtain x r2 where x: "name_for rng r1 = (x, r2)" by fastforce
  let ?t = "parent_of d @ 47 # x"
  note dok = dir_ok [OF assms(3) dd(1,2)]
  note below = below_dir [OF assms(3) dok(2) name_for_ok [OF rng x]]
  show ?thesis
  proof (cases "?t \<in> set (md_dirs m) \<or> ?t \<in> fst ` set (md_files m)")
    case True
    then have "gen_next largest ops (if ?t \<in> set (md_dirs m) \<or> ?t \<in> fst ` set (md_files m) then (ops, m, r2)
        else (ops @ [GRename d ?t], add_dir ?t (drop_dir d m), r2))"
      using gen_next_same [OF assms(2,3)] by simp
    then show ?thesis unfolding gen_rename_dir_def Let_def prod.case if_not_P [OF False] d x append_Cons append_Nil .
  next
    case fresh: False
    have "parent_of d \<noteq> d"
      using good_slash [OF dok(1)] by (auto elim!: rsplit_parts)
    then have "parent_of ?t \<in> set (md_dirs (drop_dir d m))" using below(2) dok(2) by (simp add: drop_dir_def)
    then have "model_ok (add_dir ?t (drop_dir d m))"
      using model_add_dir [OF model_drop_dir [OF assms(3) dd(2,3)], of ?t] fresh below(1) by (simp add: drop_dir_def)
    moreover have "gop_ok largest (GRename d ?t)" using dok(1) below(1) by simp
    ultimately have "gen_next largest ops (ops @ [GRename d ?t], add_dir ?t (drop_dir d m), r2)"
      by (rule gen_next_add [OF assms(2)])
    then have "gen_next largest ops (if ?t \<in> set (md_dirs m) \<or> ?t \<in> fst ` set (md_files m) then (ops, m, r2)
        else (ops @ [GRename d ?t], add_dir ?t (drop_dir d m), r2))"
      using fresh by simp
    then show ?thesis unfolding gen_rename_dir_def Let_def prod.case if_not_P [OF False] d x append_Cons append_Nil .
  qed
qed

lemma zz_name_ok:
  assumes "model_ok m" "d \<in> set (md_dirs m)" "zz_name rng d r = (p, r')"
  shows "good_path p"
proof -
  from assms(3) obtain n where p: "p = d @ 47 # (u ''zz'' @ str_nat n)"
    by (auto simp: zz_name_def u_def split: prod.splits)
  show ?thesis unfolding p
    by (rule below_dir(1) [OF assms(1,2)]) (use str_nat_plain in \<open>auto simp: u_def isspace_char_def\<close>)
qed

lemma gen_error_ok:
  assumes rng: "rng_ok rng" and "list_all (gop_ok largest) ops" "model_ok m" "set files = fst ` set (md_files m)"
    "set (tl dirs) \<subseteq> set (md_dirs m) - {ROOT}" "parent \<in> set (md_dirs m)"
  shows "gen_next largest ops (gen_error rng dirs files parent (ops, m, r))"
proof -
  obtain c r1 where c: "randrange rng 0 5 r = (c, r1)" by fastforce
  obtain z r2 where z: "zz_name rng parent r1 = (z, r2)" by fastforce
  obtain d r3 where d: "pick rng (tl dirs) r1 = (d, r3)" by fastforce
  obtain f r4 where f: "pick rng files r1 = (f, r4)" by fastforce
  have gz: "good_path z" by (rule zz_name_ok [OF assms(3,6) z])
  have gd: "good_path d" if "length dirs > 1"
  proof -
    from that have "tl dirs \<noteq> []" by (cases dirs) auto
    from pick_in [OF rng this d] assms(5) dir_ok(1) [OF assms(3)] show ?thesis by blast
  qed
  have gf: "good_path f" if "files \<noteq> []"
    using pick_in [OF rng that f] assms(4) file_ok(2) [OF assms(3)] by blast
  note add = gen_next_add [OF assms(2,3)]
  have adds: "gen_next largest ops (ops @ [GUnlink z], m, r2)" "gen_next largest ops (ops @ [GRmdir z], m, r2)"
      "length dirs > 1 \<Longrightarrow> gen_next largest ops (ops @ [GMkdir d], m, r3)"
      "length dirs > 1 \<Longrightarrow> gen_next largest ops (ops @ [GUnlink d], m, r3)"
      "files \<noteq> [] \<Longrightarrow> gen_next largest ops (ops @ [GRmdir f], m, r4)"
    using gz gd gf by (simp_all add: add)
  show ?thesis using adds gen_next_same [OF assms(2,3), of r1] c z d f
    by (simp add: gen_error_def split: if_splits) 
qed

lemma root_le: "p = ROOT \<or> good_path p \<Longrightarrow> ROOT \<le> p"
proof -
  have "ROOT < ROOT @ 47 # x" for x unfolding list_less_def by (rule lexord_append_rightI) blast
  moreover have "\<exists>x. p = ROOT @ 47 # x" if "good_path p"
  proof -
    from that have "take (length (ROOT @ [47])) p = ROOT @ [47]" by (simp add: good_path_def startswith_def)
    then have "p = (ROOT @ [47]) @ drop (length (ROOT @ [47])) p" by (metis append_take_drop_id)
    then show ?thesis by (metis append.assoc append_Cons append_Nil)
  qed
  ultimately show "p = ROOT \<or> good_path p \<Longrightarrow> ROOT \<le> p" by (auto simp: less_imp_le)
qed

lemma sorted_dirs_tl:
  assumes "model_ok m"
  shows "set (tl (sort (md_dirs m))) \<subseteq> set (md_dirs m) - {ROOT}"
proof -
  have root: "ROOT \<in> set (sort (md_dirs m))" "distinct (sort (md_dirs m))" using assms unfolding model_ok_def by simp_all
  obtain d ds where ds: "sort (md_dirs m) = d # ds" using root(1) by (cases "sort (md_dirs m)") auto
  have "d \<in> set (md_dirs m)" by (metis ds list.set_intros(1) set_sort)
  then have "d = ROOT \<or> good_path d" using assms unfolding model_ok_def by blast
  then have "ROOT \<le> d" by (rule root_le)
  moreover have "d \<le> ROOT" using root(1) sorted_sort [of "md_dirs m"] unfolding ds by auto
  ultimately have "d = ROOT" by simp
  moreover have "set ds \<subseteq> set (md_dirs m)" by (metis ds set_sort set_subset_Cons)
  ultimately show ?thesis using root(2) unfolding ds by auto
qed

lemma gen_step_ok:
  assumes "rng_ok rng" "gen_ok largest st"
  shows "gen_next largest (fst st) (gen_step rng largest st)"
proof -
  obtain ops m r where st: "st = (ops, m, r)" by (metis surj_pair)
  from assms(2) have ok: "list_all (gop_ok largest) ops" "model_ok m" by (simp_all add: gen_ok_def st)
  let ?dirs = "sort (md_dirs m)" and ?files = "sort (map fst (md_files m))"
  obtain parent r1 where p: "pick rng ?dirs r = (parent, r1)" by fastforce
  obtain name r2 where n: "name_for rng r1 = (name, r2)" by fastforce
  obtain kind r3 where k: "r_weighted rng WEIGHTS r2 = (kind, r3)" by fastforce
  have root: "ROOT \<in> set (md_dirs m)" "distinct (md_dirs m)" using ok(2) unfolding model_ok_def by blast+
  then have "?dirs \<noteq> []" by (metis empty_iff list.set(1) set_sort)
  with pick_in [OF assms(1) _ p] have parent: "parent \<in> set (md_dirs m)" by simp
  have fresh: "fresh_ok m (parent @ 47 # name)"
    using below_dir [OF ok(2) parent name_for_ok [OF assms(1) n]] parent by (simp add: fresh_ok_def)
  have files: "set ?files = fst ` set (md_files m)" by simp
  have dirs: "set ?dirs = set (md_dirs m)" by simp
  have tl: "set (tl ?dirs) \<subseteq> set (md_dirs m) - {ROOT}" by (rule sorted_dirs_tl [OF ok(2)])
  show ?thesis
    unfolding gen_step_def Let_def st prod.case p n k fst_conv append_Cons append_Nil
    using gen_mkdir_ok [OF ok fresh, of r3] gen_write_ok [OF assms(1) ok fresh files, of r3]
      gen_pwrite_ok [OF assms(1) ok fresh files, of r3] gen_trunc_ok [OF assms(1) ok files, of r3]
      gen_unlink_ok [OF assms(1) ok files, of r3] gen_rmdir_ok [OF assms(1) ok dirs, of r3]
      gen_rename_file_ok [OF assms(1) ok fresh files, of r3] gen_rename_dir_ok [OF assms(1) ok dirs, of r3]
      gen_error_ok [OF assms(1) ok files tl parent, of r3]
    by (simp only: split: if_split) simp
qed

lemma generate_loop_ok:
  assumes "generate_loop rng largest count st = Some st'"
  shows "rng_ok rng \<longrightarrow> gen_ok largest st \<longrightarrow> length (fst st) \<le> count \<longrightarrow> gen_ok largest st' \<and> length (fst st') = count"
proof (rule generate_loop.raw_induct [OF _ assms], intro impI)
  fix loop and rng :: "'r rng" and largest count st st'
  assume IH: "\<And>rng largest count st st'. loop rng largest count st = Some st' \<Longrightarrow>
      rng_ok rng \<longrightarrow> gen_ok largest st \<longrightarrow> length (fst st) \<le> count \<longrightarrow> gen_ok largest st' \<and> length (fst st') = count"
    and body: "(if length (fst st) < count then loop rng largest count (gen_step rng largest st) else Some st) = Some st'"
    and ok: "rng_ok rng" "gen_ok largest st" "length (fst st) \<le> count"
  show "gen_ok largest st' \<and> length (fst st') = count"
  proof (cases "length (fst st) < count")
    case True
    have "gen_next largest (fst st) (gen_step rng largest st)" by (rule gen_step_ok [OF ok(1,2)])
    with True have "gen_ok largest (gen_step rng largest st)" "length (fst (gen_step rng largest st)) \<le> count"
      by (auto simp: gen_next_def)
    with IH [of rng largest count "gen_step rng largest st" st'] body ok(1) True show ?thesis by simp
  qed (use body ok in auto)
qed

text \<open>The words of an operation's line.\<close>

fun op_words :: "gop \<Rightarrow> pstr list" where
  "op_words (GMkdir p) = [u ''mkdir'', p]"
| "op_words (GRmdir p) = [u ''rmdir'', p]"
| "op_words (GUnlink p) = [u ''unlink'', p]"
| "op_words (GRename p q) = [u ''rename'', p, q]"
| "op_words (GWrite p t) = [u ''write'', p, t]"
| "op_words (GTrunc p) = [u ''trunc'', p]"
| "op_words (GPwrite p a n s) = [u ''pwrite'', p, str_int a, str_int n, str_int s]"
| "op_words (GSeekwrite p a n s) = [u ''seekwrite'', p, str_int a, str_int n, str_int s]"
| "op_words (GOverwrite p q) = [u ''overwrite'', p, q]"

definition word_ok :: "pstr \<Rightarrow> bool" where
  "word_ok w \<longleftrightarrow> w \<noteq> [] \<and> list_all (\<lambda>c. \<not> isspace_char c) w"

lemma split_loop_word: "list_all (\<lambda>c. \<not> isspace_char c) w \<Longrightarrow> split_loop cur (w @ s) = split_loop (cur @ w) s"
  by (induction w arbitrary: cur) auto

lemma split_ws_join: "list_all word_ok ws \<Longrightarrow> split_ws (join [32] ws) = ws"
proof (induction ws rule: induct_list012)
  case (2 w)
  then show ?case using split_loop_word [of w "[]" "[]"] by (simp add: split_ws_def word_ok_def)
next
  case (3 w v ws)
  have "isspace_char 32" by (simp add: isspace_char_def)
  with 3 show ?case using split_loop_word [of w "[]" "32 # join [32] (v # ws)"]
    by (simp add: split_ws_def word_ok_def)
qed (simp add: split_ws_def)

lemma op_text_words: "op_text op = join [32] (op_words op)"
  by (cases op) (simp_all add: u_def)

lemma str_int_word: "0 \<le> n \<Longrightarrow> word_ok (str_int n)"
  using str_nat_plain [of "nat n"] by (simp add: word_ok_def str_int_def)

lemma good_word: "good_path p \<Longrightarrow> word_ok p"
  by (auto simp: good_path_def word_ok_def startswith_def)

lemma text_word: "t \<noteq> [] \<Longrightarrow> list_all (\<lambda>c. 48 \<le> c \<and> c \<le> 122) t \<Longrightarrow> word_ok t"
  by (force simp: word_ok_def list_all_iff isspace_char_def)

lemma op_words_ok: "gop_ok largest op \<Longrightarrow> split_ws (op_text op) = op_words op"
proof -
  assume "gop_ok largest op"
  then have "list_all word_ok (op_words op)"
    by (cases op) (auto simp: good_word str_int_word text_word, simp_all add: word_ok_def u_def isspace_char_def)
  then show ?thesis by (simp add: op_text_words split_ws_join)
qed

lemma ascii_utf8: "list_all (\<lambda>c. 48 \<le> c \<and> c \<le> 122) t \<Longrightarrow> encode_utf8 t = Inr (map of_nat t)"
proof -
  have "list_all (\<lambda>c. 48 \<le> c \<and> c \<le> 122) t \<Longrightarrow> mapM utf8_char t = Inr (map (\<lambda>c. [of_nat c]) t)"
    by (induction t) (auto simp: utf8_char_def)
  then show "list_all (\<lambda>c. 48 \<le> c \<and> c \<le> 122) t \<Longrightarrow> encode_utf8 t = Inr (map of_nat t)"
    by (simp add: encode_utf8_def)
qed

lemma os_apply_returns:
  assumes "gop_ok largest op"
  shows "\<exists>r. os_apply os (op_words op) failed kept f = Inr r"
  using assms
  by (cases op) (auto simp: os_apply_def word_at_def os_write_def os_pwrite_def is_pwrite_def word_ints_def ascii_utf8
      Let_def split: sum.splits)

lemma unjustified_returns:
  assumes "gop_ok largest op" "res_free k \<noteq> None"
  shows "\<exists>r. unjustified os (op_words op) k f = Inr r"
  using assms
  by (cases op; cases "res_written k")
    (auto simp: unjustified_def word_at_def is_pwrite_def word_ints_def split: option.splits)


text \<open>A generator that always draws the first choice makes a directory.\<close>

definition first_choice :: "unit rng" where
  "first_choice = \<lparr>r_seed = (\<lambda>_. ()), r_below = (\<lambda>_ r. (0, r)), r_chance = (\<lambda>_ r. (False, r)), r_weighted = (\<lambda>_ r. (0, r))\<rparr>"

lemma first_choice_ops: "generate first_choice 0 1 4000 = Some [GMkdir (u ''eq/a0'')]"
proof -
  have "gen_step first_choice 4000 ([], new_model, ()) = ([GMkdir (u ''eq/a0'')], add_dir (u ''eq/a0'') new_model, ())"
    by (simp add: gen_step_def first_choice_def pick_def name_for_def randrange_def gen_mkdir_def new_model_def ROOT_def u_def
        str_nat_small Let_def)
  then show ?thesis
    by (simp add: generate_def generate_loop.simps [of _ _ _ "([], _)"] generate_loop.simps [of _ _ _ "(_ # _, _)"] first_choice_def
        flip: One_nat_def)
qed


subsection \<open>The rows as operations\<close>

lemma list_all2_pair:
  "list_all2 P [a] xs \<longleftrightarrow> (\<exists>x. xs = [x] \<and> P a x)"
  "list_all2 P [a, b] xs \<longleftrightarrow> (\<exists>x y. xs = [x, y] \<and> P a x \<and> P b y)"
  by (auto simp: list_all2_Cons1)

lemma count_int:
  assumes "list_all (\<lambda>c. 48 \<le> c \<and> c \<le> 57) s" "s \<noteq> []"
  shows "\<exists>n. py_int s = Inr n"
proof -
  have "is_decimal c" if "c \<in> set s" for c
    using assms that by (auto simp: list_all_iff is_decimal_latin)
  then show ?thesis using assms decimal_digits_int [of s] by (auto simp: list_all_iff)
qed

lemma op_lines_host_total:
  assumes "op_ok name (n, op, args)"
  shows "\<exists>new skip. op_lines_host op args = Inr (new, skip)"
proof -
  have "op \<in> fst ` set OPS" using assms by (auto split: option.splits dest: map_of_SomeD intro: rev_image_eqI)
  then consider "op = u ''mkdir''" | "op = u ''rmdir''" | "op = u ''write''" | "op = u ''fill''" | "op = u ''overwrite''"
    | "op = u ''truncate''" | "op = u ''unlink''" | "op = u ''rename''" | "op = u ''files''" | "op = u ''peer''" | "op = u ''adopt''"
    by (auto simp: OPS_def)
  then show ?thesis
    using assms by cases
      (auto simp: OPS_def list_all2_pair op_lines_host_def rooted_def word_at_def dest!: count_int)
qed

text \<open>The operations of a row do not depend on what is before them.\<close>

lemma add_host_ops:
  assumes "list_all (op_ok name) ops"
  shows "\<exists>new skips. \<forall>ls skipped. foldM (add_host_op row) (ls, skipped) ops = Inr (ls @ new, skipped @ skips)"
  using assms
proof (induction ops)
  case (Cons x ops)
  obtain n op args where x: "x = (n, op, args)" by (metis surj_pair)
  from Cons.prems have "op_ok name (n, op, args)" by (simp add: x)
  then obtain new skip where new: "op_lines_host op args = Inr (new, skip)" using op_lines_host_total by blast
  from Cons obtain news skips where "\<forall>ls skipped. foldM (add_host_op row) (ls, skipped) ops = Inr (ls @ news, skipped @ skips)"
    by auto
  then have "\<forall>ls skipped. foldM (add_host_op row) (ls, skipped) (x # ops)
      = Inr (ls @ (new @ news), skipped @ ((if skip then [row] else []) @ skips))"
    by (simp add: x add_host_op_def new)
  then show ?case by blast
qed auto

text \<open>The operations of a row alone.\<close>

definition row_part :: "row \<Rightarrow> gop list" where
  "row_part r = (case eq_lines [r] of Inr (ops, _) \<Rightarrow> ops | Inl _ \<Rightarrow> [])"

lemma add_host_row_part:
  assumes "row_ok r"
  shows "\<exists>skips. \<forall>ls spans skipped. add_host_row (ls, spans, skipped) r
      = Inr (ls @ row_part r, spans @ [(length ls, length ls + length (row_part r))], skipped @ skips)"
proof -
  from assms have "list_all (op_ok (r_name r)) (r_ops r)" by (simp add: row_ok_def)
  from add_host_ops [OF this, of "r_name r"] obtain new skips where
    new: "\<And>ls skipped. foldM (add_host_op (r_name r)) (ls, skipped) (r_ops r) = Inr (ls @ new, skipped @ skips)" by blast
  then have "row_part r = new" by (simp add: row_part_def eq_lines_def add_host_row_def)
  with new show ?thesis by (auto simp: add_host_row_def)
qed

lemma eq_lines_parts:
  "list_all row_ok rows \<Longrightarrow> \<exists>skips. foldM add_host_row (ls, spans, skipped) rows = Inr (ls @ concat (map row_part rows),
     spans @ map (\<lambda>i. (length ls + length (concat (map row_part (take i rows))),
        length ls + length (concat (map row_part (take (Suc i) rows))))) [0..<length rows], skips)"
proof (induction rows arbitrary: ls spans skipped)
  case (Cons r rows)
  from Cons.prems add_host_row_part [of r] obtain sk where
    r: "add_host_row (ls, spans, skipped) r
      = Inr (ls @ row_part r, spans @ [(length ls, length ls + length (row_part r))], skipped @ sk)" by auto
  have "[0..<length (r # rows)] = 0 # map Suc [0..<length rows]" by (simp add: upt_conv_Cons map_Suc_upt del: upt_Suc)
  then show ?case
    using r Cons.IH [of "ls @ row_part r" "spans @ [(length ls, length ls + length (row_part r))]" "skipped @ sk"] Cons.prems
    by (simp add: o_def add.assoc del: upt_Suc)
qed simp

text \<open>
  (C34) Every table \<open>parse\<close> accepts is translated: each of its operations has a form on the
  host, there is a span for each row, the spans are adjacent and cover all operations, and
  the operations in a row's span are the ones the row alone gives.
\<close>

theorem parsed_rows_translate:
  assumes "parse source = Inr rows"
  shows "\<exists>ops spans skipped. eq_lines rows = Inr (ops, spans, skipped)
    \<and> 0 # map snd spans = map fst spans @ [length ops]
    \<and> list_all2 (\<lambda>r (a, b). a \<le> b \<and> b \<le> length ops \<and> take (b - a) (drop a ops) = row_part r) rows spans"
proof -
  from parse_wf [OF assms] have "list_all row_ok rows" by (simp add: rows_wf_def)
  let ?len = "\<lambda>i. length (concat (map row_part (take i rows)))"
  let ?spans = "map (\<lambda>i. (?len i, ?len (Suc i))) [0..<length rows]"
  let ?ops = "concat (map row_part rows)"
  from eq_lines_parts [OF \<open>list_all row_ok rows\<close>, of "[]" "[]" "[]"] obtain skips where
    "eq_lines rows = Inr (?ops, ?spans, skips)" by (auto simp: eq_lines_def)
  moreover have "0 # map snd ?spans = map fst ?spans @ [length ?ops]"
  proof -
    have "0 # map snd ?spans = map ?len [0..<Suc (length rows)]"
      by (simp add: o_def upt_conv_Cons map_Suc_upt [symmetric] del: upt_Suc)
    then show ?thesis by (simp add: o_def)
  qed
  moreover have "list_all2 (\<lambda>r (a, b). a \<le> b \<and> b \<le> length ?ops \<and> take (b - a) (drop a ?ops) = row_part r) rows ?spans"
  proof (rule list_all2_all_nthI)
    fix i assume i: "i < length rows"
    have "rows = take i rows @ rows ! i # drop (Suc i) rows" using i by (simp add: id_take_nth_drop [symmetric])
    then have "?ops = concat (map row_part (take i rows)) @ row_part (rows ! i) @ concat (map row_part (drop (Suc i) rows))"
      by (metis concat.simps(2) concat_append list.simps(9) map_append)
    moreover have "?len (Suc i) = ?len i + length (row_part (rows ! i))" using i by (simp add: take_Suc_conv_app_nth)
    ultimately show "case ?spans ! i of (a, b) \<Rightarrow> a \<le> b \<and> b \<le> length ?ops \<and> take (b - a) (drop a ?ops) = row_part (rows ! i)"
      using i by simp
  qed simp
  ultimately show ?thesis by blast
qed

theorem parsed_rows_translate_witness:
  "parse sample_rows
    = Inr [\<lparr>r_name = u ''a'', r_expect = u ''match'', r_issue = u ''-'', r_ops = [(2, u ''mkdir'', [u ''a/../b''])]\<rparr>]
   \<and> (\<exists>ops spans skipped. eq_lines [\<lparr>r_name = u ''a'', r_expect = u ''match'', r_issue = u ''-'',
          r_ops = [(2, u ''mkdir'', [u ''a/../b''])]\<rparr>] = Inr (ops, spans, skipped)
        \<and> 0 # map snd spans = map fst spans @ [length ops])"
  using parsed_rows_translate [OF dotdot_accepted] dotdot_accepted by blast


subsection \<open>The campaign\<close>

text \<open>The two sides agree after these operations.\<close>

definition agrees :: "('i, 'f) lab \<Rightarrow> (nat \<Rightarrow> bool) \<Rightarrow> 'i program \<Rightarrow> 'i \<Rightarrow> pstr list \<Rightarrow> bool" where
  "agrees lab uw exe pristine ls \<longleftrightarrow> (\<exists>results. compare_run lab uw exe pristine ls None = Some (Inr (Some [], results)))"

text \<open>They agree after every checkpoint of the seed.\<close>

definition seed_agrees ::
  "('i, 'f) lab \<Rightarrow> (nat \<Rightarrow> bool) \<Rightarrow> 'r rng \<Rightarrow> 'i program \<Rightarrow> 'i \<Rightarrow> nat \<Rightarrow> nat list \<Rightarrow> nat \<Rightarrow> bool" where
  "seed_agrees lab uw rng exe pristine ops prefixes seed \<longleftrightarrow>
     (\<exists>gops. generate rng seed ops 80000 = Some gops
       \<and> list_all (\<lambda>p. agrees lab uw exe pristine (take p (map op_text gops))) prefixes)"

lemma compare_run_unarmed: "compare_run lab uw exe pristine ls None \<noteq> Some (Inr (None, results))"
  by (auto simp: compare_run_def bindO_Inr Let_def split: if_splits)

lemma host_main_zero:
  "host_main lab uw rng exe mutant mode = Some (Inr (0, report)) \<longleftrightarrow> run_mode lab uw rng exe mutant mode = Some (Inr (0, report))"
  by (auto simp: host_main_def split: option.splits sum.splits host_error.splits)

lemma passed_zero: "passed r = (0, report) \<longleftrightarrow> (\<exists>message. r = Pass message \<and> report = HPass r)"
  by (auto simp: passed_def split: pass_result.splits)

lemma report_pass_one: "(\<exists>message. report_pass check text_out [(name, int n)] = Pass message) \<longleftrightarrow> 0 < n"
  by (simp add: report_pass_def empty_counts_def)

lemma host_main_campaign:
  "(\<exists>report. host_main lab uw rng exe mutant (MCampaign seeds ops every first) = Some (Inr (0, report)))
    \<longleftrightarrow> (\<exists>n>0. campaign lab uw rng exe seeds ops every first = Some (Inr (None, n)))"
proof (cases "campaign lab uw rng exe seeds ops every first")
  case (Some r)
  show ?thesis
  proof (cases r)
    case (Inr x)
    obtain failure n where x: "x = (failure, n)" by (cases x)
    show ?thesis
    proof (cases failure)
      case None
      then show ?thesis using report_pass_one [of "u ''ext2-host campaign''" _ "u ''checkpoints''" n]
        unfolding host_main_zero run_mode_def mode.case Some Inr x by (simp add: passed_zero)
    qed (simp add: host_main_zero run_mode_def Some Inr x)
  qed (simp add: host_main_zero run_mode_def Some)
qed (simp add: host_main_zero run_mode_def)

lemma check_prefixes_none:
  "check_prefixes lab uw exe pristine ls ps checks = Some (Inr (None, n))
   \<longleftrightarrow> list_all (\<lambda>p. agrees lab uw exe pristine (take p ls)) ps \<and> n = checks + length ps"
proof (induction ps arbitrary: checks)
  case (Cons p ps)
  show ?case
  proof (cases "compare_run lab uw exe pristine (take p ls) None")
    case (Some r)
    then show ?thesis
      using Cons.IH
      by (cases r) (auto simp: agrees_def compare_run_unarmed split: option.splits list.splits)
  qed (simp add: agrees_def)
qed auto

lemma check_seeds_none:
  assumes "checkpoints every ops = Inr ps"
  shows "check_seeds lab uw rng exe pristine ops every seeds checks = Some (Inr (None, n))
   \<longleftrightarrow> list_all (seed_agrees lab uw rng exe pristine ops ps) seeds \<and> n = checks + length seeds * length ps"
proof (induction seeds arbitrary: checks)
  case (Cons seed seeds)
  show ?case
  proof (cases "generate rng seed ops 80000")
    case (Some gops)
    have "check_seeds lab uw rng exe pristine ops every (seed # seeds) checks = Some (Inr (None, n))
      \<longleftrightarrow> (\<exists>m. check_prefixes lab uw exe pristine (map op_text gops) ps checks = Some (Inr (None, m))
          \<and> check_seeds lab uw rng exe pristine ops every seeds m = Some (Inr (None, n)))"
    proof (cases "check_prefixes lab uw exe pristine (map op_text gops) ps checks")
      case r: (Some r)
      then show ?thesis using assms by (cases r) (auto simp: Some from_py_def split: option.splits)
    qed (use assms in \<open>simp add: Some from_py_def\<close>)
    moreover have "seed_agrees lab uw rng exe pristine ops ps seed
        \<longleftrightarrow> list_all (\<lambda>p. agrees lab uw exe pristine (take p (map op_text gops))) ps"
      by (simp add: seed_agrees_def Some)
    ultimately show ?thesis unfolding check_prefixes_none Cons.IH list.pred_inject by auto
  qed (simp add: seed_agrees_def)
qed auto

lemma checkpoints_filter:
  assumes "0 < every"
  shows "checkpoints every ops = Inr (filter (\<lambda>p. every dvd p \<and> 0 < p) [0..<ops] @ [ops])"
proof -
  have "map (\<lambda>i. every * Suc i) [0..<(ops - 1) div every] = filter (\<lambda>p. every dvd p \<and> 0 < p) [0..<ops]"
  proof (rule sorted_distinct_set_unique)
    show "sorted (map (\<lambda>i. every * Suc i) [0..<(ops - 1) div every])"
      by (simp add: sorted_map) (rule sorted_wrt_mono_rel [OF _ sorted_upt], simp)
    show "distinct (map (\<lambda>i. every * Suc i) [0..<(ops - 1) div every])"
      using assms by (simp add: distinct_map inj_on_def)
    have "every * Suc i < ops \<longleftrightarrow> i < (ops - 1) div every" for i
    proof -
      have "i < (ops - 1) div every \<longleftrightarrow> Suc i * every \<le> ops - 1"
        using assms by (simp only: less_eq_div_iff_mult_less_eq [symmetric] Suc_le_eq)
      also have "\<dots> \<longleftrightarrow> every * Suc i < ops" using assms by (auto simp: mult.commute)
      finally show ?thesis by simp
    qed
    then have "set (map (\<lambda>i. every * Suc i) [0..<(ops - 1) div every]) = {every * Suc i |i. every * Suc i < ops}"
      by (auto simp del: mult_Suc_right)
    also have "\<dots> = {p. p < ops \<and> every dvd p \<and> 0 < p}"
    proof (intro equalityI subsetI)
      fix p assume "p \<in> {p. p < ops \<and> every dvd p \<and> 0 < p}"
      moreover then obtain j where "p = every * j" by (auto elim: dvdE)
      ultimately show "p \<in> {every * Suc i |i. every * Suc i < ops}" by (cases j) auto
    qed (use assms in \<open>auto simp del: mult_Suc_right\<close>)
    finally show "set (map (\<lambda>i. every * Suc i) [0..<(ops - 1) div every]) = set (filter (\<lambda>p. every dvd p \<and> 0 < p) [0..<ops])"
      by auto
  qed (simp_all add: sorted_wrt_filter)
  then show ?thesis using assms by (simp add: checkpoints_def)
qed

text \<open>
  (C31) The campaign exits with status 0 exactly when the image can be made, there are a
  seed and a positive step, and for every seed the generator returns and the kernel's
  image and host Linux's agree after every checkpoint, the last one all operations.
\<close>

theorem campaign_passes_iff:
  "(\<exists>report. host_main lab uw rng exe mutant (MCampaign seeds ops every first) = Some (Inr (0, report)))
   \<longleftrightarrow> 0 < seeds \<and> 0 < every \<and> (\<exists>pristine. lab_mke2fs lab FS_BLOCKS FS_INODES = Inr pristine
     \<and> list_all (seed_agrees lab uw rng exe pristine ops (filter (\<lambda>p. every dvd p \<and> 0 < p) [0..<ops] @ [ops])) [first..<first + seeds])"
proof -
  let ?ps = "filter (\<lambda>p. every dvd p \<and> 0 < p) [0..<ops] @ [ops]"
  have "(\<exists>report. host_main lab uw rng exe mutant (MCampaign seeds ops every first) = Some (Inr (0, report)))
    \<longleftrightarrow> (\<exists>n>0. campaign lab uw rng exe seeds ops every first = Some (Inr (None, n)))" (is "?exit \<longleftrightarrow> _")
    by (rule host_main_campaign)
  also have "\<dots> \<longleftrightarrow> (\<exists>n>0. \<exists>pristine. lab_mke2fs lab FS_BLOCKS FS_INODES = Inr pristine
      \<and> check_seeds lab uw rng exe pristine ops every [first..<first + seeds] 0 = Some (Inr (None, n)))"
    by (simp add: campaign_def bindO_Inr)
  finally have c: "?exit \<longleftrightarrow> (\<exists>n>0. \<exists>pristine. lab_mke2fs lab FS_BLOCKS FS_INODES = Inr pristine
      \<and> check_seeds lab uw rng exe pristine ops every [first..<first + seeds] 0 = Some (Inr (None, n)))" .
  show ?thesis
  proof (cases "0 < every \<and> 0 < seeds")
    case True
    then have "check_seeds lab uw rng exe pristine ops every [first..<first + seeds] 0 = Some (Inr (None, n))
      \<longleftrightarrow> list_all (seed_agrees lab uw rng exe pristine ops ?ps) [first..<first + seeds] \<and> n = seeds * length ?ps" for pristine n
      using check_seeds_none [OF checkpoints_filter, of every lab uw rng exe pristine ops "[first..<first + seeds]" 0 n] by simp
    with True show ?thesis unfolding c by auto
  next
    case False
    have "check_seeds lab uw rng exe pristine ops every [first..<first + seeds] 0 \<noteq> Some (Inr (None, n))" if "0 < n" for pristine n
    proof (cases "seeds = 0")
      case False
      then have "[first..<first + seeds] = first # [Suc first..<first + seeds]" "every = 0"
        using \<open>\<not> (0 < every \<and> 0 < seeds)\<close> by (auto simp: upt_conv_Cons)
      then show ?thesis by (simp add: checkpoints_def from_py_def split: option.splits)
    qed (use that in simp)
    with False show ?thesis unfolding c by blast
  qed
qed

subsection \<open>The fault run\<close>

text \<open>The writes the run fails: each of the first thirteen, then the number doubles.\<close>

definition fault_point :: "nat \<Rightarrow> bool" where
  "fault_point k \<longleftrightarrow> k \<le> FAULT_DENSE \<or> (\<exists>e. k = FAULT_DENSE * 2 ^ e)"

function fault_points :: "nat \<Rightarrow> nat \<Rightarrow> nat list" where
  "fault_points k writes = (if k < writes then k # fault_points (next_write k) writes else [])"
  by pat_completeness auto
termination
  by (relation "measure (\<lambda>(k, writes). writes - k)") (auto simp: next_write_def FAULT_DENSE_def)

declare fault_points.simps [simp del]

lemma filter_upt_skip:
  assumes "a \<le> b" "\<And>j. a \<le> j \<Longrightarrow> j < b \<Longrightarrow> \<not> P j"
  shows "filter P [a..<n] = filter P [b..<n]"
proof (induction n)
  case (Suc n)
  then show ?case using assms by (cases "b \<le> n") auto
qed simp

lemma next_fault_point:
  assumes "fault_point k"
  shows "k < next_write k" "fault_point (next_write k)" "k < j \<Longrightarrow> j < next_write k \<Longrightarrow> \<not> fault_point j"
proof -
  consider "k < FAULT_DENSE" | e where "k = FAULT_DENSE * 2 ^ e"
    using assms by (auto simp: fault_point_def le_less intro: that(2) [of 0])
  then have "k < next_write k \<and> fault_point (next_write k) \<and> (k < j \<and> j < next_write k \<longrightarrow> \<not> fault_point j)"
  proof cases
    case (2 e)
    then have n: "next_write k = FAULT_DENSE * 2 ^ Suc e" by (simp add: next_write_def FAULT_DENSE_def)
    have "\<not> fault_point j" if between: "k < j" "j < next_write k"
    proof
      assume "fault_point j"
      moreover have "FAULT_DENSE \<le> k" by (simp add: 2)
      ultimately obtain f where "j = FAULT_DENSE * 2 ^ f" using between by (auto simp: fault_point_def)
      with between(1) between(2) [unfolded n] have "(2::nat) ^ e < 2 ^ f" "(2::nat) ^ f < 2 ^ Suc e"
        unfolding 2 by (simp_all add: FAULT_DENSE_def)
      then show False
        using power_strict_increasing_iff [of "2::nat" e f] power_strict_increasing_iff [of "2::nat" f "Suc e"] by simp
    qed
    moreover have "fault_point (next_write k)" unfolding n fault_point_def by blast
    moreover have "k < next_write k" unfolding n by (simp add: 2 FAULT_DENSE_def)
    ultimately show ?thesis by blast
  qed (auto simp: fault_point_def next_write_def)
  then show "k < next_write k" "fault_point (next_write k)" "k < j \<Longrightarrow> j < next_write k \<Longrightarrow> \<not> fault_point j" by blast+
qed

lemma fault_points_filter: "fault_point k \<Longrightarrow> fault_points k writes = filter fault_point [k..<writes]"
proof (induction k writes rule: fault_points.induct)
  case (1 k writes)
  show ?case
  proof (cases "k < writes")
    case True
    have "filter fault_point [Suc k..<writes] = filter fault_point [next_write k..<writes]"
      using next_fault_point [OF "1.prems"] by (intro filter_upt_skip) (auto simp: Suc_le_eq)
    with True 1 next_fault_point(2) [OF "1.prems"] show ?thesis by (simp add: fault_points.simps [of k] upt_conv_Cons)
  qed (simp add: fault_points.simps [of k])
qed

definition fault_failures :: "nat \<Rightarrow> nat \<Rightarrow> pstr list \<Rightarrow> pstr \<Rightarrow> (nat \<Rightarrow> problem list) \<Rightarrow> nat list \<Rightarrow> problem list" where
  "fault_failures seed index ls mode ps ks =
     map (\<lambda>k. PFault seed (index + 1) (ls ! index) (fault_line k mode) (take 3 (ps k))) (filter (\<lambda>k. ps k \<noteq> []) ks)"

lemma fault_loop_points:
  assumes "\<And>k. compare_run lab uw exe pristine (take (index + 1) ls) (Some (index, fault_line k mode))
     = Some (Inr (if k < writes then Some (ps k) else None, rs k))"
  shows "\<exists>checks failed ended.
     fault_loop lab uw exe pristine ls seed index mode k checked failures = Some (Inr (checked + checks, failures @ failed, ended))
     \<and> (if ended then 10 \<le> length (failures @ failed)
        else checks = length (fault_points k writes) \<and> failed = fault_failures seed index ls mode ps (fault_points k writes))"
proof (induction "writes - k" arbitrary: k checked failures rule: less_induct)
  case less
  let ?p = "PFault seed (index + 1) (ls ! index) (fault_line k mode) (take 3 (ps k))"
  note loop = fault_loop.simps [of lab uw exe pristine ls seed index mode k checked failures, unfolded assms option.case sum.case prod.case]
  show ?case
  proof (cases "k < writes")
    case True
    then have "writes - next_write k < writes - k" by (auto simp: next_write_def FAULT_DENSE_def)
    note IH = less [OF this]
    show ?thesis
    proof (cases "ps k = []")
      case empty: True
      from IH [of "checked + 1" failures] obtain checks failed ended where
        "fault_loop lab uw exe pristine ls seed index mode k checked failures = Some (Inr (checked + (1 + checks), failures @ failed, ended))"
        "if ended then 10 \<le> length (failures @ failed)
         else checks = length (fault_points (next_write k) writes)
           \<and> failed = fault_failures seed index ls mode ps (fault_points (next_write k) writes)"
        using True empty by (auto simp: loop)
      with True empty show ?thesis
        by (intro exI [of _ "1 + checks"] exI [of _ failed] exI [of _ ended])
          (auto simp: fault_points.simps [of k] fault_failures_def)
    next
      case problem: False
      show ?thesis
      proof (cases "length failures + 1 \<ge> 10")
        case True
        with \<open>k < writes\<close> problem show ?thesis
          by (intro exI [of _ 1] exI [of _ "[?p]"] exI [of _ True]) (simp add: loop)
      next
        case False
        from IH [of "checked + 1" "failures @ [?p]"] obtain checks failed ended where r:
          "fault_loop lab uw exe pristine ls seed index mode (next_write k) (checked + 1) (failures @ [?p])
             = Some (Inr (checked + 1 + checks, (failures @ [?p]) @ failed, ended))"
          "if ended then 10 \<le> length ((failures @ [?p]) @ failed)
           else checks = length (fault_points (next_write k) writes)
             \<and> failed = fault_failures seed index ls mode ps (fault_points (next_write k) writes)" by blast
        have "fault_loop lab uw exe pristine ls seed index mode k checked failures
            = fault_loop lab uw exe pristine ls seed index mode (next_write k) (checked + 1) (failures @ [?p])"
          using \<open>k < writes\<close> problem False by (simp add: loop)
        with r \<open>k < writes\<close> problem show ?thesis
          by (intro exI [of _ "1 + checks"] exI [of _ "?p # failed"] exI [of _ ended])
            (auto simp: fault_points.simps [of k] fault_failures_def)
      qed
    qed
  next
    case False
    then show ?thesis by (intro exI [of _ 0] exI [of _ "[]"] exI [of _ False]) (simp add: loop fault_points.simps [of k] fault_failures_def)
  qed
qed

text \<open>
  (C32) The fault run of one operation ends: when the operation makes \<open>writes\<close> writes, so
  that exactly the faults armed below that number are reached, and every run of the program
  returns, the loop returns.  It stops early only after ten failures; otherwise it checked
  each of the first thirteen writes and then the doubled ones, and its failures are the
  ones of these checks, in order.
\<close>

theorem fault_loop_returns:
  assumes "\<And>k. compare_run lab uw exe pristine (take (index + 1) ls) (Some (index, fault_line k mode))
     = Some (Inr (if k < writes then Some (ps k) else None, rs k))"
  shows "\<exists>checks failed ended.
     fault_loop lab uw exe pristine ls seed index mode 0 checked failures = Some (Inr (checked + checks, failures @ failed, ended))
     \<and> (if ended then 10 \<le> length (failures @ failed)
        else checks = length (filter fault_point [0..<writes])
          \<and> failed = fault_failures seed index ls mode ps (filter fault_point [0..<writes]))"
proof -
  have "fault_points 0 writes = filter fault_point [0..<writes]" by (rule fault_points_filter) (simp add: fault_point_def)
  with fault_loop_points [OF assms, of seed 0 checked failures] show ?thesis by metis
qed

definition sample_lab :: "(unit, byte list) lab" where
  "sample_lab = \<lparr>lab_tools = sample_tools, lab_debugfs_w = (\<lambda>_ _. Inr ((), [])), lab_fsck = (\<lambda>_. (0, [])),
     lab_mke2fs = (\<lambda>_ _. Inr ()), lab_os = one_file, lab_fresh = (\<lambda>_. []), lab_tree = (\<lambda>_. None), lab_work = u ''/tmp'',
     lab_bytes = (\<lambda>_. replicate 1025 0), lab_image = (\<lambda>_. ())\<rparr>"

text \<open>A program whose operation makes one write and that stops when it fails.\<close>

definition one_write :: "unit program" where
  "one_write img script =
     Inr (if script = script_of [fault_line 0 (u ''reject''), u ''mkdir eq/a''] then (1, [], u ''fault injected=1'', ()) else (0, [], [], ()))"

lemma one_write_fault:
  "compare_run sample_lab no_words one_write () (take (0 + 1) [u ''mkdir eq/a'']) (Some (0, fault_line k (u ''reject'')))
     = Some (Inr (if k < 1 then Some [PStatus 1 (u ''fault injected=1'')] else None, []))"
proof -
  have "script_of [fault_line k (u ''reject''), u ''mkdir eq/a''] = script_of [fault_line 0 (u ''reject''), u ''mkdir eq/a''] \<longleftrightarrow> k = 0"
    by (auto simp: script_of_def fault_line_def dest: str_nat_inj)
  then have "run_program one_write () [fault_line k (u ''reject''), u ''mkdir eq/a'']
      = Inr \<lparr>pr_status = (if k = 0 then 1 else 0), pr_free = None, pr_results = [],
          pr_out = (if k = 0 then u ''fault injected=1'' else []), pr_image = ()\<rparr>"
    by (simp add: run_program_def one_write_def splitlines_def from_py_def drop_mkdir_def)
  moreover obtain m where "re_search no_words FAULT_RE (u ''fault injected=1'') = Some m" "group m 1 = None"
    by (simp add: FAULT_RE_def re_search_def search_from.simps text_eval pattern_eval scan_eval group_def Opt_def del: matches.simps(5))
  moreover have "re_search no_words FAULT_RE [] = None"
    by (simp add: FAULT_RE_def re_search_def search_from.simps text_eval pattern_eval scan_eval group_def Opt_def del: matches.simps(5))
  ultimately show ?thesis
    by (simp add: compare_run_def insert_at_def fence_problem_def out_tail_def u_def)
qed

theorem fault_loop_returns_witness:
  "(\<forall>k. compare_run sample_lab no_words one_write () (take (0 + 1) [u ''mkdir eq/a'']) (Some (0, fault_line k (u ''reject'')))
     = Some (Inr (if k < 1 then Some [PStatus 1 (u ''fault injected=1'')] else None, [])))
   \<and> (\<exists>checks failed ended. fault_loop sample_lab no_words one_write () [u ''mkdir eq/a''] 7 0 (u ''reject'') 0 0 []
         = Some (Inr (checks, failed, ended)))"
  using fault_loop_returns [of sample_lab no_words one_write "()" 0 "[u ''mkdir eq/a'']" "u ''reject''" 1
      "\<lambda>_. [PStatus 1 (u ''fault injected=1'')]" "\<lambda>_. []" 7 0 "[]", OF one_write_fault] one_write_fault by auto

subsection \<open>The exit status\<close>

lemma run_mode_zero:
  assumes "run_mode lab uw rng exe mutant mode = Some (Inr (0, report))"
  shows "(\<exists>message. report = HPass (Pass message)) \<and> (\<nexists>seed len. mode = MReplay seed len)"
  using assms
  by (cases mode) (auto simp: run_mode_def replay_mode_def bindO_Inr passed_zero split: option.splits if_splits)


definition walks :: "unit program" where
  "walks img script = Inr (0, [], u ''walk dirs=1 '', ())"

lemma walks_passes:
  "host_main sample_lab no_words first_choice walks walks (MHostile 1 0)
    = Some (Inr (0, HPass (Pass (u ''PASS ext2-host hostile: 1 corrupted images: 1 walked to the end, 0 refused at mount, none stopped''))))"
proof -
  have "run_program walks () ls = Inr \<lparr>pr_status = 0, pr_free = None, pr_results = [], pr_out = u ''walk dirs=1 '', pr_image = ()\<rparr>" for ls
    by (simp add: run_program_def walks_def splitlines_def from_py_def drop_mkdir_def)
  moreover obtain m where "re_search no_words WALK_RE (u ''walk dirs=1 '') = Some m"
    by (simp add: WALK_RE_def re_search_def search_from.simps text_eval pattern_eval scan_eval del: matches.simps(5))
  moreover have "\<exists>bs. mutate first_choice (replicate 1025 0) () = Inr (bs, ())"
    by (simp add: mutate_def mutate_byte_def pick_def randrange_def first_choice_def REGIONS_def Let_def)
  ultimately have "run_hostile sample_lab first_choice walks 1 0 = Inr (1, 0, [])"
    by (auto simp: run_hostile_def sample_lab_def hostile_image_def first_choice_def)
  then show ?thesis
    by (simp add: host_main_def run_mode_def report_pass_def empty_counts_def passed_def u_def str_nat_small)
qed


end
