(* ===== verification/Layout_Text.thy ===== *)
theory Layout_Text
  imports Regex Trace_Text
begin

section \<open>Text found by its tokens\<close>

text \<open>
  \<open>scripts/layout_text.py\<close>, which finds a piece of source whatever its layout and
  replaces its one occurrence, and \<open>scripts/control_patch.py\<close>, through which the
  negative controls patch source text.  The facts: a replacement happens only at an
  anchor that occurs once, and what it replaces has the tokens of the anchor.
\<close>

subsection \<open>Searching a string\<close>

text \<open>\<open>s.count(p)\<close>, \<open>s.replace(p, q, 1)\<close> for a \<open>p\<close> in \<open>s\<close>, \<open>s.replace(p, q)\<close> for a \<open>p\<close> that is not empty, and \<open>s.find(p)\<close>.\<close>

function count_text :: "pstr \<Rightarrow> pstr \<Rightarrow> nat" where
  "count_text p s =
     (if p = [] then length s + 1
      else case s of [] \<Rightarrow> 0
        | c # cs \<Rightarrow> if startswith s p then Suc (count_text p (drop (length p) s)) else count_text p cs)"
  by pat_completeness auto
termination
  by (relation "measure (\<lambda>(p, s). length s)") auto

fun replace_first :: "pstr \<Rightarrow> pstr \<Rightarrow> pstr \<Rightarrow> pstr" where
  "replace_first p q [] = (if p = [] then q else [])"
| "replace_first p q (c # cs) =
     (if startswith (c # cs) p then q @ drop (length p) (c # cs) else c # replace_first p q cs)"

function replace_all :: "pstr \<Rightarrow> pstr \<Rightarrow> pstr \<Rightarrow> pstr" where
  "replace_all p q s =
     (case s of [] \<Rightarrow> []
      | c # cs \<Rightarrow> if p \<noteq> [] \<and> startswith s p then q @ replace_all p q (drop (length p) s) else c # replace_all p q cs)"
  by pat_completeness auto
termination
  by (relation "measure (\<lambda>(p, q, s). length s)") auto

declare count_text.simps [simp del] replace_all.simps [simp del]

fun find_text :: "pstr \<Rightarrow> pstr \<Rightarrow> nat option" where
  "find_text p [] = (if p = [] then Some 0 else None)"
| "find_text p (c # cs) = (if startswith (c # cs) p then Some 0 else map_option Suc (find_text p cs))"

text \<open>\<open>s.find(p, start)\<close> and \<open>s.index(p, start)\<close> for a start in the string.\<close>

definition find_from :: "pstr \<Rightarrow> pstr \<Rightarrow> nat \<Rightarrow> nat option" where
  "find_from p s start = map_option (\<lambda>k. start + k) (find_text p (drop start s))"

definition index_from :: "pstr \<Rightarrow> pstr \<Rightarrow> nat \<Rightarrow> py_error + nat" where
  "index_from p s start = (case find_from p s start of None \<Rightarrow> Inl (ValueError (u ''substring not found'')) | Some k \<Rightarrow> Inr k)"

subsection \<open>Anchors\<close>

definition any_space :: regex where "any_space = Plus (Chr (Of [CSpace]))"

definition blanks :: regex where "blanks = Star (Chr (Of [One 32, One 9]))"

text \<open>The patterns use no word class.\<close>

abbreviation no_word :: "nat \<Rightarrow> bool" where
  "no_word \<equiv> \<lambda>_. False"

text \<open>
  The patterns of the parts \<open>re.split\<close> gives, words and runs of whitespace by turns.
  The last run before an empty last part and the first after an empty first one are at
  the edges.
\<close>

fun part_patterns :: "pstr list \<Rightarrow> regex list" where
  "part_patterns [] = []"
| "part_patterns [part] = [Lit part]"
| "part_patterns (part # run # parts) =
     Lit part # (if parts = [[]] \<and> 10 \<notin> set run then blanks else any_space) # part_patterns parts"

definition layout_parts :: "pstr list \<Rightarrow> regex list" where
  "layout_parts parts = (case parts of
     [] # run # parts' \<Rightarrow>
       if 10 \<notin> set run then Lit [] # Seq (NotAfter (NotOf [CSpace])) blanks # part_patterns parts' else part_patterns parts
   | _ \<Rightarrow> part_patterns parts)"

definition layout_pattern :: "pstr \<Rightarrow> regex" where
  "layout_pattern needle = seqs (layout_parts (re_split_keep no_word any_space needle))"

definition layout_count :: "pstr \<Rightarrow> pstr \<Rightarrow> nat" where
  "layout_count s needle = (let exact = count_text needle s in
     if exact \<noteq> 0 then exact else length (re_findall no_word (layout_pattern needle) s))"

text \<open>\<open>AnchorCountError\<close> with its count, or the edited text.\<close>

definition layout_replace_once :: "pstr \<Rightarrow> pstr \<Rightarrow> pstr \<Rightarrow> nat + pstr" where
  "layout_replace_once s old new = (let count = layout_count s old in
     if count \<noteq> 1 then Inl count
     else if contains old s then Inr (replace_first old new s)
     else Inr (re_sub_once no_word (layout_pattern old) (\<lambda>_. new) s))"

text \<open>\<open>LayoutSource\<close>: \<open>in\<close> and \<open>count\<close> without bounds.\<close>

definition layout_contains :: "pstr \<Rightarrow> pstr \<Rightarrow> bool" where
  "layout_contains s needle \<longleftrightarrow> layout_count s needle > 0"

subsection \<open>Patching a control\<close>

text \<open>\<open>ControlAnchorError\<close>: what it names, without its text.\<close>

datatype control_error =
    AnchorTimes nat pstr pstr
  | NoClosing pstr
  | HeaderTimes nat pstr

definition control_replace_once :: "pstr \<Rightarrow> pstr \<Rightarrow> pstr \<Rightarrow> pstr \<Rightarrow> control_error + pstr" where
  "control_replace_once s old new where_in = (case layout_replace_once s old new of
     Inl count \<Rightarrow> Inl (AnchorTimes count where_in old) | Inr t \<Rightarrow> Inr t)"

definition layout_text_find_once :: "pstr \<Rightarrow> pstr \<Rightarrow> control_error + nat" where
  "layout_text_find_once s header = (let count = count_text header s in
     if count \<noteq> 1 then Inl (HeaderTimes count header)
     else case find_text header s of None \<Rightarrow> Inl (HeaderTimes count header) | Some k \<Rightarrow> Inr k)"

definition replace_in_function :: "pstr \<Rightarrow> pstr \<Rightarrow> pstr \<Rightarrow> pstr \<Rightarrow> control_error + pstr" where
  "replace_in_function s header old new =
     bindR (layout_text_find_once s header) (\<lambda>start.
     case find_from [10, 125, 10] s start of
       None \<Rightarrow> Inl (NoClosing header)
     | Some stop \<Rightarrow>
         bindR (control_replace_once (pslice s start stop) old new header) (\<lambda>body.
         Inr (take start s @ body @ drop stop s)))"

subsection \<open>What a replacement replaces\<close>

abbreviation spaces :: "pstr \<Rightarrow> bool" where "spaces \<equiv> list_all isspace_char"
abbreviation solid :: "pstr \<Rightarrow> bool" where "solid \<equiv> list_all (\<lambda>c. \<not> isspace_char c)"

text \<open>Words and runs by turns; a run may be empty only before an empty last word.\<close>

fun turns :: "pstr list \<Rightarrow> bool" where
  "turns [] \<longleftrightarrow> False"
| "turns [w] \<longleftrightarrow> solid w"
| "turns (w # run # ps) \<longleftrightarrow> solid w \<and> spaces run \<and> (run \<noteq> [] \<or> ps = [[]]) \<and> turns ps"

fun evens :: "'a list \<Rightarrow> 'a list" where
  "evens [] = []"
| "evens [x] = [x]"
| "evens (x # y # xs) = x # evens xs"

lemma split_loop_solid: "solid w \<Longrightarrow> split_loop cur (w @ s) = split_loop (cur @ w) s"
  by (induction w arbitrary: cur) auto

lemma split_loop_spaces: "spaces run \<Longrightarrow> split_loop [] (run @ s) = split_loop [] s"
  by (induction run) auto

lemma split_loop_run:
  "spaces run \<Longrightarrow> run \<noteq> [] \<Longrightarrow> split_loop cur (run @ s) = (if cur = [] then [] else [cur]) @ split_loop [] s"
  by (cases run) (auto simp: split_loop_spaces)

lemma split_ws_turns: "turns ps \<Longrightarrow> split_ws (concat ps) = filter (\<lambda>w. w \<noteq> []) (evens ps)"
proof (induction ps rule: turns.induct)
  case (2 w)
  then show ?case using split_loop_solid [of w "[]" "[]"] by (simp add: split_ws_def)
next
  case (3 w run ps)
  show ?case
  proof (cases "run = []")
    case True
    with 3 show ?thesis using split_loop_solid [of w "[]" "[]"] by (simp add: split_ws_def)
  next
    case False
    with 3 show ?thesis by (simp add: split_ws_def split_loop_solid split_loop_run)
  qed
qed simp

text \<open>The pattern matches the word somewhere.\<close>

definition eats :: "(nat \<Rightarrow> bool) \<Rightarrow> regex \<Rightarrow> pstr \<Rightarrow> bool" where
  "eats uw r w \<longleftrightarrow> (\<exists>a b. b \<in> set (matches uw r a) \<and> fst (snd a) = w @ fst (snd b))"

lemma matches_seqs:
  assumes "s' \<in> set (matches uw (seqs rs) s)"
  shows "\<exists>ws. list_all2 (eats uw) rs ws \<and> fst (snd s) = concat ws @ fst (snd s')"
  using assms
proof (induction rs arbitrary: s)
  case (Cons r rs)
  then obtain m where m: "m \<in> set (matches uw r s)" "s' \<in> set (matches uw (seqs rs) m)" by (auto simp: seqs_def)
  obtain pre post g pre' post' g' where s: "s = (pre, post, g)" "m = (pre', post', g')" by (metis surj_pair)
  from m(1) obtain w where "post = w @ post'" unfolding s using matches_consume by blast
  moreover from Cons.IH [OF m(2)] obtain ws where
    "list_all2 (eats uw) rs ws" "fst (snd m) = concat ws @ fst (snd s')" by blast
  moreover have "eats uw r w" unfolding eats_def using m(1) s \<open>post = w @ post'\<close> by (intro exI [of _ s] exI [of _ m]) simp
  ultimately show ?case using s by (intro exI [of _ "w # ws"]) simp
qed (auto simp: seqs_def)

text \<open>What each part's pattern consumes.\<close>

lemma eats_lit: "eats uw (Lit p) w \<Longrightarrow> w = p"
proof -
  assume "eats uw (Lit p) w"
  then obtain a b where ab: "b \<in> set (matches uw (Lit p) a)" "fst (snd a) = w @ fst (snd b)" by (auto simp only: eats_def)
  obtain pre post g where a: "a = (pre, post, g)" by (cases a)
  with ab(1) have "startswith post p" "b = (rev p @ pre, drop (length p) post, g)" by (auto simp: matches_lit split: if_splits)
  with ab(2) a have "take (length p) post = p" "post = w @ drop (length p) post" by (simp_all add: startswith_def)
  then show ?thesis by (metis append_same_eq append_take_drop_id)
qed

lemma eats_only: "eats uw r w \<Longrightarrow> only uw r P \<Longrightarrow> list_all P w"
  using matches_only [of _ uw r _ P] by (force simp: eats_def consumes_def)

lemma eats_blanks: "eats uw blanks w \<Longrightarrow> spaces w"
  by (erule eats_only) (auto simp: blanks_def isspace_char_def)

lemma eats_edge: "eats uw (Seq (NotAfter cs) blanks) w \<Longrightarrow> spaces w"
  by (erule eats_only) (auto simp: blanks_def isspace_char_def)

lemma eats_any_space: "eats uw any_space w \<Longrightarrow> spaces w \<and> w \<noteq> []"
proof -
  assume e: "eats uw any_space w"
  then have "spaces w" by (rule eats_only) (simp add: any_space_def Plus_def)
  moreover from e obtain a b where ab: "b \<in> set (matches uw any_space a)" "fst (snd a) = w @ fst (snd b)"
    by (auto simp only: eats_def)
  from ab(1) obtain m where m: "m \<in> set (matches uw (Chr (Of [CSpace])) a)" "b \<in> set (matches uw (Star (Chr (Of [CSpace]))) m)"
    by (auto simp: any_space_def Plus_def simp del: matches.simps(2))
  from m(1) have "rest m < rest a" by (cases a) (auto simp: rest_def split: list.splits if_splits)
  moreover have "rest b \<le> rest m"
  proof -
    from matches_only [OF m(2) only_all] show ?thesis by (auto simp: consumes_def rest_def)
  qed
  ultimately show ?thesis using ab(2) by (auto simp: rest_def)
qed

text \<open>A piece the pattern of some parts matches has their words.\<close>

lemma part_patterns_turns:
  assumes "turns ps" "list_all2 (eats uw) (part_patterns ps) ws"
  shows "turns ws \<and> evens ws = evens ps"
  using assms
proof (induction ps arbitrary: ws rule: turns.induct)
  case (2 w)
  then show ?case by (auto simp: list_all2_Cons1 dest!: eats_lit)
next
  case (3 w run ps)
  let ?r = "if ps = [[]] \<and> 10 \<notin> set run then blanks else any_space"
  from 3(3) obtain w' run' ws' where ws: "ws = w' # run' # ws'" "eats uw (Lit w) w'" "eats uw ?r run'"
    "list_all2 (eats uw) (part_patterns ps) ws'"
    by (auto simp only: part_patterns.simps list_all2_Cons1)
  with 3 have t: "turns ws'" "evens ws' = evens ps" by auto
  have "w' = w" using ws(2) eats_lit by blast
  moreover have "spaces run'" "run' \<noteq> [] \<or> ps = [[]]"
    using ws(3) eats_blanks eats_any_space by (auto split: if_splits)
  moreover have "ws' = [[]]" if "ps = [[]]" using ws(4) that by (auto simp: list_all2_Cons1 dest!: eats_lit)
  ultimately show ?case using 3(2) t ws(1) by auto
qed simp

lemma split_keep_turns:
  assumes "solid cur"
    "list_all (\<lambda>p. case p of Inl c \<Rightarrow> \<not> isspace_char c | Inr m \<Rightarrow> spaces (m_text m) \<and> m_text m \<noteq> []) ps"
  shows "turns (split_keep cur ps) \<and> concat (split_keep cur ps) = cur @ concat (map piece_text ps)"
  using assms by (induction cur ps rule: split_keep.induct) auto

lemma space_pieces:
  "list_all (\<lambda>p. case p of Inl c \<Rightarrow> \<not> isspace_char c | Inr m \<Rightarrow> spaces (m_text m) \<and> m_text m \<noteq> []) (pieces uw any_space pre post)"
  (is "list_all ?P _")
proof (induction "length post" arbitrary: pre post rule: less_induct)
  case less
  show ?case
  proof (cases "match_at uw any_space pre post")
    case None
    have "\<not> isspace_char c" if "post = c # cs" for c cs
    proof
      assume "isspace_char c"
      moreover have "(c # pre, cs, []) \<in> set (matches uw (Star (Chr (Of [CSpace]))) (c # pre, cs, []))"
        using matches_star [of "(c # pre, cs, [])" uw "Chr (Of [CSpace])" "(c # pre, cs, [])"] by blast
      ultimately have "matches uw any_space (pre, post, []) \<noteq> []" using that by (auto simp: any_space_def Plus_def)
      then show False using None by (simp add: match_at_def first_match_None)
    qed
    with None show ?thesis
      using less [of "tl post" "hd post # pre"] by (cases post) (simp_all add: pieces.simps [of uw any_space pre])
  next
    case (Some m)
    from match_at_text(1) [OF Some] have t: "post = m_text m @ m_after m" .
    from Some obtain x ms where x: "matches uw any_space (pre, post, []) = x # ms" "m_after m = fst (snd x)"
      by (auto simp: match_at_def first_match_def split: list.splits)
    have "eats uw any_space (m_text m)" unfolding eats_def
      using x t by (intro exI [of _ "(pre, post, [])"] exI [of _ x]) simp
    then have "spaces (m_text m) \<and> m_text m \<noteq> []" by (rule eats_any_space)
    moreover from this have "length (m_after m) < length post" by (subst t) simp
    ultimately show ?thesis
      using less [of "m_after m" "rev (m_text m) @ pre"] by (simp add: pieces.simps [of uw any_space pre] Some)
  qed
qed

lemma parts_turns:
  "turns (re_split_keep uw any_space needle) \<and> concat (re_split_keep uw any_space needle) = needle"
  using split_keep_turns [of "[]" "pieces uw any_space [] needle"] space_pieces [of uw "[]" needle]
  by (simp add: re_split_keep_def pieces_text)

lemma search_from_at:
  "search_from uw r pre post = Some m \<Longrightarrow>
     \<exists>pre' post'. rev pre @ post = rev pre' @ post' \<and> match_at uw r pre' post' = Some m"
proof (induction uw r pre post rule: search_from.induct)
  case (1 uw r pre post)
  show ?case
  proof (cases "match_at uw r pre post")
    case None
    with 1(2) obtain c cs where c: "post = c # cs" "search_from uw r (c # pre) cs = Some m"
      by (auto simp: search_from.simps [of uw r pre post] split: list.splits)
    with 1(1) [OF None c] show ?thesis by simp
  next
    case (Some x)
    with 1(2) show ?thesis by (auto simp: search_from.simps [of uw r pre post])
  qed
qed

lemma layout_parts_words:
  assumes "turns parts" "list_all2 (eats uw) (layout_parts parts) ws"
  shows "split_ws (concat ws) = split_ws (concat parts)"
proof (cases "\<exists>run ps. parts = [] # run # ps \<and> 10 \<notin> set run")
  case True
  then obtain run ps where p: "parts = [] # run # ps" "10 \<notin> set run" by blast
  then have "layout_parts parts = Lit [] # Seq (NotAfter (NotOf [CSpace])) blanks # part_patterns ps"
    by (simp add: layout_parts_def)
  with assms(2) obtain w run' ws' where ws: "ws = w # run' # ws'" "eats uw (Lit []) w"
    "eats uw (Seq (NotAfter (NotOf [CSpace])) blanks) run'" "list_all2 (eats uw) (part_patterns ps) ws'"
    by (auto simp only: list_all2_Cons1)
  have "w = []" using ws(2) eats_lit by blast
  moreover have "spaces run'" using ws(3) eats_edge by blast
  moreover have t: "turns ps" "spaces run" using assms(1) p by auto
  moreover have "turns ws' \<and> evens ws' = evens ps" using part_patterns_turns [OF t(1) ws(4)] .
  ultimately show ?thesis
    using split_ws_turns [of ps] split_ws_turns [of ws'] p ws(1) by (simp add: split_ws_def split_loop_spaces)
next
  case False
  then have "layout_parts parts = part_patterns parts"
    by (auto simp: layout_parts_def split: list.splits)
  with assms part_patterns_turns [of parts uw ws] split_ws_turns [of parts] split_ws_turns [of ws] show ?thesis by simp
qed

lemma layout_pattern_tokens:
  assumes "re_search no_word (layout_pattern needle) s = Some m"
  shows "split_ws (m_text m) = split_ws needle \<and> s = m_before m @ m_text m @ m_after m"
proof -
  from search_from_at [OF assms [unfolded re_search_def]] obtain pre post where
    at: "s = rev pre @ post" "match_at no_word (layout_pattern needle) pre post = Some m" by auto
  from at(2) obtain x ms where x: "matches no_word (layout_pattern needle) (pre, post, []) = x # ms" "m_after m = fst (snd x)"
    by (auto simp: match_at_def first_match_def split: list.splits)
  then have "x \<in> set (matches no_word (seqs (layout_parts (re_split_keep no_word any_space needle))) (pre, post, []))"
    by (simp add: layout_pattern_def)
  from matches_seqs [OF this] obtain ws where ws:
    "list_all2 (eats no_word) (layout_parts (re_split_keep no_word any_space needle)) ws" "post = concat ws @ m_after m"
    by (auto simp: x(2))
  from match_at_text [OF at(2)] have t: "post = m_text m @ m_after m" "m_before m = rev pre" .
  have "m_text m = concat ws" using t(1) ws(2) by simp
  with layout_parts_words [OF _ ws(1)] parts_turns [of no_word needle] at t show ?thesis by auto
qed

lemma count_text_pos: "contains p s \<longleftrightarrow> count_text p s \<noteq> 0"
proof (induction s)
  case Nil
  then show ?case by (simp add: count_text.simps)
next
  case (Cons c cs)
  then show ?case by (auto simp: count_text.simps [of p "c # cs"] startswith_def)
qed

lemma replace_first_at: "contains p s \<Longrightarrow> \<exists>a b. s = a @ p @ b \<and> replace_first p q s = a @ q @ b"
proof (induction s)
  case (Cons c cs)
  show ?case
  proof (cases "startswith (c # cs) p")
    case True
    then have "c # cs = p @ drop (length p) (c # cs)" by (metis append_take_drop_id startswith_def)
    with True show ?thesis by (intro exI [of _ "[]"] exI [of _ "drop (length p) (c # cs)"]) simp
  next
    case False
    with Cons obtain a b where "cs = a @ p @ b" "replace_first p q cs = a @ q @ b" by auto
    with False show ?thesis by (intro exI [of _ "c # a"] exI [of _ b]) simp
  qed
qed simp

lemma re_findall_search:
  "re_search uw r s = None \<Longrightarrow> re_findall uw r s = []"
proof -
  have "search_from uw r pre post = None \<Longrightarrow> concat (map match_piece (pieces uw r pre post)) = []" for pre post
  proof (induction uw r pre post rule: search_from.induct)
    case (1 uw r pre post)
    from 1(2) have "match_at uw r pre post = None" by (auto simp: search_from.simps [of uw r pre post] split: option.splits)
    with 1 show ?case
      by (subst pieces.simps) (auto simp: search_from.simps [of uw r pre post] split: list.splits)
  qed
  then show "re_search uw r s = None \<Longrightarrow> re_findall uw r s = []" by (simp add: re_search_def re_findall_def)
qed


end
