(* ===== verification/Overlay.thy ===== *)
theory Overlay
  imports Layout_Text
begin

section \<open>Source overlays\<close>

text \<open>
  What the overlay builders \<open>scripts/build_rpi5_gem_tx_fixture.py\<close>,
  \<open>build_qemu_dma_fixture.py\<close>, \<open>build_qemu_net_wake_control.py\<close> and
  \<open>build_qemu_race_window.py\<close> do to the file system.  The state is the tree below
  \<open>ROOT/kernel\<close> and the tree below \<open>OVERLAY/kernel\<close>, by relative paths; a file of the
  overlay is a copy of its own or a symbolic link to the file of that path, and a write
  through a link changes the source.  An action returns a value or the exception it raises,
  and the state in both cases.  The source tree has regular files and directories, the
  overlay is not below the part of it that is walked, and an \<open>OVERLAY/kernel\<close> that exists is a directory.
\<close>

subsection \<open>Files\<close>

datatype entry = Copied "byte list" | Linked

record overlay_state =
  sources :: "pstr \<rightharpoonup> byte list"
  over :: "pstr \<rightharpoonup> entry"

text \<open>The exceptions; \<open>OvAnchor\<close> is the \<open>ValueError\<close> or \<open>SystemExit\<close> of \<open>replace_once\<close> with its file, anchor and count.\<close>

datatype ov_error =
    OvPy py_error
  | OvAnchor pstr pstr nat
  | OvMissing pstr        \<comment> \<open>\<open>FileNotFoundError\<close>\<close>
  | OvExists pstr         \<comment> \<open>\<open>FileExistsError\<close>\<close>
  | OvUsage               \<comment> \<open>\<open>SystemExit\<close> with the usage\<close>

type_synonym 'a act = "overlay_state \<Rightarrow> (ov_error + 'a) \<times> overlay_state"

definition bindA :: "'a act \<Rightarrow> ('a \<Rightarrow> 'b act) \<Rightarrow> 'b act" where
  "bindA m k st = (case m st of (Inl e, st') \<Rightarrow> (Inl e, st') | (Inr x, st') \<Rightarrow> k x st')"

definition thenA :: "unit act \<Rightarrow> 'b act \<Rightarrow> 'b act" where
  "thenA m k = bindA m (\<lambda>_. k)"

definition skipA :: "unit act" where
  "skipA st = (Inr (), st)"

definition seqA :: "unit act list \<Rightarrow> unit act" where
  "seqA ms = foldr thenA ms skipA"

text \<open>\<open>read_text(encoding="ascii")\<close> and \<open>write_text(..., encoding="ascii")\<close>; a text that cannot be encoded leaves the file empty.\<close>

fun universal_newlines :: "pstr \<Rightarrow> pstr" where
  "universal_newlines [] = []"
| "universal_newlines [c] = [if c = 13 then 10 else c]"
| "universal_newlines (c # d # cs) =
     (if c = 13 \<and> d = 10 then 10 # universal_newlines cs
      else (if c = 13 then 10 else c) # universal_newlines (d # cs))"

definition ascii_text :: "byte list \<Rightarrow> ov_error + pstr" where
  "ascii_text bs = (case decode_ascii bs of Inl e \<Rightarrow> Inl (OvPy e) | Inr s \<Rightarrow> Inr (universal_newlines s))"

definition file_bytes :: "pstr \<Rightarrow> overlay_state \<Rightarrow> byte list option" where
  "file_bytes p st = (case over st p of None \<Rightarrow> None | Some (Copied bs) \<Rightarrow> Some bs | Some Linked \<Rightarrow> sources st p)"

definition read_text :: "pstr \<Rightarrow> pstr act" where
  "read_text p st = ((case file_bytes p st of None \<Rightarrow> Inl (OvMissing p) | Some bs \<Rightarrow> ascii_text bs), st)"

definition put_file :: "pstr \<Rightarrow> byte list \<Rightarrow> overlay_state \<Rightarrow> overlay_state" where
  "put_file p bs st = (case over st p of
     Some Linked \<Rightarrow> st\<lparr>sources := (sources st)(p \<mapsto> bs)\<rparr> | _ \<Rightarrow> st\<lparr>over := (over st)(p \<mapsto> Copied bs)\<rparr>)"

definition write_text :: "pstr \<Rightarrow> pstr \<Rightarrow> unit act" where
  "write_text p s st = (case encode_ascii s of
     Inl e \<Rightarrow> (Inl (OvPy e), put_file p [] st) | Inr bs \<Rightarrow> (Inr (), put_file p bs st))"

text \<open>Read a file, edit its text, write it back.\<close>

definition edit_text :: "pstr \<Rightarrow> (pstr \<Rightarrow> ov_error + pstr) \<Rightarrow> unit act" where
  "edit_text p f = bindA (read_text p) (\<lambda>s st. case f s of Inl e \<Rightarrow> (Inl e, st) | Inr t \<Rightarrow> write_text p t st)"

definition replace_once :: "pstr \<Rightarrow> pstr \<Rightarrow> pstr \<Rightarrow> unit act" where
  "replace_once p before after = edit_text p (\<lambda>s. case layout_replace_once s before after of
     Inl count \<Rightarrow> Inl (OvAnchor p before count) | Inr t \<Rightarrow> Inr t)"

definition append_text :: "pstr \<Rightarrow> pstr \<Rightarrow> unit act" where
  "append_text p addition = edit_text p (\<lambda>s. Inr (s @ addition))"

text \<open>\<open>unlink\<close>, then \<open>shutil.copyfile\<close> of the source.\<close>

definition recopy :: "pstr \<Rightarrow> unit act" where
  "recopy p st = (if over st p = None then (Inl (OvMissing p), st)
     else case sources st p of
       None \<Rightarrow> (Inl (OvMissing p), st\<lparr>over := (over st)(p := None)\<rparr>)
     | Some bs \<Rightarrow> (Inr (), st\<lparr>over := (over st)(p \<mapsto> Copied bs)\<rparr>))"

subsection \<open>The mirrored tree\<close>

text \<open>\<open>is_relative_to\<close> of resolved paths, by their components.\<close>

definition is_under :: "pstr list \<Rightarrow> pstr list \<Rightarrow> bool" where
  "is_under p q \<longleftrightarrow> take (length q) p = q"

abbreviation kernel_dir :: "pstr list \<Rightarrow> pstr list" where
  "kernel_dir root \<equiv> root @ [u ''kernel'']"

text \<open>\<open>shutil.rmtree\<close> of the overlay's tree: the sources go with it when they are inside.\<close>

definition clear_overlay :: "pstr list \<Rightarrow> pstr list \<Rightarrow> unit act" where
  "clear_overlay root overlay st = (Inr (), st\<lparr>over := Map.empty,
     sources := (if is_under (kernel_dir root) (kernel_dir overlay) then Map.empty else sources st)\<rparr>)"

text \<open>A file in a directory \<open>os.walk\<close> is told not to enter.\<close>

definition pruned :: "pstr list \<Rightarrow> pstr \<Rightarrow> bool" where
  "pruned names p \<longleftrightarrow> list_ex (\<lambda>d. d \<in> set names) (butlast (split_on 47 p))"

text \<open>The walk that copies the changed files and links the others.\<close>

definition mirror_copy :: "pstr list \<Rightarrow> pstr list \<Rightarrow> unit act" where
  "mirror_copy names changed st = (Inr (), st\<lparr>over := (\<lambda>p. if pruned names p then None
     else map_option (\<lambda>bs. if p \<in> set changed then Copied bs else Linked) (sources st p))\<rparr>)"

text \<open>The walk that leaves the edited files out, and the texts written in their place.\<close>

definition mirror_skip :: "pstr list \<Rightarrow> pstr list \<Rightarrow> unit act" where
  "mirror_skip names edited st = (Inr (), st\<lparr>over := (\<lambda>p. if pruned names p \<or> p \<in> set edited then None
     else map_option (\<lambda>_. Linked) (sources st p))\<rparr>)"

definition write_source :: "pstr \<Rightarrow> unit act" where
  "write_source p st = (case sources st p of None \<Rightarrow> (Inl (OvMissing p), st)
     | Some bs \<Rightarrow> (case ascii_text bs of Inl e \<Rightarrow> (Inl e, st) | Inr s \<Rightarrow> write_text p s st))"

definition mirror_edited :: "pstr list \<Rightarrow> pstr list \<Rightarrow> unit act" where
  "mirror_edited names edited = thenA (mirror_skip names edited) (seqA (map write_source edited))"

definition overlay_build :: "pstr list \<Rightarrow> pstr list \<Rightarrow> unit act \<Rightarrow> unit act \<Rightarrow> unit act" where
  "overlay_build root overlay start edits = thenA (clear_overlay root overlay) (thenA start edits)"

text \<open>Source text in the definitions: lines, in which a tilde stands for a backslash.\<close>

definition src :: "string \<Rightarrow> pstr" where
  "src s = map (\<lambda>c. if c = 126 then 92 else c) (u s)"

definition srcs :: "string list \<Rightarrow> pstr" where
  "srcs ls = concat (map (\<lambda>l. src l @ [10]) ls)"

subsection \<open>What a builder keeps\<close>

fun is_copied :: "entry \<Rightarrow> bool" where
  "is_copied (Copied _) \<longleftrightarrow> True"
| "is_copied Linked \<longleftrightarrow> False"

text \<open>The overlay has the files of the source, its own copies of some and links to the others.\<close>

definition mirror_entry :: "(pstr \<rightharpoonup> byte list) \<Rightarrow> pstr list \<Rightarrow> pstr set \<Rightarrow> pstr \<Rightarrow> bool option" where
  "mirror_entry P names C p = (if pruned names p then None else map_option (\<lambda>_. p \<in> C) (P p))"

definition mirrors :: "(pstr \<rightharpoonup> byte list) \<Rightarrow> pstr list \<Rightarrow> pstr set \<Rightarrow> overlay_state \<Rightarrow> bool" where
  "mirrors P names C st \<longleftrightarrow> sources st = P \<and> map_option is_copied \<circ> over st = mirror_entry P names C"

lemma mirrorsD: "mirrors P names C st \<Longrightarrow> map_option is_copied (over st p) = mirror_entry P names C p"
  by (metis comp_apply mirrors_def)

lemma mirrors_update:
  assumes "mirrors P names C st" "mirror_entry P names C' p = Some (is_copied e)"
    "\<And>q. q \<noteq> p \<Longrightarrow> mirror_entry P names C' q = mirror_entry P names C q"
  shows "mirrors P names C' (st\<lparr>over := (over st)(p \<mapsto> e)\<rparr>)"
  using assms by (auto simp: mirrors_def fun_eq_iff)

text \<open>The result of an action that leaves the source alone, and on success such a mirror.\<close>

definition leaves :: "(pstr \<rightharpoonup> byte list) \<Rightarrow> pstr list \<Rightarrow> pstr set \<Rightarrow> (ov_error + 'a) \<times> overlay_state \<Rightarrow> bool" where
  "leaves P names C x \<longleftrightarrow> sources (snd x) = P \<and> (case fst x of Inl _ \<Rightarrow> True | Inr _ \<Rightarrow> mirrors P names C (snd x))"

text \<open>An action that takes one mirror to another.\<close>

definition keeps :: "pstr list \<Rightarrow> pstr set \<Rightarrow> 'a act \<Rightarrow> pstr set \<Rightarrow> bool" where
  "keeps names C act C' \<longleftrightarrow> (\<forall>P st. mirrors P names C st \<longrightarrow> leaves P names C' (act st))"

named_theorems keeps_intros

lemma keeps_bind:
  assumes "keeps names C m C'" "\<And>x. keeps names C' (k x) C''"
  shows "keeps names C (bindA m k) C''"
  unfolding keeps_def
proof (intro allI impI)
  fix P st
  assume "mirrors P names C st"
  with assms(1) have m: "leaves P names C' (m st)" unfolding keeps_def by blast
  obtain r st' where r: "m st = (r, st')" by (cases "m st")
  show "leaves P names C'' (bindA m k st)"
  proof (cases r)
    case (Inl e)
    with m r show ?thesis by (simp add: bindA_def leaves_def)
  next
    case (Inr x)
    with m r have "mirrors P names C' st'" by (simp add: leaves_def)
    with assms(2) [of x] show ?thesis by (simp add: bindA_def r Inr keeps_def)
  qed
qed

lemma keeps_then [keeps_intros]: "keeps names C m C' \<Longrightarrow> keeps names C' k C'' \<Longrightarrow> keeps names C (thenA m k) C''"
  unfolding thenA_def by (rule keeps_bind)

lemma keeps_skip [keeps_intros]: "keeps names C skipA C"
  by (simp add: keeps_def leaves_def skipA_def mirrors_def)

lemma keeps_seq [keeps_intros]: "list_all (\<lambda>m. keeps names C m C) ms \<Longrightarrow> keeps names C (seqA ms) C"
  by (induction ms) (auto simp: seqA_def intro: keeps_intros)

lemma put_copied:
  assumes "mirrors P names C st" "p \<in> C" "over st p = Some e"
  shows "mirrors P names C (put_file p bs st)"
proof -
  from mirrorsD [OF assms(1), of p] assms(2,3) have "mirror_entry P names C p = Some True" "is_copied e"
    by (cases "P p"; simp add: mirror_entry_def split: if_splits)+
  then have "mirrors P names C (st\<lparr>over := (over st)(p \<mapsto> Copied bs)\<rparr>)" by (intro mirrors_update [OF assms(1)]) auto
  with assms(3) \<open>is_copied e\<close> show ?thesis by (cases e) (simp_all add: put_file_def)
qed

lemma keeps_edit [keeps_intros]:
  assumes "p \<in> C"
  shows "keeps names C (edit_text p f) C"
  unfolding keeps_def
proof (intro allI impI)
  fix P st
  assume m: "mirrors P names C st"
  have read: "read_text p st = (r, st') \<Longrightarrow> st' = st \<and> (case r of Inl _ \<Rightarrow> True | Inr _ \<Rightarrow> over st p \<noteq> None)" for r st'
    by (auto simp: read_text_def file_bytes_def split: option.splits sum.splits)
  obtain r st' where r: "read_text p st = (r, st')" by (cases "read_text p st")
  show "leaves P names C (edit_text p f st)"
  proof (cases r)
    case (Inl e)
    with read [OF r] m show ?thesis by (simp add: edit_text_def bindA_def r mirrors_def leaves_def)
  next
    case (Inr s)
    with read [OF r] obtain e where e: "over st p = Some e" "st' = st" by auto
    have w: "mirrors P names C (put_file p bs st)" for bs using put_copied [OF m assms e(1)] .
    then have "sources (put_file p bs st) = P" for bs by (simp add: mirrors_def)
    moreover have "sources st = P" using m by (simp add: mirrors_def)
    ultimately show ?thesis
      using w by (simp add: edit_text_def bindA_def r Inr e(2) write_text_def leaves_def split: sum.splits)
  qed
qed

lemma keeps_replace [keeps_intros]: "p \<in> C \<Longrightarrow> keeps names C (replace_once p before after) C"
  unfolding replace_once_def by (rule keeps_edit)

lemma keeps_append [keeps_intros]: "p \<in> C \<Longrightarrow> keeps names C (append_text p addition) C"
  unfolding append_text_def by (rule keeps_edit)

lemma keeps_recopy [keeps_intros]: "keeps names C (recopy p) (insert p C)"
  unfolding keeps_def
proof (intro allI impI)
  fix P st
  assume m: "mirrors P names C st"
  have "mirrors P names (insert p C) (st\<lparr>over := (over st)(p \<mapsto> Copied bs)\<rparr>)" if "over st p \<noteq> None" for bs
  proof (rule mirrors_update [OF m])
    from that obtain b where "mirror_entry P names C p = Some b" using mirrorsD [OF m, of p] by (metis map_option_is_None not_None_eq)
    then show "mirror_entry P names (insert p C) p = Some (is_copied (Copied bs))"
      by (auto simp: mirror_entry_def split: if_splits)
  qed (simp add: mirror_entry_def)
  moreover have "sources st = P" using m by (simp add: mirrors_def)
  ultimately show "leaves P names (insert p C) (recopy p st)"
    by (simp add: recopy_def leaves_def split: option.splits)
qed

text \<open>A start that makes a mirror in the cleared overlay.\<close>

definition sets_up :: "pstr list \<Rightarrow> pstr set \<Rightarrow> unit act \<Rightarrow> bool" where
  "sets_up names C start \<longleftrightarrow> (\<forall>st. leaves (sources st) names C (start st))"

lemma sets_up_then:
  assumes "sets_up names C m" "keeps names C k C"
  shows "sets_up names C (thenA m k)"
  unfolding sets_up_def
proof
  fix st
  have m: "leaves (sources st) names C (m st)" using assms(1) by (simp add: sets_up_def)
  obtain r st' where r: "m st = (r, st')" by (cases "m st")
  show "leaves (sources st) names C (thenA m k st)"
    using m assms(2) by (cases r) (simp_all add: thenA_def bindA_def r leaves_def keeps_def)
qed

lemma sets_up_copy: "sets_up names (set changed) (mirror_copy names changed)"
proof -
  have "map_option is_copied (map_option (\<lambda>bs. if b then Copied bs else Linked) x) = map_option (\<lambda>_. b) x" for b x
    by (cases x) simp_all
  then show ?thesis by (simp add: sets_up_def leaves_def mirror_copy_def mirrors_def mirror_entry_def fun_eq_iff)
qed

text \<open>Part of the edited files is written.\<close>

definition written :: "(pstr \<rightharpoonup> byte list) \<Rightarrow> pstr list \<Rightarrow> pstr set \<Rightarrow> pstr set \<Rightarrow> overlay_state \<Rightarrow> bool" where
  "written P names C left st \<longleftrightarrow> sources st = P \<and>
     map_option is_copied \<circ> over st = (\<lambda>p. if p \<in> left then None else mirror_entry P names C p)"

lemma write_source_writes:
  assumes "written P names C (insert p left) st" "p \<in> C" "\<not> pruned names p" "write_source p st = (r, st')"
  shows "sources st' = P \<and> (case r of Inl _ \<Rightarrow> True | Inr _ \<Rightarrow> written P names C (left - {p}) st')"
proof -
  have s: "sources st = P" using assms(1) by (simp add: written_def)
  have "map_option is_copied (over st p) = None" using assms(1) by (simp add: written_def fun_eq_iff)
  then have n: "over st p = None" by simp
  show ?thesis
  proof (cases "P p")
    case (Some bs)
    have "written P names C (left - {p}) (st\<lparr>over := (over st)(p \<mapsto> Copied cs)\<rparr>)" for cs
      using assms(1-3) Some by (auto simp: written_def fun_eq_iff mirror_entry_def)
    with assms(4) s n Some show ?thesis
      by (auto simp: write_source_def write_text_def put_file_def split: sum.splits)
  qed (use assms(4) s in \<open>auto simp: write_source_def\<close>)
qed

lemma write_sources_write:
  assumes "written P names C (set ps) st" "distinct ps" "list_all (\<lambda>p. p \<in> C \<and> \<not> pruned names p) ps"
    "seqA (map write_source ps) st = (r, st')"
  shows "leaves P names C (r, st')"
  using assms
proof (induction ps arbitrary: st)
  case Nil
  then show ?case by (auto simp: seqA_def skipA_def written_def mirrors_def leaves_def)
next
  case (Cons p ps)
  obtain r1 st1 where w: "write_source p st = (r1, st1)" by (cases "write_source p st")
  have "set ps - {p} = set ps" using Cons.prems(2) by simp
  from write_source_writes [of P names C p "set ps" st r1 st1, unfolded this] Cons.prems w
  have st1: "sources st1 = P" "case r1 of Inl _ \<Rightarrow> True | Inr _ \<Rightarrow> written P names C (set ps) st1" by simp_all
  show ?case
  proof (cases r1)
    case (Inl e)
    with Cons.prems(4) w st1 show ?thesis by (auto simp: seqA_def thenA_def bindA_def leaves_def)
  next
    case (Inr x)
    with Cons.prems(4) w have "seqA (map write_source ps) st1 = (r, st')" by (simp add: seqA_def thenA_def bindA_def)
    with Cons.IH [of st1] Cons.prems st1 Inr show ?thesis by simp
  qed
qed

lemma sets_up_edited:
  assumes "distinct edited" "list_all (\<lambda>p. \<not> pruned names p) edited"
  shows "sets_up names (set edited) (mirror_edited names edited)"
  unfolding sets_up_def
proof
  fix st
  obtain r st' where r: "seqA (map write_source edited) (snd (mirror_skip names edited st)) = (r, st')" by fastforce
  have "written (sources st) names (set edited) (set edited) (snd (mirror_skip names edited st))"
    by (auto simp: written_def mirror_skip_def mirror_entry_def fun_eq_iff option.map_comp intro!: option.map_cong)
  from write_sources_write [OF this assms(1) _ r] assms(2) have "leaves (sources st) names (set edited) (r, st')"
    by (simp add: list_all_iff)
  moreover have "mirror_edited names edited st = (r, st')"
    using r by (simp add: mirror_edited_def thenA_def bindA_def mirror_skip_def)
  ultimately show "leaves (sources st) names (set edited) (mirror_edited names edited st)" by simp
qed

text \<open>
  The contract of a builder: its start mirrors the source, with its own copies of some
  files, and its edits keep the mirror, perhaps with more copies.
\<close>

locale overlay_script =
  fixes names :: "pstr list" and changed final :: "pstr set" and start edits :: "unit act"
  assumes start_mirrors: "sets_up names changed start"
    and edits_keep: "keeps names changed edits final"
begin

lemma build_keeps_sources:
  assumes "\<not> is_under (kernel_dir root) (kernel_dir overlay)"
  shows "leaves (sources st) names final (overlay_build root overlay start edits st)"
proof -
  let ?st = "st\<lparr>over := Map.empty\<rparr>"
  obtain r st' where r: "start ?st = (r, st')" by (cases "start ?st")
  have b: "overlay_build root overlay start edits st = (case r of Inl e \<Rightarrow> (Inl e, st') | Inr _ \<Rightarrow> edits st')"
    using assms r by (simp add: overlay_build_def thenA_def bindA_def clear_overlay_def split: sum.splits)
  from start_mirrors have "leaves (sources ?st) names changed (start ?st)" unfolding sets_up_def by blast
  then have s: "leaves (sources st) names changed (r, st')" by (simp add: r)
  show ?thesis
  proof (cases r)
    case (Inl e)
    with s b show ?thesis by (simp add: leaves_def)
  next
    case (Inr x)
    with s have "mirrors (sources st) names changed st'" by (simp add: leaves_def)
    with edits_keep b Inr show ?thesis by (simp add: keeps_def)
  qed
qed

end

end
