(* ===== verification/Gem_Overlay.thy ===== *)
theory Gem_Overlay
  imports Overlay
begin

section \<open>The GEM ownership and interrupt fixtures\<close>

text \<open>
  \<open>scripts/build_rpi5_gem_tx_fixture.py\<close>: the overlay of each mode and negative control,
  with the source it adds.  The arguments are parsed and their paths resolved.
\<close>

subsection \<open>The added source\<close>

definition WINDOW_CLOSED_FIXTURE :: pstr where
  "WINDOW_CLOSED_FIXTURE = (srcs [[],
        ''fn gem_fixture_close_window() !{unsafe} {'',
        ''    gem_fixture_print_inbound_bars();'',
        ''    let moved: u32 = (rp1_dma_arena_start as u32) + 0x40000;'',
        ''    pcie2.ubus_bar2_remap_lo = 0;'',
        ''    pcie2.rc_bar2_lo = moved | RP1_DMA_ARENA_SIZE_ENCODING;'',
        ''    pcie2.ubus_bar2_remap_lo = moved | 1;'',
        ''    let settled: u32 = pcie2.ubus_bar2_remap_lo;'',
        ''    kernel_boot_log(\"gem-tx fixture: window moved to \");'',
        ''    uart_put_udec(settled as usize);'',
        ''    kernel_boot_log(\"~n\");'',
        ''}'',
        [],
        ''fn gem_fixture_print_bar(bar: usize, lo: u32, remap: u32) {'',
        ''    kernel_boot_log(\"gem-tx fixture: inbound bar \");'',
        ''    uart_put_udec(bar);'',
        ''    kernel_boot_log(\" lo=\");'',
        ''    uart_put_udec(lo as usize);'',
        ''    kernel_boot_log(\" remap=\");'',
        ''    uart_put_udec(remap as usize);'',
        ''    kernel_boot_log(\"~n\");'',
        ''}'',
        [],
        ''// Slots 1..3 sit in the first register bank, 4..10 in the second, each slot'',
        ''// one LO/HI pair. Only LO holds the size and only REMAP_LO the enable.'',
        ''fn gem_fixture_print_inbound_bars() !{unsafe} {'',
        ''    gem_fixture_print_bar(1, pcie2.rc_bar1_lo, pcie2.ubus_bar1_remap_lo);'',
        ''    gem_fixture_print_bar(2, pcie2.rc_bar2_lo, pcie2.ubus_bar2_remap_lo);'',
        ''    gem_fixture_print_bar(3, pcie2.rc_bar3_lo, pcie2.ubus_bar3_remap_lo);'',
        ''    for slot: usize in 0..<7 {'',
        ''        let word: usize = slot * 2;'',
        ''        if (word < 14) {'',
        ''            gem_fixture_print_bar(slot + 4, pcie2.rc_bar4_to_10[word], pcie2.ubus_bar4_to_10[word]);'',
        ''        }'',
        ''    }'',
        ''}'',
        []])"

definition WINDOW_CLOSED_DRIVER :: pstr where
  "WINDOW_CLOSED_DRIVER = (srcs [[],
        ''fn gem_fixture_store(address: usize, value: usize) !{unsafe} {'',
        ''    unsafe { atomic_store_release(address, value); }'',
        ''}'',
        ''fn gem_fixture_load(address: usize) -> usize !{unsafe} {'',
        ''    return unsafe { atomic_load_acquire(address) };'',
        ''}'',
        [],
        ''let mut gem_fixture_rx_outside: [u8; 2048] align(64);'',
        [],
        ''// GitHub issue #1268: xHCI's stages need the raw half too, and this is the'',
        ''// mint file the overlay has.'',
        ''fn gem_fixture_sentinel_arm(buffer: usize) !{unsafe} {'',
        ''    for offset: usize in 0..<64 {'',
        ''        gem_fixture_store(buffer + offset * 8, 0xA5A5A5A5A5A5A5A5);'',
        ''    }'',
        ''    dma_prepare_tx(unsafe { buffer as *u8 }, 512);'',
        ''    dma_finish_rx(unsafe { buffer as *align(64) u8 }, 512);'',
        ''}'',
        [],
        ''fn gem_fixture_sentinel_changed(buffer: usize) -> usize !{unsafe} {'',
        ''    dma_finish_rx(unsafe { buffer as *align(64) u8 }, 512);'',
        ''    let mut changed: usize = 0;'',
        ''    for offset: usize in 0..<64 {'',
        ''        if (gem_fixture_load(buffer + offset * 8) != 0xA5A5A5A5A5A5A5A5) {'',
        ''            changed = changed + 1;'',
        ''        }'',
        ''    }'',
        ''    return changed;'',
        ''}'',
        [],
        ''// One receive with RX re-enabled by hand: the MAC is halted and this control'',
        ''// is the last thing the image does, so no driver owner is live on the path.'',
        ''fn gem_fixture_rx_stage(name: *u8, desc: usize, buffer: usize) !{unsafe} {'',
        ''    gem.ncr = 1 << 4;'',
        ''    for offset: usize in 0..<256 {'',
        ''        gem_fixture_store(buffer + offset * 8, 0xA5A5A5A5A5A5A5A5);'',
        ''    }'',
        ''    dma_prepare_tx(unsafe { buffer as *u8 }, 2048);'',
        ''    dma_finish_rx(unsafe { buffer as *align(64) u8 }, 2048);'',
        ''    let bus: usize = buffer + boot_once_get(&rp1_dma_pci_offset);'',
        ''    gem_fixture_store(desc, (bus & 0xFFFFFFFC) | 2);'',
        ''    gem_fixture_store(desc + 8, bus >> 32);'',
        ''    dma_prepare_tx(unsafe { desc as *u8 }, 16);'',
        ''    let desc_bus: usize = desc + boot_once_get(&rp1_dma_pci_offset);'',
        ''    gem.rbqp = desc_bus as u32;'',
        ''    gem.rbqph = (desc_bus >> 32) as u32;'',
        ''    gem.rsr = 0x0F;'',
        ''    let cleared: u32 = gem.frames_rx;'',
        ''    gem.ncr = (1 << 4) | (1 << 2);'',
        ''    let start: i64 = read_cntpct();'',
        ''    let deadline: i64 = read_cntfrq() / 2;'',
        ''    while (read_cntpct() - start < deadline) {'',
        ''    }'',
        ''    gem.ncr = 1 << 4;'',
        ''    let frames: u32 = gem.frames_rx;'',
        ''    let rsr: u32 = gem.rsr;'',
        ''    let isr: u32 = gem.isr;'',
        ''    dma_finish_rx(unsafe { desc as *align(64) u8 }, 64);'',
        ''    dma_finish_rx(unsafe { buffer as *align(64) u8 }, 2048);'',
        ''    let own: usize = gem_fixture_load(desc) & 1;'',
        ''    let mut changed: usize = 0;'',
        ''    for offset: usize in 0..<256 {'',
        ''        if (gem_fixture_load(buffer + offset * 8) != 0xA5A5A5A5A5A5A5A5) {'',
        ''            changed = changed + 1;'',
        ''        }'',
        ''    }'',
        ''    kernel_boot_log(\"gem-tx fixture: rx stage \");'',
        ''    uart_puts(name);'',
        ''    kernel_boot_log(\" frames=\");'',
        ''    uart_put_udec(frames as usize);'',
        ''    kernel_boot_log(\" own=\");'',
        ''    uart_put_udec(own);'',
        ''    kernel_boot_log(\" rsr=\");'',
        ''    uart_put_udec(rsr as usize);'',
        ''    kernel_boot_log(\" isr=\");'',
        ''    uart_put_udec(isr as usize);'',
        ''    kernel_boot_log(\" changed=\");'',
        ''    uart_put_udec(changed);'',
        ''    kernel_boot_log(\" word1=\");'',
        ''    uart_put_udec(gem_fixture_load(buffer + 8));'',
        ''    kernel_boot_log(\"~n\");'',
        ''}'',
        [],
        ''fn gem_fixture_rx_control() !{unsafe} {'',
        ''    pcie2_dma_inbound_setup();'',
        ''    let desc: usize = gem_rx_ring_cpu_address;'',
        ''    dma_finish_rx(unsafe { desc as *align(64) u8 }, 64);'',
        ''    let inside_bus: usize = (gem_fixture_load(desc) & 0xFFFFFFFC) |'',
        ''                            (gem_fixture_load(desc + 8) << 32);'',
        ''    let inside: usize = inside_bus - boot_once_get(&rp1_dma_pci_offset);'',
        ''    let outside: usize = (gem_fixture_rx_outside as *u8) as usize;'',
        ''    let arena: usize = rp1_dma_arena_start as usize;'',
        ''    gem_fixture_require(inside >= arena && inside + 2048 <= arena + 0x40000,'',
        ''                        \"RX buffer inside the arena\");'',
        ''    gem_fixture_require(outside + 2048 <= arena || outside >= arena + 0x40000,'',
        ''                        \"sentinel outside the arena\");'',
        ''    gem_fixture_rx_stage(\"inside\", desc, inside);'',
        ''    gem_fixture_rx_stage(\"outside\", desc, outside);'',
        ''}''])"

definition WINDOW_CLOSED_XHCI_DMA :: pstr where
  "WINDOW_CLOSED_XHCI_DMA = (srcs [[],
        ''fn gem_fixture_xhci_cbw_bus() -> usize {'',
        ''    match msc_cbw_take() {'',
        ''        MscCbwTransmitAuthority::Cpu(cpu) => {'',
        ''            let device = dma_begin_tx(cpu, MscCbwTransmit);'',
        ''            let mut span = dma_device_span(device, MscCbwTransmit, 0, 31);'',
        ''            let bus: usize = rp1_span_bus_address(span);'',
        ''            let restored = dma_finish_owned_tx(device, MscCbwTransmit);'',
        ''            msc_cbw_put(MscCbwTransmitAuthority::Cpu(restored));'',
        ''            return bus;'',
        ''        }'',
        ''        MscCbwTransmitAuthority::Device(stale) => {'',
        ''            msc_cbw_fail_device(stale);'',
        ''            return 0;'',
        ''        }'',
        ''    }'',
        ''}'',
        ''fn gem_fixture_xhci_csw_bus() -> usize {'',
        ''    match msc_csw_take() {'',
        ''        MscCswReceiveAuthority::Cpu(cpu) => {'',
        ''            let device = dma_begin_rx(cpu, MscCswReceive);'',
        ''            let mut span = dma_device_span(device, MscCswReceive, 0, 13);'',
        ''            let bus: usize = rp1_span_bus_address(span);'',
        ''            let restored = dma_finish_owned_rx(device, MscCswReceive);'',
        ''            msc_csw_put(MscCswReceiveAuthority::Cpu(restored));'',
        ''            return bus;'',
        ''        }'',
        ''        MscCswReceiveAuthority::Device(stale) => {'',
        ''            msc_csw_fail_device(stale);'',
        ''            return 0;'',
        ''        }'',
        ''    }'',
        ''}'',
        ''fn gem_fixture_xhci_data_bus() -> usize {'',
        ''    match msc_data_take() {'',
        ''        MscDataReceiveAuthority::Cpu(cpu) => {'',
        ''            let device = dma_begin_rx(cpu, MscDataReceive);'',
        ''            let mut span = dma_device_span(device, MscDataReceive, 0, 512);'',
        ''            let bus: usize = rp1_span_bus_address(span);'',
        ''            let restored = dma_finish_owned_rx(device, MscDataReceive);'',
        ''            msc_data_put(MscDataReceiveAuthority::Cpu(restored));'',
        ''            return bus;'',
        ''        }'',
        ''        MscDataReceiveAuthority::Device(stale) => {'',
        ''            msc_data_fail_device(stale);'',
        ''            return 0;'',
        ''        }'',
        ''    }'',
        ''}''])"

definition WINDOW_CLOSED_XHCI :: pstr where
  "WINDOW_CLOSED_XHCI = (srcs [[],
        ''let mut gem_fixture_xhci_outside: [u8; 512] align(64);'',
        [],
        ''fn gem_fixture_xhci_bus(address: usize) -> usize {'',
        ''    return address + boot_once_get(&rp1_dma_pci_offset);'',
        ''}'',
        [],
        ''fn gem_fixture_xhci_cbw_out(guard: borrow BlockDeviceGuard[&block_device_lock]) -> u32 !{unsafe} {'',
        ''    msc_cbw_header(guard, 512, true, 10);'',
        ''    msc_scsi_lba_cdb(0x28, 0, 1);'',
        ''    let bus: usize = gem_fixture_xhci_cbw_bus();'',
        ''    return usb_bulk_xfer(guard, false, bus, 31);'',
        ''}'',
        [],
        ''fn gem_fixture_xhci_stage(guard: borrow BlockDeviceGuard[&block_device_lock], name: *u8, buffer: usize) !{unsafe} {'',
        ''    gem_fixture_sentinel_arm(buffer);'',
        ''    let cbw: u32 = gem_fixture_xhci_cbw_out(guard);'',
        ''    let data: u32 = usb_bulk_xfer(guard, true, gem_fixture_xhci_bus(buffer), 512);'',
        ''    let csw: u32 = usb_bulk_xfer(guard, true, gem_fixture_xhci_csw_bus(), 13);'',
        ''    let changed: usize = gem_fixture_sentinel_changed(buffer);'',
        ''    kernel_boot_log(\"gem-tx fixture: xhci stage \");'',
        ''    uart_puts(name);'',
        ''    kernel_boot_log(\" cbw=\");'',
        ''    uart_put_udec(cbw as usize);'',
        ''    kernel_boot_log(\" data=\");'',
        ''    uart_put_udec(data as usize);'',
        ''    kernel_boot_log(\" csw=\");'',
        ''    uart_put_udec(csw as usize);'',
        ''    kernel_boot_log(\" changed=\");'',
        ''    uart_put_udec(changed);'',
        ''    kernel_boot_log(\"~n\");'',
        ''}'',
        [],
        ''fn gem_fixture_xhci_control() !{unsafe} {'',
        ''    let slot: BlockSlot[0] = block_slot_acquire();'',
        ''    let guard = block_device_take(slot);'',
        ''    gem_fixture_xhci_control_locked(guard);'',
        ''    block_device_give(guard);'',
        ''    block_slot_release(slot);'',
        ''}'',
        [],
        ''fn gem_fixture_xhci_control_locked(guard: borrow BlockDeviceGuard[&block_device_lock]) !{unsafe} {'',
        ''    match disk_initialize(guard) {'',
        ''        DiskIoResult::Err(error) => {'',
        ''            gem_fixture_require(false, \"xHCI initialization\");'',
        ''            return;'',
        ''        }'',
        ''        DiskIoResult::Ok => { }'',
        ''    }'',
        ''    let inside: usize = gem_fixture_xhci_data_bus() - boot_once_get(&rp1_dma_pci_offset);'',
        ''    let outside: usize = (gem_fixture_xhci_outside as *u8) as usize;'',
        ''    let arena: usize = rp1_dma_arena_start as usize;'',
        ''    gem_fixture_require(inside >= arena && inside + 512 <= arena + 0x40000,'',
        ''                        \"xHCI buffer inside the arena\");'',
        ''    gem_fixture_require(outside + 512 <= arena || outside >= arena + 0x40000,'',
        ''                        \"xHCI sentinel outside the arena\");'',
        ''    gem_fixture_xhci_stage(guard, \"inside\", inside);'',
        ''    gem_fixture_xhci_stage(guard, \"outside\", outside);'',
        ''    gem_fixture_close_window();'',
        ''    let cbw: u32 = gem_fixture_xhci_cbw_out(guard);'',
        ''    kernel_boot_log(\"gem-tx fixture: xhci stage moved cbw=\");'',
        ''    uart_put_udec(cbw as usize);'',
        ''    kernel_boot_log(\"~n\");'',
        ''}''])"

subsection \<open>The modes\<close>

datatype gem_mode =
    ConfirmedReady | ConfirmedReply | UnconfirmedReady | UnconfirmedReply | IrqPrimary | IrqWrongEnable | WindowClosed

datatype gem_control = DeviceAccess | QueueBank | RawIrq

fun mode_name :: "gem_mode \<Rightarrow> pstr" where
  "mode_name ConfirmedReady = u ''confirmed-ready''"
| "mode_name ConfirmedReply = u ''confirmed-reply''"
| "mode_name UnconfirmedReady = u ''unconfirmed-ready''"
| "mode_name UnconfirmedReply = u ''unconfirmed-reply''"
| "mode_name IrqPrimary = u ''irq-primary''"
| "mode_name IrqWrongEnable = u ''irq-wrong-enable''"
| "mode_name WindowClosed = u ''window-closed''"

definition endswith :: "pstr \<Rightarrow> pstr \<Rightarrow> bool" where
  "endswith s p \<longleftrightarrow> startswith (rev s) (rev p)"

abbreviation init_tkb :: pstr where "init_tkb \<equiv> u ''platform/rpi5/init.tkb''"
abbreviation driver_tkb :: pstr where "driver_tkb \<equiv> u ''drivers/net/rp1_gem.tkb''"
abbreviation wait_tkb :: pstr where "wait_tkb \<equiv> u ''drivers/net/gem_tx_wait.tkb''"
abbreviation fixture_tkb :: pstr where "fixture_tkb \<equiv> u ''tests/rpi5/gem_tx/fixture.tkb''"
abbreviation pcie_tkb :: pstr where "pcie_tkb \<equiv> u ''platform/rpi5/pcie.tkb''"
abbreviation xhci_tkb :: pstr where "xhci_tkb \<equiv> u ''platform/rpi5/usb_xhci.tkb''"
abbreviation xhci_dma_tkb :: pstr where "xhci_dma_tkb \<equiv> u ''platform/rpi5/usb_xhci_dma.tkb''"

definition gem_changed :: "gem_mode \<Rightarrow> gem_control option \<Rightarrow> pstr list" where
  "gem_changed mode control = [init_tkb, driver_tkb]
     @ (if control \<noteq> None \<or> mode = WindowClosed then [fixture_tkb] else [])
     @ (if mode = WindowClosed then [pcie_tkb, xhci_tkb, xhci_dma_tkb] else [])"

text \<open>The link to the production images, made after the walk.\<close>

definition link_build :: "unit act" where
  "link_build st = (if over st (u ''build'') \<noteq> None then (Inl (OvExists (u ''build'')), st) else (Inr (), st))"

definition gem_start :: "gem_mode \<Rightarrow> gem_control option \<Rightarrow> unit act" where
  "gem_start mode control = thenA (mirror_copy [u ''build''] (gem_changed mode control)) link_build"

text \<open>\<open>kernel_test_platform_network\<close> replaced, and the import before it.\<close>

definition replace_network :: "pstr \<Rightarrow> pstr \<Rightarrow> unit act" where
  "replace_network import_line body = edit_text init_tkb (\<lambda>s.
     case index_from (src ''fn kernel_test_platform_network() {'') s 0 of Inl e \<Rightarrow> Inl (OvPy e) | Inr start \<Rightarrow>
     case index_from [10, 125, 10] s start of Inl e \<Rightarrow> Inl (OvPy e) | Inr stop \<Rightarrow>
     Inr (import_line @ take start s @ body @ drop (stop + 3) s))"

subsection \<open>The interrupt modes\<close>

definition irq_body :: "gem_mode \<Rightarrow> pstr" where
  "irq_body mode = replace_all (u ''MODE'') (mode_name mode) (srcs [''fn kernel_test_platform_network() {'',
        ''    match network_capability_take() {'',
        ''        NetworkCapabilityTakeResult::Empty => { kernel_boot_log(\"FAIL gem-probe: init~n\"); }'',
        ''        NetworkCapabilityTakeResult::Ready(ready) => {'',
        ''            kernel_boot_log(\"gem-probe: mode MODE~n\");'',
        ''            gem_probe_run(ready);'',
        ''        }'',
        ''    }'',
        ''    while (true) { workload_profile_interrupt_wait(); }'',
        ''}''])"

definition REG_FIELD :: regex where
  "REG_FIELD = seqs [Group 1 (Plus (Chr (Of [CWord]))), Lit (u '':''), Star (Chr (Of [CSpace])), Lit (u ''u32''),
     Plus (Chr (Of [CSpace])), Lit (u ''at''), Plus (Chr (Of [CSpace])),
     Group 2 (Seq (Lit (u ''0x'')) (Plus (Chr (Of [Span 48 57, Span 65 70])))), Lit (u '';'')]"

definition upper :: "nat \<Rightarrow> nat" where
  "upper c = (if 97 \<le> c \<and> c \<le> 122 then c - 32 else c)"

text \<open>The format \<open>02X\<close>.\<close>

definition hex_02X :: "nat \<Rightarrow> pstr" where
  "hex_02X n = (let ds = map upper (hex_nat n) in replicate (2 - length ds) 48 @ ds)"

definition reg_field :: "rmatch \<Rightarrow> pstr \<times> nat" where
  "reg_field m = (group_text m 1, if group_text m 1 = u ''ier'' then 1536
     else case int_digits 16 False 0 (drop 2 (group_text m 2)) of None \<Rightarrow> 0 | Some n \<Rightarrow> n)"

definition wrong_enable :: "pstr \<Rightarrow> ov_error + pstr" where
  "wrong_enable s =
     (case index_from (src ''io struct Rp1GemRegs {'') s 0 of Inl e \<Rightarrow> Inl (OvPy e) | Inr start \<Rightarrow>
      case index_from [10, 125] s start of Inl e \<Rightarrow> Inl (OvPy e) | Inr stop \<Rightarrow>
        let fields = map reg_field (re_findall no_word REG_FIELD (pslice s start stop)) in
        if fields = [] then Inl (OvPy (ValueError (u ''GEM fixture: no register fields in Rp1GemRegs'')))
        else Inr (take start s @ srcs [''io struct Rp1GemRegs {'']
          @ join [10] (map (\<lambda>(name, offset). src ''    '' @ name @ u '': u32 at 0x'' @ hex_02X offset @ u '';'') (sort_key snd fields))
          @ drop stop s))"

definition irq_edits :: "gem_mode \<Rightarrow> unit act" where
  "irq_edits mode = seqA [
     replace_network (srcs [''use \"kernel/tests/rpi5/gem_tx/irq_fixture.tkb\";'']) (irq_body mode),
     replace_once driver_tkb (src ''    workload_profile_note_network_tx(safe_len as usize);'')
       (srcs [''    gem_probe_note_submit();''] @ src ''    workload_profile_note_network_tx(safe_len as usize);''),
     replace_once driver_tkb (src ''    let isr: u32 = gem.isr;'')
       (srcs [''    let isr: u32 = gem.isr;''] @ src ''    gem_probe_note_irq(isr);'')]"

definition wait_edits :: "gem_mode \<Rightarrow> unit act" where
  "wait_edits mode = seqA [
     replace_once wait_tkb (src ''if (gem_tx_slot_done(slot)) { return true; }'')
       (src ''if (gem_tx_slot_done(slot)) { gem_probe_note_done(); return true; }''),
     replace_once wait_tkb (src ''        workload_profile_interrupt_wait();'')
       (srcs [''        workload_profile_interrupt_wait();''] @ src ''        gem_probe_note_wake();''),
     (if mode = IrqWrongEnable then edit_text driver_tkb wrong_enable else skipA)]"

subsection \<open>The transmit modes\<close>

definition bool_text :: "bool \<Rightarrow> pstr" where
  "bool_text b = (if b then u ''true'' else u ''false'')"

definition tx_body :: "gem_mode \<Rightarrow> pstr" where
  "tx_body mode = (let name = mode_name mode in
     replace_all (u ''MODE'') name (replace_all (u ''REPLY'') (bool_text (endswith name (u ''reply'')))
       (replace_all (u ''UNCONFIRMED'') (bool_text (startswith name (u ''unconfirmed'')))
     (srcs [''fn kernel_test_platform_network() {'',
        ''    match network_capability_take() {'',
        ''        NetworkCapabilityTakeResult::Empty => {'',
        ''            gem_fixture_require(false, \"physical GEM initialization\");'',
        ''        }'',
        ''        NetworkCapabilityTakeResult::Ready(ready) => {'',
        ''            kernel_boot_log(\"gem-tx fixture: mode MODE~n\");'',
        ''            gem_fixture_hide_halt = UNCONFIRMED;'',
        ''            gem_fixture_reply_path = REPLY;'',
        ''            gem_fixture_run(ready);'',
        ''        }'',
        ''    }'',
        ''    while (true) { workload_profile_interrupt_wait(); }'',
        ''}'']))))"

definition tx_edits :: "gem_mode \<Rightarrow> unit act" where
  "tx_edits mode = seqA [
     replace_network (srcs [''use \"kernel/tests/rpi5/gem_tx/fixture.tkb\";'']) (tx_body mode),
     replace_once driver_tkb (src ''    workload_profile_note_network_tx(safe_len as usize);'')
       (srcs [''    gem_fixture_submissions = gem_fixture_submissions + 1;''] @ src ''    workload_profile_note_network_tx(safe_len as usize);''),
     replace_once driver_tkb (src ''    return gem_tx_ring_poll(slot);'')
       (srcs [''    let observed: bool = gem_tx_ring_poll(slot);'',
        ''    if (observed) { gem_fixture_observed_used = true; }''] @ src ''    return observed && gem_fixture_hide_completion == false;''),
     replace_once driver_tkb (src ''        if ((gem.tsr & (1 << 3)) == 0) {'')
       (srcs [''        let observed: u32 = gem.tsr;'',
        ''        gem_fixture_last_tsr = observed;'',
        ''        if ((observed & (1 << 3)) == 0 &&''] @ src ''                gem_fixture_hide_halt == false) {'')]"

definition window_closed_edits :: "unit act" where
  "window_closed_edits = seqA [
     replace_once fixture_tkb (srcs [''    gem_fixture_hide_completion = true;'']) (srcs [''    gem_fixture_close_window();'']),
     replace_once fixture_tkb
       (srcs [''    gem_fixture_require(gem_fixture_observed_used,'',
        ''                        \"a real USED observation was hidden\");''])
       (srcs [''    gem_fixture_require(gem_fixture_observed_used == false,'',
        ''                        \"TX completed through a closed window\");'']),
     replace_once fixture_tkb (srcs [''    ready = gem_fixture_reply(ready, true);'']) [],
     replace_once pcie_tkb (srcs [''    rc_bar2_hi: u32 at 0x4038;''])
       (srcs [''    rc_bar2_hi: u32 at 0x4038;'',
        ''    rc_bar3_lo: u32 at 0x403C;'']),
     replace_once pcie_tkb (srcs [''    ubus_bar2_remap_hi: u32 at 0x40B8;''])
       (srcs [''    ubus_bar2_remap_hi: u32 at 0x40B8;'',
        ''    ubus_bar3_remap_lo: u32 at 0x40BC;'',
        ''    rc_bar4_to_10: [u32; 14] at 0x40D4;'',
        ''    ubus_bar4_to_10: [u32; 14] at 0x410C;'']),
     replace_once driver_tkb (srcs [''    sa1_top: u32 at 0x8C;''])
       (srcs [''    sa1_top: u32 at 0x8C;'',
        ''    frames_rx: u32 at 0x158;'']),
     append_text driver_tkb WINDOW_CLOSED_DRIVER,
     replace_once fixture_tkb (srcs [''    net_shutdown(ready);''])
       (srcs [''    gem_fixture_rx_control();'',
        ''    net_shutdown(ready);'',
        ''    gem_fixture_xhci_control();'']),
     append_text xhci_tkb WINDOW_CLOSED_XHCI,
     append_text xhci_dma_tkb WINDOW_CLOSED_XHCI_DMA,
     append_text fixture_tkb WINDOW_CLOSED_FIXTURE]"

definition invalid_access :: pstr where
  "invalid_access = (srcs [[],
        ''// The real GEM packet owner must reject a write while GEM reads it.'',
        ''fn gem_fixture_invalid_access(posted: borrow GemPkt_TxPosted[b, o, 1, r]) {'',
        ''    let bytes = GemPkt_TxPosted_bytes(posted, 0);'',
        ''    bytes[0] = 1;'',
        ''}''])"

definition invalid_irq_bank :: "gem_control \<Rightarrow> pstr" where
  "invalid_irq_bank control =
     (srcs [[],
        ''// The real GEM API must exclude the additional queue bank.''] @ src ''fn gem_fixture_invalid_irq_bank() -> u32 { return '')
     @ (if control = QueueBank then src ''gem.queue1_isr'' else src ''gem_read(0x400)'') @ srcs [''; }'']"

definition control_edits :: "gem_control option \<Rightarrow> unit act" where
  "control_edits control = (case control of None \<Rightarrow> skipA
     | Some DeviceAccess \<Rightarrow> append_text fixture_tkb invalid_access
     | Some c \<Rightarrow> append_text fixture_tkb (invalid_irq_bank c))"

subsection \<open>The command\<close>

definition gem_edits :: "gem_mode \<Rightarrow> gem_control option \<Rightarrow> unit act" where
  "gem_edits mode control =
     (if startswith (mode_name mode) (u ''irq-'')
      then thenA (irq_edits mode) (thenA (recopy wait_tkb) (wait_edits mode))
      else thenA (tx_edits mode) (thenA (if mode = WindowClosed then window_closed_edits else skipA) (control_edits control)))"

definition gem_main :: "pstr list \<Rightarrow> pstr list \<Rightarrow> gem_mode \<Rightarrow> gem_control option \<Rightarrow> unit act" where
  "gem_main root overlay mode control st =
     (if \<not> (is_under overlay (root @ [u ''.git'']) \<or> is_under overlay (root @ [u ''_build'']))
      then (Inl (OvPy (ValueError (u ''overlay must be an isolated .git/_build directory''))), st)
      else overlay_build root overlay (gem_start mode control) (gem_edits mode control) st)"

subsection \<open>The overlay is isolated\<close>

text \<open>The files that are copies in the end.\<close>

definition gem_copies :: "gem_mode \<Rightarrow> gem_control option \<Rightarrow> pstr set" where
  "gem_copies mode control = set (gem_changed mode control)
     \<union> (if mode = IrqPrimary \<or> mode = IrqWrongEnable then {wait_tkb} else {})"

lemma irq_mode: "startswith (mode_name mode) (u ''irq-'') \<longleftrightarrow> mode = IrqPrimary \<or> mode = IrqWrongEnable"
  by (cases mode) (simp_all add: startswith_def u_def)

lemma keeps_link_build [keeps_intros]: "keeps names C link_build C"
  by (simp add: keeps_def leaves_def link_build_def mirrors_def)

lemma keeps_network [keeps_intros]: "init_tkb \<in> C \<Longrightarrow> keeps names C (replace_network i b) C"
  unfolding replace_network_def by (rule keeps_edit)

lemma gem_changed_files:
  "init_tkb \<in> set (gem_changed mode control)" "driver_tkb \<in> set (gem_changed mode control)"
  "fixture_tkb \<in> set (gem_changed mode (Some c))"
  "{fixture_tkb, pcie_tkb, xhci_tkb, xhci_dma_tkb} \<subseteq> set (gem_changed WindowClosed control)"
  by (simp_all add: gem_changed_def)

lemma gem_edits_keep: "keeps names (set (gem_changed mode control)) (gem_edits mode control) (gem_copies mode control)"
proof (cases "mode = IrqPrimary \<or> mode = IrqWrongEnable")
  case True
  let ?C = "set (gem_changed mode control)"
  have "keeps names ?C (irq_edits mode) ?C"
    unfolding irq_edits_def by (intro keeps_intros) (simp add: gem_changed_files keeps_intros)
  moreover have "keeps names (insert wait_tkb ?C) (wait_edits mode) (insert wait_tkb ?C)"
    unfolding wait_edits_def by (intro keeps_intros) (simp add: gem_changed_files keeps_intros)
  ultimately show ?thesis
    using True by (auto simp: gem_edits_def irq_mode gem_copies_def intro: keeps_intros)
next
  case False
  let ?C = "set (gem_changed mode control)"
  have "keeps names ?C (tx_edits mode) ?C"
    unfolding tx_edits_def by (intro keeps_intros) (simp add: gem_changed_files keeps_intros)
  moreover have "keeps names ?C window_closed_edits ?C" if "mode = WindowClosed"
    unfolding window_closed_edits_def that using gem_changed_files(4) [of control]
    by (intro keeps_intros) (simp add: gem_changed_files keeps_intros)
  moreover have "keeps names ?C (control_edits control) ?C"
    by (auto simp: control_edits_def gem_changed_files split: option.splits gem_control.splits intro: keeps_intros)
  ultimately show ?thesis
    using False by (auto simp: gem_edits_def irq_mode gem_copies_def intro: keeps_intros)
qed

interpretation gem: overlay_script "[u ''build'']" "set (gem_changed mode control)" "gem_copies mode control"
  "gem_start mode control" "gem_edits mode control" for mode control
proof
  show "sets_up [u ''build''] (set (gem_changed mode control)) (gem_start mode control)"
    unfolding gem_start_def using sets_up_copy keeps_link_build by (rule sets_up_then)
qed (rule gem_edits_keep)

text \<open>
  (C38) Building the GEM fixture never changes the source tree, in any mode, with any
  control, from any state, also when it raises.  When it succeeds the overlay has every
  file outside the build directories, a copy of each file the mode edits and a link to
  each other file.
\<close>

theorem gem_overlay_isolated:
  "case gem_main root overlay mode control st of (r, st') \<Rightarrow>
     sources st' = sources st
     \<and> (case r of Inl _ \<Rightarrow> True
        | Inr _ \<Rightarrow> mirrors (sources st) [u ''build''] (gem_copies mode control) st')"
proof (cases "is_under overlay (root @ [u ''.git'']) \<or> is_under overlay (root @ [u ''_build''])")
  case True
  then have "length root < length overlay" by (auto simp: is_under_def dest!: arg_cong [of _ _ length])
  then have "\<not> is_under (kernel_dir root) (kernel_dir overlay)" by (auto simp: is_under_def dest!: arg_cong [of _ _ length])
  note built = gem.build_keeps_sources [OF this, of st mode control]
  obtain r st' where r: "overlay_build root overlay (gem_start mode control) (gem_edits mode control) st = (r, st')" by fastforce
  from built [unfolded r leaves_def] True show ?thesis by (simp add: gem_main_def r split: sum.splits)
qed (simp add: gem_main_def)

end
