(* ===== verification/Qemu_Overlays.thy ===== *)
theory Qemu_Overlays
  imports Overlay
begin

section \<open>The QEMU overlays\<close>

text \<open>
  \<open>scripts/build_qemu_dma_fixture.py\<close>, \<open>build_qemu_net_wake_control.py\<close>,
  \<open>build_qemu_race_window.py\<close> with its table of windows, and the text edit of
  \<open>build_virtio_net_native_fixture.py\<close>.  The resolution of a path on the command line is a
  parameter.  The set of a window's files is written in the order of its table entry.
\<close>

subsection \<open>The DMA fixture\<close>

abbreviation dma_init :: pstr where "dma_init \<equiv> u ''platform/qemu/init.tkb''"
abbreviation dma_driver :: pstr where "dma_driver \<equiv> u ''drivers/block/virtio_blk.tkb''"
abbreviation dma_mint :: pstr where "dma_mint \<equiv> u ''drivers/block/virtio_blk_dma.tkb''"

definition dma_changed :: "pstr list" where
  "dma_changed = [dma_init, dma_driver, dma_mint]"

definition dma_controls :: "pstr list" where
  "dma_controls = [u ''error'', u ''reset'', u ''failed'', u ''disabled'']"

definition dma_control_edit :: "pstr option \<Rightarrow> unit act" where
  "dma_control_edit control =
     (if control = Some (u ''error'') then
        replace_once dma_mint
          (srcs [''    virtio_blk_request_settle();'',
        ''    virtio_blk_data_settle();''] @ src ''    return VirtioBlkReceiveUsed::Observed;'')
          (srcs [''    virtio_blk_data_settle();''] @ src ''    return VirtioBlkReceiveUsed::Observed;'')
      else if control = Some (u ''reset'') then
        replace_once dma_mint
          (srcs [''    virtio_blk_request_settle();'',
        ''    virtio_blk_data_settle();''] @ src ''    return true;'')
          (srcs [''    virtio_blk_request_settle();''] @ src ''    return true;'')
      else if control = Some (u ''failed'') then
        replace_once dma_mint
          (srcs [''        virtio_blk_status_store(guard, status);''] @ src ''        return false;'')
          (srcs [''        virtio_blk_status_store(guard, status);''] @ src ''        return true;'')
      else if control = Some (u ''disabled'') then
        replace_once dma_driver
          (src ''    if (virtio_blk_init(guard) == false) { return false; }'')
          (src ''    if (virtio_blk_init(guard) == false) { return true; }'')
      else skipA)"

definition dma_edits :: "pstr option \<Rightarrow> unit act" where
  "dma_edits control = seqA [
     replace_once dma_init (src ''fn main() !{unsafe} {'') (src ''fn production_main() !{unsafe} {''),
     edit_text dma_init (\<lambda>s. Inr ((srcs [''use \"kernel/tests/qemu/dma/virtio_blk_fixture.tkb\";'']) @ s
       @ (srcs [[],
        ''fn main() !{unsafe} { dma_fixture_run(); }'']))),
     replace_once dma_driver (src ''    virtio_blk_regs.queue_notify = 0;'')
       (srcs [''    virtio_blk_regs.queue_notify = 0;''] @ src ''    dma_fixture_notify();''),
     replace_once dma_mint (src ''    virtio_blk_regs.status = 0;'')
       (srcs [''    if (dma_fixture_mode != 2) {'',
        ''        virtio_blk_regs.status = 0;''] @ src ''    }''),
     dma_control_edit control]"

text \<open>The arguments after the program's name.\<close>

definition dma_main :: "(pstr \<Rightarrow> pstr list) \<Rightarrow> pstr list \<Rightarrow> unit act" where
  "dma_main resolve args st = (case args of
     [root, overlay] \<Rightarrow> overlay_build (resolve root) (resolve overlay) (mirror_copy [u ''build''] dma_changed) (dma_edits None) st
   | [root, overlay, control] \<Rightarrow>
       if control \<notin> set dma_controls then (Inl OvUsage, st)
       else overlay_build (resolve root) (resolve overlay) (mirror_copy [u ''build''] dma_changed) (dma_edits (Some control)) st
   | _ \<Rightarrow> (Inl OvUsage, st))"

subsection \<open>The wake control\<close>

definition OVERLAID :: "pstr list" where
  "OVERLAID = [u ''arch/arm64/kernel/secondary.tkb'', u ''arch/arm64/kernel/timer.tkb'']"

definition unwalked :: "pstr list" where "unwalked = [u ''.git'', u ''build'']"

definition wake_edits :: "unit act" where
  "wake_edits = replace_once (u ''arch/arm64/kernel/timer.tkb'')
     (srcs [''    kernel_process_tick_wake_if_due();''])
     (srcs [''    if (KERNEL_STALL_PROBES == 2) { kernel_process_tick_wake_if_due(); }'',
        ''    // core-role: the control's pre-#829 single walker'',
        ''    if (cpu_id() == 0) {'',
        ''        let guard = process_run_lock();'',
        ''        for every_core: usize in 0..<KERNEL_MAX_CORES {'',
        ''            if (every_core < KERNEL_MAX_CORES) {'',
        ''                let walked: {0..<KERNEL_MAX_CORES as usize} = every_core;'',
        ''                kernel_process_tick_wake_scan(guard, walked, read_cntpct() as usize);'',
        ''            }'',
        ''        }'',
        ''        process_run_unlock(guard);'',
        ''    }''])"

definition wake_main :: "(pstr \<Rightarrow> pstr list) \<Rightarrow> pstr list \<Rightarrow> unit act" where
  "wake_main resolve args st = (case args of
     [root, overlay] \<Rightarrow> overlay_build (resolve root) (resolve overlay) (mirror_edited unwalked OVERLAID) wake_edits st
   | _ \<Rightarrow> (Inl OvUsage, st))"

subsection \<open>The race windows\<close>

definition spin :: "pstr \<Rightarrow> bool \<Rightarrow> pstr" where
  "spin label peer_only =
     src ''    // race window '' @ label @ srcs ['' (scripts/build_qemu_race_window.py)'']
     @ src ''    if ('' @ (if peer_only then src ''cpu_id() != 0'' else src ''true'') @ srcs ['') {'']
     @ srcs [''        let race_window_start: i64 = read_cntpct();'',
         ''        while (read_cntpct() - race_window_start <'',
         ''               (read_cntfrq() >> 5)) {}'',
         ''    }'']"

type_synonym text_edit = "pstr \<times> pstr \<times> pstr"

record window =
  w_spin :: "(pstr \<times> pstr \<times> bool) option"
  w_prepare :: "text_edit list"
  w_check :: "text_edit list"

definition PROBE_ENTRIES :: "pstr list" where
  "PROBE_ENTRIES = [u ''pool_contention'', u ''freelist_contention'', u ''page_contention'', u ''asid_contention'', u ''fd_refcount_contention'', u ''pid_contention'', u ''schedule_contention'', u ''occupancy_drain'', u ''console_contention'', u ''init_once_contention'', u ''tcp_connection_contention'', u ''tcp_fixture_claim_contention'', u ''world_stop_peer_probe'', u ''pool_walk_contention'', u ''ext2_mutation_contention'', u ''signal_contention'']"

definition PROBE_ENTRY_DELAY :: pstr where
  "PROBE_ENTRY_DELAY = (srcs [''                    let saved_probe_irq: usize = mutex_irq_save();'',
        ''                    let delayed_probe_entry: i64 = read_cntpct();'',
        ''                    while (read_cntpct() - delayed_probe_entry <'',
        ''                           (read_cntfrq() >> 1) + (read_cntfrq() >> 2)) {}'',
        ''                    mutex_irq_restore(saved_probe_irq);''])"

definition probe_run :: "pstr \<Rightarrow> pstr" where
  "probe_run name = src ''                    '' @ name @ srcs [''_secondary_run(core_id);'']"

definition probe_on_zero :: "pstr \<Rightarrow> pstr" where
  "probe_on_zero name = src ''                    if (cpu_id() == 0) { '' @ name @ srcs [''_secondary_run(core_id); }'']"

definition window_678 :: window where
  "window_678 = \<lparr>w_spin = Some (u ''kernel/freelist_contention_evidence.tkb'',
      (srcs [''    // With per-round rendezvous this is the slowest peer's completion count'',
       ''    // at the instant the primary finishes, not a scheduler-granularity'',
       ''    // metric.'']), False),
     w_prepare = [],
     w_check = [(u ''kernel/freelist_contention_evidence.tkb'',
      (srcs [''    return atomic_word_load(freelist_probe_armed_address()) == 1 &&'',
       ''           peer_tally_count(&freelist_probe_tally, cpu) < FREELIST_CONTENTION_ROUNDS;'']),
      (srcs [''    return atomic_word_load(freelist_probe_armed_address()) == 1;''])),
     (u ''kernel/freelist_contention_evidence.tkb'',
      (srcs [''    // The idle loop may enter again before the primary disarms this phase.'',
       ''    // Keep the round in the phase's published count, not a fresh local loop:'',
       ''    // an old rendezvous sequence must never authorize another allocation.'',
       ''    while (peer_tally_count(&freelist_probe_tally, cpu) <'',
       ''               FREELIST_CONTENTION_ROUNDS &&'',
       ''           atomic_word_load(freelist_probe_armed_address()) == 1) {'',
       ''        let sequence: usize = peer_tally_count(&freelist_probe_tally, cpu) + 1;'',
       ''        if (freelist_probe_cycle(cpu, sequence)) {'',
       ''            peer_tally_add(&freelist_probe_tally, cpu);'',
       ''        }'',
       ''    }'']),
      (srcs [''    for round: usize in 0..<FREELIST_CONTENTION_ROUNDS {'',
       ''        if (atomic_word_load(freelist_probe_armed_address()) == 1) {'',
       ''            if (freelist_probe_cycle(cpu, round + 1)) {'',
       ''                peer_tally_add(&freelist_probe_tally, cpu);'',
       ''            }'',
       ''        }'',
       ''    }'']))]\<rparr>"

definition window_761_unbounded :: window where
  "window_761_unbounded = \<lparr>w_spin = None,
     w_prepare = [],
     w_check = [(u ''kernel/syscall.tkb'',
      (srcs [''                    let mut amount: usize = received;'']),
      (srcs [''                    let mut amount: usize = requested;''])),
     (u ''kernel/syscall.tkb'',
      (srcs [''                   if (buffered > available) { buffered = available; }'']),
      [])]\<rparr>"

definition window_830_core0 :: window where
  "window_830_core0 = \<lparr>w_spin = None,
     w_prepare = [],
     w_check = [(u ''kernel/nic_irq_affinity.tkb'',
      (srcs [''const NIC_IRQ_EVIDENCE_CORE: usize = SECONDARY_CORE_ID;'']),
      (srcs [''const NIC_IRQ_EVIDENCE_CORE: usize = 0;'']))]\<rparr>"

definition window_705_missed_arrival :: window where
  "window_705_missed_arrival = \<lparr>w_spin = None,
     w_prepare = [],
     w_check = [(u ''kernel/process.tkb'',
      (srcs [''        match scheduled_process_set_affinity_mask(guard, slot, 1) {'']),
      (srcs [''        match scheduled_process_set_affinity_mask(guard, slot, 2) {'']))]\<rparr>"

definition window_705 :: window where
  "window_705 = \<lparr>w_spin = None,
     w_prepare = [],
     w_check = [(u ''kernel/process.tkb'',
      (srcs [''    if (kernel_process_tick_leave_excluded(current)) {'']),
      (srcs [''    if (false) {'']))]\<rparr>"

definition window_609 :: window where
  "window_609 = \<lparr>w_spin = Some (u ''kernel/process.tkb'',
      (srcs [''fn kernel_process_stack_idle_blocked() {'',
       ''    let core: usize = cpu_id();'']), True),
     w_prepare = [],
     w_check = [(u ''kernel/process.tkb'',
      (srcs [''    if (scheduled_process_record_owned(owner).stack_owner_cpu !='',
       ''            PROCESS_STACK_UNOWNED) {'',
       ''        return ScheduledProcessStartCheck::Standing(state);'',
       ''    }'',
       ''    scheduled_process_state_drop(state);'',
       ''    return ScheduledProcessStartCheck::Startable('',
       ''        scheduled_process_startable_state(owner));'',
       ''}'',
       []] @ src ''// The same for a process this CPU itself stands on:''),
      (srcs [''    scheduled_process_state_drop(state);'',
       ''    return ScheduledProcessStartCheck::Startable('',
       ''        scheduled_process_startable_state(owner));'',
       ''}'',
       []] @ src ''// The same for a process this CPU itself stands on:''))]\<rparr>"

definition window_603 :: window where
  "window_603 = \<lparr>w_spin = Some (u ''kernel/process.tkb'',
      (srcs [''fn kernel_process_block_wait4(current_authority: ProcessCurrent[current_process, ProcessState::Running], current: borrow FrameRef[process, level])'',
       ''        -> BlockSwitch {'']), False),
     w_prepare = [],
     w_check = [(u ''kernel/syscall.tkb'',
      (srcs [''            if (reason == ProcessWaitReason::ChildExit) {'',
       ''                kernel_process_current_set_pending_block_locked('',
       ''                    retry_guard, ProcessWaitReason::None, 0);'',
       ''            }'']),
      []),
     (u ''kernel/process_wait.tkb'',
      (srcs [''// A wake leaves nothing pending.'']),
      (srcs [''fn process_state_reverted_mark(cell: &mut ProcessStateCell) {'',
       ''    (*cell).value = ProcessRecordState::Resuming(0);'',
       ''}'',
       [],
       ''// A wake leaves nothing pending.''])),
     (u ''kernel/process.tkb'',
      (srcs [''            .pending_block_reason = reason;'']),
      (srcs [''            .pending_block_reason = reason;'',
       ''        // The reverted kernel marks a wait4 continuation on a'',
       ''        // process that is still Running.'',
       ''        if (reason == ProcessWaitReason::ChildExit) {'',
       ''            process_state_reverted_mark('',
       ''                &scheduled_process_record_current(current_authority).state);'',
       ''        }'']))]\<rparr>"

definition window_635 :: window where
  "window_635 = \<lparr>w_spin = None,
     w_prepare = [],
     w_check = [(u ''kernel/syscall.tkb'',
      (srcs [''            if (terminal_rx_pending(guard)) { kernel_process_terminal_settings_wake(guard); }'']),
      [])]\<rparr>"

definition window_633 :: window where
  "window_633 = \<lparr>w_spin = Some (u ''kernel/syscall.tkb'',
      (srcs [''                let reaped_status: ProcessEnd ='',
       ''                    kernel_process_current_reap_pid(zombie_pid);'']), False),
     w_prepare = [],
     w_check = [(u ''kernel/syscall.tkb'',
      (srcs [''                return syscall_wait4_resume(frame, zombie_pid, current_authority, status_word as usize);'']),
      (srcs [''                return syscall_wait4_resume(frame,'',
       ''                    kernel_process_last_reaped_pid(current_authority), current_authority, status_word as usize);''])),
     (u ''kernel/process.tkb'',
      (srcs [''    execution_state[execution_cpu_index()].last_exited_child_pid ='',
       ''        scheduled_process_pid_of_handle(child);'']),
      (srcs [''    execution_state[execution_cpu_index()].last_exited_child_pid ='',
       ''        scheduled_process_pid_of_handle(child);'',
       ''    let reverted_guard = process_run_guard_forge_unlocked();'',
       ''    scheduled_process_record_live_locked(reverted_guard, parent).last_reaped_pid ='',
       ''        scheduled_process_pid_of_handle(child);'',
       ''    process_run_guard_discard_unlocked(reverted_guard);'']))]\<rparr>"

definition window_651 :: window where
  "window_651 = \<lparr>w_spin = None,
     w_prepare = map (\<lambda>name. (u ''arch/arm64/kernel/secondary.tkb'', probe_run name, PROBE_ENTRY_DELAY @ probe_run name)) PROBE_ENTRIES,
     w_check = [(u ''lib/peer_tick_window.tkb'',
      (srcs [''    return kernel_tick_count_of(window.peer) - window.ticks_start.value <'',
       ''               window.tick_budget.ticks && wall_emergency_open(window.wall_start);'']),
      (srcs [''    return read_cntpct() - window.wall_start.value <'',
       ''               (read_cntfrq() >> 6) * (window.tick_budget.ticks as i64);'']))]\<rparr>"

definition window_651_no_peer :: window where
  "window_651_no_peer = \<lparr>w_spin = None,
     w_prepare = [],
     w_check = map (\<lambda>name. (u ''arch/arm64/kernel/secondary.tkb'', probe_run name, probe_on_zero name)) PROBE_ENTRIES
     @ [(u ''kernel/occupancy_drain_evidence.tkb'',
      (srcs [''    match world_stop_begin('',
       ''            &kernel_world_stop, online, WORLD_STOP_PROBE_SPINS) {'']),
      (srcs [''    let chosen_stop = match world_stop_resume_control {'',
       ''        0 => { world_stop_begin_nonack_probe('',
       ''            &kernel_world_stop, online, WORLD_STOP_PROBE_SPINS) }'',
       ''        _ => { world_stop_begin('',
       ''            &kernel_world_stop, online, WORLD_STOP_PROBE_SPINS) }'',
       ''    };'',
       ''    match chosen_stop {''])),
     (u ''kernel/occupancy_drain_evidence.tkb'',
      (srcs [''fn world_stop_probe() -> bool !{unsafe} {'']),
      (srcs [''let mut world_stop_resume_control: usize;'',
       ''let mut world_stop_resume_control_before: usize;'',
       ''let mut world_stop_resume_control_observed: usize;'',
       ''fn world_stop_probe() -> bool !{unsafe} {'',
       ''    world_stop_resume_control_before = secondary_tick_value();'',
       ''    if (world_stop_resume_control == 1) {'',
       ''        while (secondary_tick_value() == world_stop_resume_control_before) {}'',
       ''    }''])),
     (u ''lib/peer_tick_window.tkb'',
      (src ''fn peer_tick_stamp_changed(''),
      (srcs [''// Overlay-only raw mint for the frozen observation and deliberately wrong baseline.'',
       ''fn peer_tick_stamp_control(peer: {0..<KERNEL_MAX_CORES as usize} @ p,'',
       ''                           raw: usize) -> PeerTickStamp[p] {'',
       ''    let mut stamp: PeerTickStamp[p] = { raw }; return stamp;'',
       ''}''] @ src ''fn peer_tick_stamp_changed('')),
     (u ''lib/occupancy.tkb'',
      (srcs [''    let mut baseline: PeerTickStamp[p] = peer_tick_stamp(peer);'']),
      (srcs [''    world_stop_resume_control_observed = kernel_tick_count_of(peer);'',
       ''    let mut baseline: PeerTickStamp[p] = peer_tick_stamp(peer);''])),
     (u ''lib/occupancy.tkb'',
      (srcs [''    let mut now: PeerTickStamp[p] = peer_tick_stamp(ticket.core);'']),
      (srcs [''    let mut now: PeerTickStamp[p] = peer_tick_stamp(ticket.core);'',
       ''    if (world_stop_resume_control == 1) {'',
       ''        now = peer_tick_stamp_control(ticket.core, world_stop_resume_control_observed);'',
       ''    }''])),
     (u ''kernel/signal_contention_evidence.tkb'',
      (srcs [''private fn signal_probe_round(round: usize, locked: bool) -> usize'',
       ''        !{unsafe} {'']),
      (srcs [''let mut signal_round_control: usize;'',
       ''private fn signal_probe_round(round: usize, locked: bool) -> usize'',
       ''        !{unsafe} {'',
       ''    signal_round_control = signal_round_control + 1;''])),
     (u ''init/contention_probes.tkb'',
      (srcs [''        kernel_boot_log(\"world stop from a peer: failed~n\");'',
       ''    }'',
       ''}'']),
      (srcs [''        kernel_boot_log(\"world stop from a peer: failed~n\");'',
       ''    }'',
       ''    world_stop_resume_control = 1;'',
       ''    if (world_stop_probe() == false) {'',
       ''        kernel_boot_log(\"world stop resume control: refused~n\");'',
       ''    } else {'',
       ''        kernel_boot_log(\"world stop resume control: admitted~n\");'',
       ''    }'',
       ''    kernel_boot_log(\"signal phase control attempts: \");'',
       ''    uart_put_udec(signal_round_control);'',
       ''    kernel_boot_log(\"~n\");'',
       ''    kernel_boot_log(\"probe-ticks: missing-peer controls complete~n\");'',
       ''    while (true) { wfi(); }'',
       ''}'']))]\<rparr>"

definition window_651_resume_old :: window where
  "window_651_resume_old = \<lparr>w_spin = None,
     w_prepare = [],
     w_check = w_check window_651_no_peer
     @ [(u ''lib/occupancy.tkb'',
      (srcs [''    let mut baseline: PeerTickStamp[p] = peer_tick_stamp(peer);'']),
      (srcs [''    let mut baseline: PeerTickStamp[p] = peer_tick_stamp_control('',
       ''        peer, world_stop_resume_control_before);''])),
     (u ''kernel/signal_contention_evidence.tkb'',
      (srcs [''        if (missed == false) {'',
       ''            match signal_probe_round(index + 1, locked == 1) {'',
       ''                0 => {}'',
       ''                1 => { lost = lost + 1; }'',
       ''                _ => { missed = true; }'',
       ''            }'',
       ''        }'']),
      (srcs [''        match signal_probe_round(index + 1, locked == 1) {'',
       ''            0 => {}'',
       ''            1 => { lost = lost + 1; }'',
       ''            _ => { missed = true; }'',
       ''        }'']))]\<rparr>"

definition window_1194_el0_spsr :: window where
  "window_1194_el0_spsr = \<lparr>w_spin = None,
     w_prepare = [],
     w_check = [(u ''kernel/process.tkb'',
      (src ''el1_resume_probe_landing_address(), KERNEL_PROCESS_PROBE_SPSR_EL1H,''),
      (src ''el1_resume_probe_landing_address(), 0,''))]\<rparr>"

definition window_1194_no_pan :: window where
  "window_1194_no_pan = \<lparr>w_spin = None,
     w_prepare = [],
     w_check = [(u ''kernel/process.tkb'',
      (src ''const KERNEL_PROCESS_PROBE_SPSR_EL1H: usize = 0x4003C5;''),
      (src ''const KERNEL_PROCESS_PROBE_SPSR_EL1H: usize = 0x3C5;''))]\<rparr>"

definition window_638_no_consult :: window where
  "window_638_no_consult = \<lparr>w_spin = None,
     w_prepare = [],
     w_check = [(u ''kernel/process.tkb'',
      (srcs [''    if (preempt_count_zero_at(frame_ref_address(frame)) == false) {''] @ src ''        el1_preempt_count_refused();''),
      (srcs [''    if (preempt_count_zero_at(frame_ref_address(frame)) == false && false) {''] @ src ''        el1_preempt_count_refused();''))]\<rparr>"

definition window_1211 :: window where
  "window_1211 = \<lparr>w_spin = None,
     w_prepare = [(u ''init/test_driver.tkb'',
      (srcs [''    terminal_io_receive(guard, c);'',
       ''    process_run_unlock(guard);'']),
      (srcs [''    terminal_io_receive(guard, c);'',
       ''    process_run_unlock(guard);'',
       ''    // race window 1211 (scripts/build_qemu_race_window.py)'',
       ''    if ((c == 10 || c == 13) && terminal_echo_pending()) {'',
       ''        let race_window_start: i64 = read_cntpct();'',
       ''        while (read_cntpct() - race_window_start <'',
       ''               (read_cntfrq() >> 4)) {}'',
       ''    }'']))],
     w_check = [(u ''printk/log.tkb'',
      (srcs [''    if (atomic_word_load(&kernel_log_tx_writer_wake_owed) != 0) { uart_tx_irq_enable(); }'']),
      [])]\<rparr>"

definition window_905_late_wake :: window where
  "window_905_late_wake = \<lparr>w_spin = None,
     w_prepare = [],
     w_check = [(u ''kernel/process.tkb'',
      (srcs [''    kernel_process_tick_wake_note(core, now);'',
       ''    if (due == 0 || now < due) { return; }'']),
      (srcs [''    kernel_process_tick_wake_note(core, now);'',
       ''    if (due == 0 ||'',
       ''        atomic_word_load(&kernel_process_tick_wake_tick_before[core]) < due) { return; }'']))]\<rparr>"

definition window_1339_load_store :: window where
  "window_1339_load_store = \<lparr>w_spin = None,
     w_prepare = [],
     w_check = [(u ''kernel/profile_session.tkb'',
      (srcs [''    if (atomic_word_compare_exchange(&profile_session_mode, PROFILE_MODE_IDLE,'',
       ''                                     PROFILE_MODE_STARTING) == false &&'',
       ''        atomic_word_compare_exchange(&profile_session_mode, PROFILE_MODE_STOPPED,'',
       ''                                     PROFILE_MODE_STARTING) == false) {'',
       ''        return ProfileStartResult::Busy;'',
       ''    }'']),
      ((srcs [''    let race_window_mode: usize = atomic_word_load(&profile_session_mode);'',
       ''    if (race_window_mode != PROFILE_MODE_IDLE &&'',
       ''        race_window_mode != PROFILE_MODE_STOPPED) {'',
       ''        return ProfileStartResult::Busy;'',
       ''    }'']) @ spin (u ''1339-load-store'') False @ (srcs [''    atomic_word_store(&profile_session_mode, PROFILE_MODE_STARTING);'']))),
     (u ''kernel/profile_session.tkb'',
      (srcs [''    if (atomic_word_compare_exchange(&profile_session_mode, PROFILE_MODE_SAMPLING,'',
       ''                                     PROFILE_MODE_STOPPED) == false) {'',
       ''        return false;'',
       ''    }'']),
      ((srcs [''    if (atomic_word_load(&profile_session_mode) != PROFILE_MODE_SAMPLING) {'',
       ''        return false;'',
       ''    }'']) @ spin (u ''1339-load-store'') False @ (srcs [''    atomic_word_store(&profile_session_mode, PROFILE_MODE_STOPPED);''])))]\<rparr>"

definition WINDOWS :: "(pstr \<times> window) list" where
  "WINDOWS = [(u ''678'', window_678),
     (u ''761-unbounded'', window_761_unbounded),
     (u ''830-core0'', window_830_core0),
     (u ''705-missed-arrival'', window_705_missed_arrival),
     (u ''705'', window_705),
     (u ''609'', window_609),
     (u ''603'', window_603),
     (u ''635'', window_635),
     (u ''633'', window_633),
     (u ''651'', window_651),
     (u ''651-no-peer'', window_651_no_peer),
     (u ''651-resume-old'', window_651_resume_old),
     (u ''1194-el0-spsr'', window_1194_el0_spsr),
     (u ''1194-no-pan'', window_1194_no_pan),
     (u ''638-no-consult'', window_638_no_consult),
     (u ''1211'', window_1211),
     (u ''905-late-wake'', window_905_late_wake),
     (u ''1339-load-store'', window_1339_load_store)]"

definition STALL_PROBE_FILE :: pstr where "STALL_PROBE_FILE = u ''kernel/stall_probe.tkb''"
definition STALL_PROBE_OFF :: pstr where "STALL_PROBE_OFF = (srcs [''const KERNEL_STALL_PROBES: usize = 0;''])"
definition STALL_PROBE_ON :: pstr where "STALL_PROBE_ON = (srcs [''const KERNEL_STALL_PROBES: usize = 1;''])"

definition edited_files :: "window \<Rightarrow> pstr list" where
  "edited_files w = remdups (map fst (w_check w) @ map fst (w_prepare w) @ [STALL_PROBE_FILE]
     @ (case w_spin w of None \<Rightarrow> [] | Some (spin_file, _) \<Rightarrow> [spin_file]))"

definition edit_all :: "text_edit list \<Rightarrow> unit act" where
  "edit_all es = seqA (map (\<lambda>(p, before, after). replace_once p before after) es)"

definition race_edits :: "pstr \<Rightarrow> window \<Rightarrow> bool \<Rightarrow> unit act" where
  "race_edits name w revert = seqA [
     (case w_spin w of None \<Rightarrow> skipA
      | Some (spin_file, anchor, peer_only) \<Rightarrow> replace_once spin_file anchor (anchor @ spin name peer_only)),
     replace_once STALL_PROBE_FILE STALL_PROBE_OFF STALL_PROBE_ON,
     edit_all (w_prepare w),
     (if revert then edit_all (w_check w) else skipA)]"

definition race_main :: "(pstr \<Rightarrow> pstr list) \<Rightarrow> pstr list \<Rightarrow> unit act" where
  "race_main resolve argv st =
     (let revert = u ''--revert'' \<in> set argv; args = filter (\<lambda>a. a \<noteq> u ''--revert'') argv in
      case args of
        [root, overlay, name] \<Rightarrow>
          (case map_of WINDOWS name of
             None \<Rightarrow> (Inl OvUsage, st)
           | Some w \<Rightarrow> overlay_build (resolve root) (resolve overlay) (mirror_edited unwalked (edited_files w))
                         (race_edits name w revert) st)
      | _ \<Rightarrow> (Inl OvUsage, st))"

subsection \<open>The native driver\<close>

text \<open>The text written for the text of the driver; \<open>SystemExit\<close> names the anchor.\<close>

definition virtio_native :: "pstr \<Rightarrow> pstr + pstr" where
  "virtio_native s =
     (case layout_replace_once s (src ''    interrupt_notify();'') (src ''    virtio_fixture_notify();'') of
        Inl _ \<Rightarrow> Inl (u ''virtio-net native fixture: expected exactly one IRQ notify anchor'')
      | Inr t \<Rightarrow>
          (case layout_replace_once t (srcs [''use \"kernel/lib/occupancy.tkb\";'']) [] of
             Inl _ \<Rightarrow> Inl (u ''virtio-net native fixture: expected exactly one occupancy import'')
           | Inr v \<Rightarrow> Inr v))"

subsection \<open>The overlays are isolated\<close>

lemma keeps_dma: "keeps names (set dma_changed) (dma_edits control) (set dma_changed)"
  unfolding dma_edits_def dma_control_edit_def by (intro keeps_intros) (simp add: dma_changed_def keeps_intros)

interpretation dma: overlay_script "[u ''build'']" "set dma_changed" "set dma_changed"
  "mirror_copy [u ''build''] dma_changed" "dma_edits control" for control
  by unfold_locales (rule sets_up_copy, rule keeps_dma)

lemmas walked_eval = pruned_def unwalked_def u_def

interpretation wake: overlay_script unwalked "set OVERLAID" "set OVERLAID" "mirror_edited unwalked OVERLAID" wake_edits
proof
  show "sets_up unwalked (set OVERLAID) (mirror_edited unwalked OVERLAID)"
    by (rule sets_up_edited) (simp_all add: OVERLAID_def walked_eval)
  show "keeps unwalked (set OVERLAID) wake_edits (set OVERLAID)"
    unfolding wake_edits_def by (rule keeps_replace) (simp add: OVERLAID_def)
qed

lemma keeps_edit_all:
  "list_all (\<lambda>(p, _). p \<in> C) es \<Longrightarrow> keeps names C (edit_all es) C"
  unfolding edit_all_def by (rule keeps_seq) (auto simp: list_all_iff intro: keeps_intros)

lemma keeps_race: "keeps names (set (edited_files w)) (race_edits name w revert) (set (edited_files w))"
proof -
  have "list_all (\<lambda>(p, _). p \<in> set (edited_files w)) (w_prepare w)" "list_all (\<lambda>(p, _). p \<in> set (edited_files w)) (w_check w)"
    by (force simp: list_all_iff edited_files_def)+
  then have "keeps names (set (edited_files w)) (edit_all (w_prepare w)) (set (edited_files w))"
    "keeps names (set (edited_files w)) (edit_all (w_check w)) (set (edited_files w))"
    by (auto intro: keeps_edit_all)
  moreover have "STALL_PROBE_FILE \<in> set (edited_files w)" by (simp add: edited_files_def)
  moreover have "keeps names (set (edited_files w)) (case w_spin w of None \<Rightarrow> skipA
      | Some (spin_file, anchor, peer_only) \<Rightarrow> replace_once spin_file anchor (anchor @ spin name peer_only)) (set (edited_files w))"
  proof (cases "w_spin w")
    case (Some x)
    obtain p anchor peer_only where "x = (p, anchor, peer_only)" by (metis surj_pair)
    with Some have "p \<in> set (edited_files w)" by (simp add: edited_files_def)
    with Some \<open>x = _\<close> show ?thesis by (simp add: keeps_replace)
  qed (simp add: keeps_skip)
  ultimately show ?thesis
    unfolding race_edits_def by (intro keeps_intros) (simp add: keeps_intros)
qed

text \<open>No window edits a file the walk does not reach.\<close>

definition walked_edits :: "window \<Rightarrow> bool" where
  "walked_edits w \<longleftrightarrow> list_all (\<lambda>p. \<not> pruned unwalked p)
     (map fst (w_check w) @ map fst (w_prepare w) @ (case w_spin w of None \<Rightarrow> [] | Some (p, _) \<Rightarrow> [p]))"

lemma window_678_walked: "walked_edits window_678"
  by (simp add: walked_edits_def window_678_def walked_eval)

lemma window_761_unbounded_walked: "walked_edits window_761_unbounded"
  by (simp add: walked_edits_def window_761_unbounded_def walked_eval)

lemma window_830_core0_walked: "walked_edits window_830_core0"
  by (simp add: walked_edits_def window_830_core0_def walked_eval)

lemma window_705_missed_arrival_walked: "walked_edits window_705_missed_arrival"
  by (simp add: walked_edits_def window_705_missed_arrival_def walked_eval)

lemma window_705_walked: "walked_edits window_705"
  by (simp add: walked_edits_def window_705_def walked_eval)

lemma window_609_walked: "walked_edits window_609"
  by (simp add: walked_edits_def window_609_def walked_eval)

lemma window_603_walked: "walked_edits window_603"
  by (simp add: walked_edits_def window_603_def walked_eval)

lemma window_635_walked: "walked_edits window_635"
  by (simp add: walked_edits_def window_635_def walked_eval)

lemma window_633_walked: "walked_edits window_633"
  by (simp add: walked_edits_def window_633_def walked_eval)

lemma window_651_walked: "walked_edits window_651"
  by (simp add: walked_edits_def window_651_def PROBE_ENTRIES_def walked_eval)

lemma window_651_no_peer_walked: "walked_edits window_651_no_peer"
  by (simp add: walked_edits_def window_651_no_peer_def PROBE_ENTRIES_def walked_eval)

lemma window_651_resume_old_walked: "walked_edits window_651_resume_old"
  by (simp add: walked_edits_def window_651_resume_old_def PROBE_ENTRIES_def window_651_no_peer_def walked_eval)

lemma window_1194_el0_spsr_walked: "walked_edits window_1194_el0_spsr"
  by (simp add: walked_edits_def window_1194_el0_spsr_def walked_eval)

lemma window_1194_no_pan_walked: "walked_edits window_1194_no_pan"
  by (simp add: walked_edits_def window_1194_no_pan_def walked_eval)

lemma window_638_no_consult_walked: "walked_edits window_638_no_consult"
  by (simp add: walked_edits_def window_638_no_consult_def walked_eval)

lemma window_1211_walked: "walked_edits window_1211"
  by (simp add: walked_edits_def window_1211_def walked_eval)

lemma window_905_late_wake_walked: "walked_edits window_905_late_wake"
  by (simp add: walked_edits_def window_905_late_wake_def walked_eval)

lemma window_1339_load_store_walked: "walked_edits window_1339_load_store"
  by (simp add: walked_edits_def window_1339_load_store_def walked_eval)

lemma windows_walked: "list_all (\<lambda>(name, w). walked_edits w) WINDOWS"
  unfolding WINDOWS_def list.pred_inject prod.case by (simp add: window_678_walked window_761_unbounded_walked window_830_core0_walked window_705_missed_arrival_walked window_705_walked window_609_walked window_603_walked window_635_walked window_633_walked window_651_walked window_651_no_peer_walked window_651_resume_old_walked window_1194_el0_spsr_walked window_1194_no_pan_walked window_638_no_consult_walked window_1211_walked window_905_late_wake_walked window_1339_load_store_walked)

lemma edited_walked:
  assumes "map_of WINDOWS name = Some w"
  shows "list_all (\<lambda>p. \<not> pruned unwalked p) (edited_files w)"
proof -
  have "walked_edits w" using windows_walked map_of_SomeD [OF assms] by (auto simp: list_all_iff)
  moreover have "\<not> pruned unwalked STALL_PROBE_FILE" by (simp add: STALL_PROBE_FILE_def walked_eval)
  ultimately show ?thesis by (auto simp: walked_edits_def edited_files_def list_all_iff)
qed

lemma race_script:
  assumes "map_of WINDOWS name = Some w"
  shows "overlay_script unwalked (set (edited_files w)) (set (edited_files w)) (mirror_edited unwalked (edited_files w)) (race_edits name w revert)"
proof
  show "sets_up unwalked (set (edited_files w)) (mirror_edited unwalked (edited_files w))"
    using edited_walked [OF assms] by (intro sets_up_edited) (simp add: edited_files_def)
qed (rule keeps_race)



end
