(* ===== verification/Spec2Isabelle.thy ===== *)
theory Spec2Isabelle
  imports Lz4_Image Fdt_Fixture Iommu_Report LogRing_Facts ProtocolTrace_Facts Source_Scan_Facts Ext2_Campaign_Facts Gem_Overlay Qemu_Overlays
begin

text \<open>
  A verification library for the host-side tooling of Takibi (scripts/*.py).
\<close>

end
